(* ===== verification/OS_Prelude.thy ===== *)
theory OS_Prelude
  imports Main "HOL-Library.Word"
begin

text \<open>
  What the components share: names for the C integer types, the wrap-around of a C
  \<open>int\<close>, the search loop \<open>for (p = table; p < end; p++) if (P p) ...\<close> over an array,
  facts on updating an array by index, and the interface of a state machine with an
  inductive invariant (locale \<open>invariant_machine\<close>), which the kernel, the job
  dispatcher and the chat server interpret with their own steps; \<open>simulation\<close> extends it by
  an abstract machine.
\<close>

named_theorems array_simps \<comment> \<open>lengths and reads of arrays after the writes of the code\<close>

section \<open>C integers\<close>

type_synonym uint32 = "32 word"
type_synonym cint = int \<comment> \<open>a C \<open>int\<close>; every operation that can leave the range wraps with \<open>to_cint\<close>\<close>

text \<open>The value of a 32-bit two's complement \<open>int\<close> that holds \<open>x\<close> modulo \<open>2 ^ 32\<close>.\<close>

definition to_cint :: "int \<Rightarrow> cint" where
  "to_cint x = (x + 2147483648) mod 4294967296 - 2147483648"

lemma to_cint_id: "- 2147483648 \<le> x \<Longrightarrow> x < 2147483648 \<Longrightarrow> to_cint x = x"
  by (simp add: to_cint_def)

lemma to_cint_range: "- 2147483648 \<le> to_cint x \<and> to_cint x < 2147483648"
  by (auto simp: to_cint_def)

abbreviation newline :: char where
  "newline \<equiv> CHR 0x0A"

section \<open>Arrays\<close>

text \<open>The array with entry \<open>i\<close> rewritten by \<open>f\<close>.\<close>

definition upd_at :: "nat \<Rightarrow> ('a \<Rightarrow> 'a) \<Rightarrow> 'a list \<Rightarrow> 'a list" where
  "upd_at i f xs = xs[i := f (xs ! i)]"

lemma length_upd_at [simp, array_simps]: "length (upd_at i f xs) = length xs"
  by (simp add: upd_at_def)

lemma nth_upd_at [array_simps]:
  "j < length xs \<Longrightarrow> upd_at i f xs ! j = (if i = j then f (xs ! j) else xs ! j)"
  by (simp add: upd_at_def nth_list_update)

lemma nth_upd_at_same [simp]: "i < length xs \<Longrightarrow> upd_at i f xs ! i = f (xs ! i)"
  by (simp add: array_simps)

lemma nth_upd_at_other [simp]: "i \<noteq> j \<Longrightarrow> upd_at i f xs ! j = xs ! j"
  by (simp add: upd_at_def)

lemma upd_at_upd_at [simp]:
  "i < length xs \<Longrightarrow> upd_at i g (upd_at i f xs) = upd_at i (\<lambda>x. g (f x)) xs"
  by (simp add: upd_at_def)

lemma upd_at_frame: "(\<And>p. f (g p) = f p) \<Longrightarrow> map f (upd_at i g ps) = map f ps"
  unfolding upd_at_def map_update
  by (metis list_update_beyond list_update_id nth_map not_less length_map)

text \<open>The first entry that satisfies a test, as the search loops of the code find it.\<close>

fun first_index :: "('a \<Rightarrow> bool) \<Rightarrow> 'a list \<Rightarrow> nat option" where
  "first_index P [] = None"
| "first_index P (x # xs) = (if P x then Some 0 else map_option Suc (first_index P xs))"

lemma first_index_None: "first_index P xs = None \<longleftrightarrow> (\<forall>x \<in> set xs. \<not> P x)"
  by (induction xs) auto

lemma first_index_SomeD:
  "first_index P xs = Some i \<Longrightarrow> i < length xs \<and> P (xs ! i) \<and> (\<forall>j<i. \<not> P (xs ! j))"
proof (induction xs arbitrary: i)
  case Nil
  then show ?case by simp
next
  case (Cons x xs)
  show ?case
  proof (cases "P x")
    case True
    with Cons.prems show ?thesis by simp
  next
    case False
    with Cons.prems obtain k where "first_index P xs = Some k" "i = Suc k" by auto
    with Cons.IH False show ?thesis by (auto simp: less_Suc_eq_0_disj)
  qed
qed

lemma first_index_Some_iff:
  "first_index P xs = Some i \<longleftrightarrow> i < length xs \<and> P (xs ! i) \<and> (\<forall>j<i. \<not> P (xs ! j))"
proof
  assume r: "i < length xs \<and> P (xs ! i) \<and> (\<forall>j<i. \<not> P (xs ! j))"
  then have "first_index P xs \<noteq> None" by (auto simp: first_index_None)
  then obtain k where k: "first_index P xs = Some k" by blast
  with first_index_SomeD[OF k] r show "first_index P xs = Some i" by (metis linorder_neqE_nat)
qed (rule first_index_SomeD)

lemma first_index_map: "first_index P (map f xs) = first_index (\<lambda>x. P (f x)) xs"
  by (induction xs) auto

text \<open>The same search started at entry \<open>i\<close>.\<close>

definition first_index_from :: "('a \<Rightarrow> bool) \<Rightarrow> nat \<Rightarrow> 'a list \<Rightarrow> nat option" where
  "first_index_from P i xs = map_option (\<lambda>k. i + k) (first_index P (drop i xs))"

lemma first_index_from_SomeD:
  assumes "first_index_from P i xs = Some j"
  shows "i \<le> j \<and> j < length xs \<and> P (xs ! j) \<and> (\<forall>k. i \<le> k \<and> k < j \<longrightarrow> \<not> P (xs ! k))"
proof -
  from assms obtain k where k: "first_index P (drop i xs) = Some k" "j = i + k"
    by (auto simp: first_index_from_def)
  from first_index_SomeD[OF k(1)] k(2) have "j < length xs" "P (xs ! j)" by auto
  moreover have "\<not> P (xs ! m)" if "i \<le> m" "m < j" for m
  proof -
    from that k(2) have "m - i < k" by simp
    with first_index_SomeD[OF k(1)] have "\<not> P (drop i xs ! (m - i))" by blast
    with that \<open>j < length xs\<close> show ?thesis by simp
  qed
  ultimately show ?thesis using k(2) by auto
qed

lemma first_index_from_None:
  "first_index_from P i xs = None \<longleftrightarrow> (\<forall>j. i \<le> j \<and> j < length xs \<longrightarrow> \<not> P (xs ! j))"
proof -
  have "(\<forall>x \<in> set (drop i xs). \<not> P x) \<longleftrightarrow> (\<forall>k < length xs - i. \<not> P (xs ! (i + k)))"
    by (auto simp: all_set_conv_all_nth)
  also have "\<dots> \<longleftrightarrow> (\<forall>j. i \<le> j \<and> j < length xs \<longrightarrow> \<not> P (xs ! j))"
    by (metis add_diff_inverse_nat le_add1 leD less_diff_conv add.commute)
  finally show ?thesis by (simp add: first_index_from_def first_index_None)
qed

section \<open>State machines with an inductive invariant\<close>

inductive reachable :: "('s \<Rightarrow> bool) \<Rightarrow> ('s \<Rightarrow> 's \<Rightarrow> bool) \<Rightarrow> 's \<Rightarrow> bool" for start step where
  reach_start: "start s \<Longrightarrow> reachable start step s"
| reach_step: "reachable start step s \<Longrightarrow> step s t \<Longrightarrow> reachable start step t"

locale invariant_machine =
  fixes start :: "'s \<Rightarrow> bool"
    and step :: "'s \<Rightarrow> 's \<Rightarrow> bool"
    and inv :: "'s \<Rightarrow> bool"
  assumes inv_start: "start s \<Longrightarrow> inv s"
    and inv_step: "inv s \<Longrightarrow> step s t \<Longrightarrow> inv t"
begin

lemma reachable_inv: "reachable start step s \<Longrightarrow> inv s"
  by (induction rule: reachable.induct) (auto intro: inv_start inv_step)

lemma steps_inv: "step\<^sup>*\<^sup>* s t \<Longrightarrow> inv s \<Longrightarrow> inv t"
  by (induction rule: rtranclp_induct) (auto intro: inv_step)

lemma reachable_steps: "step\<^sup>*\<^sup>* s t \<Longrightarrow> reachable start step s \<Longrightarrow> reachable start step t"
  by (induction rule: rtranclp_induct) (auto intro: reach_step)

end

text \<open>
  A machine seen through an abstraction: each step is one of the abstract machine or leaves
  the abstract state as it is, so reachable states have reachable abstractions.
\<close>

locale simulation = invariant_machine +
  fixes astart :: "'t \<Rightarrow> bool"
    and astep :: "'t \<Rightarrow> 't \<Rightarrow> bool"
    and abst :: "'a \<Rightarrow> 't"
  assumes abst_start: "start s \<Longrightarrow> astart (abst s)"
    and abst_step: "inv s \<Longrightarrow> step s t \<Longrightarrow> abst t = abst s \<or> astep (abst s) (abst t)"
begin

lemma reachable_abst: "reachable start step s \<Longrightarrow> reachable astart astep (abst s)"
proof (induction rule: reachable.induct)
  case (reach_start s)
  then show ?case by (intro reachable.reach_start abst_start)
next
  case (reach_step s t)
  then show ?case using abst_step[OF reachable_inv] by (metis reachable.reach_step)
qed

lemma steps_abst: "step\<^sup>*\<^sup>* s t \<Longrightarrow> inv s \<Longrightarrow> astep\<^sup>*\<^sup>* (abst s) (abst t)"
proof (induction rule: rtranclp_induct)
  case (step t u)
  then show ?case using abst_step[OF steps_inv] by (metis rtranclp.rtrancl_into_rtrancl)
qed simp

end

end
