(* ===== verification/Xv6_State.thy ===== *)
theory Xv6_State
  imports OS_Prelude
begin

text \<open>
  The data of the xv6 kernel as \<open>hw4/proc.h\<close>, \<open>hw4/processInfo.h\<close> and the globals of
  \<open>hw4/proc.c\<close> declare it. A \<open>struct proc *\<close> is an index into the process table
  (\<open>nat option\<close>, \<open>None\<close> for the null pointer), so the table carries the aliasing between
  \<open>parent\<close>, \<open>chan\<close>, \<open>initproc\<close> and the per-CPU \<open>proc\<close> pointers. Other kernel pointers
  (page tables, stacks, files, inodes) are addresses, with 0 for null.

  The sizes and constants of headers that are not part of the repository (\<open>param.h\<close>,
  \<open>mmu.h\<close>, \<open>x86.h\<close>) are the fields of \<open>kconf\<close>; NPROC and NOFILE are the lengths of the
  table and of each \<open>ofile\<close> array. The functions of the other kernel files
  (\<open>kalloc.c\<close>, \<open>vm.c\<close>, \<open>file.c\<close>, \<open>fs.c\<close>, \<open>log.c\<close>, \<open>string.c\<close>) are the
  fields of \<open>kext\<close>: arbitrary functions on the rest of the machine, a value of type \<open>'w\<close>.
\<close>

section \<open>Process states\<close>

datatype procstate = UNUSED | EMBRYO | SLEEPING | RUNNABLE | RUNNING | ZOMBIE

text \<open>The number C gives each constant of \<open>enum procstate\<close>.\<close>

fun state_num :: "procstate \<Rightarrow> cint" where
  "state_num UNUSED = 0"
| "state_num EMBRYO = 1"
| "state_num SLEEPING = 2"
| "state_num RUNNABLE = 3"
| "state_num RUNNING = 4"
| "state_num ZOMBIE = 5"

lemma state_num_inj: "state_num a = state_num b \<longleftrightarrow> a = b"
  by (cases a; cases b) auto

instantiation procstate :: linorder
begin

definition less_eq_procstate :: "procstate \<Rightarrow> procstate \<Rightarrow> bool" where
  "less_eq_procstate a b \<longleftrightarrow> state_num a \<le> state_num b"

definition less_procstate :: "procstate \<Rightarrow> procstate \<Rightarrow> bool" where
  "less_procstate a b \<longleftrightarrow> state_num a < state_num b"

instance
  by standard (auto simp: less_eq_procstate_def less_procstate_def state_num_inj)

end

lemma procstate_order_bounds [simp]: "UNUSED \<le> st" "st \<le> ZOMBIE"
  by (cases st; simp add: less_eq_procstate_def)+

lemma state_num_bounds: "0 \<le> state_num st" "state_num st \<le> 5"
  by (cases st; simp)+

lemma state_num_active: "1 \<le> state_num st \<longleftrightarrow> st \<noteq> UNUSED"
  by (cases st) auto

section \<open>The process structure\<close>

text \<open>
  \<open>struct context\<close>, and the fields of \<open>struct trapframe\<close> (declared in \<open>x86.h\<close>)
  that the code of the repository reads or writes.
\<close>

record kcontext =
  edi :: uint32
  esi :: uint32
  ebx :: uint32
  ebp :: uint32
  eip :: uint32

record trapframe =
  tf_eax :: uint32
  tf_eip :: uint32
  tf_esp :: uint32
  tf_eflags :: uint32
  tf_cs :: uint32
  tf_ds :: uint32
  tf_es :: uint32
  tf_ss :: uint32

definition zero_context :: kcontext where
  "zero_context = \<lparr>edi = 0, esi = 0, ebx = 0, ebp = 0, eip = 0\<rparr>"

definition zero_trapframe :: trapframe where
  "zero_trapframe = \<lparr>tf_eax = 0, tf_eip = 0, tf_esp = 0, tf_eflags = 0,
     tf_cs = 0, tf_ds = 0, tf_es = 0, tf_ss = 0\<rparr>"

text \<open>
  A sleep channel is an address the kernel compares for equality: null, a process
  structure (the channel of \<open>wait\<close>), the tick counter (the channel of \<open>sys_sleep\<close>), or
  an address of some other kernel structure.
\<close>

datatype chan = NullChan | ProcChan nat | TicksChan | OtherChan uint32

fun ptr_chan :: "nat option \<Rightarrow> chan" where
  "ptr_chan None = NullChan"
| "ptr_chan (Some q) = ProcChan q"

text \<open>
  Where the saved kernel context of a process resumes. The kernel keeps this as the
  contents of the process's kernel stack, below \<open>p->context\<close>: in user space (or on the
  way there), at the start of \<open>forkret\<close>, in \<open>fork\<close> after the slot was claimed, in \<open>wait\<close>
  after its \<open>sleep\<close>, in \<open>exit\<close> after the files were closed, or in a \<open>sleep\<close> of other
  kernel code that goes on at the enclosed point.
\<close>

datatype kpos = KUser | KForkret | KFork nat | KWait | KExit | KSleep kpos

record proc =
  sz :: uint32
  pgdir :: uint32
  kstack :: uint32
  state :: procstate
  pid :: cint
  parent :: "nat option"
  tf :: uint32
  tframe :: trapframe
  ctx :: uint32
  kctx :: kcontext
  kret :: uint32
  chan :: chan
  killed :: cint
  ofile :: "uint32 list"
  cwd :: uint32
  name :: string
  nrswitch :: cint
  kpos :: kpos

text \<open>
  \<open>tf\<close> and \<open>context\<close> point into the process's own kernel stack: \<open>tf\<close> and \<open>ctx\<close>
  are the addresses, \<open>tframe\<close> and \<open>kctx\<close> the structures stored there, and \<open>kret\<close> the word
  between them (the return address \<open>allocproc\<close> pushes).
\<close>

definition zero_proc :: "nat \<Rightarrow> proc" where
  "zero_proc nofile = \<lparr>sz = 0, pgdir = 0, kstack = 0, state = UNUSED, pid = 0, parent = None,
     tf = 0, tframe = zero_trapframe, ctx = 0, kctx = zero_context, kret = 0, chan = NullChan,
     killed = 0, ofile = replicate nofile 0, cwd = 0, name = [], nrswitch = 0, kpos = KUser\<rparr>"

text \<open>
  \<open>struct cpu\<close>, with \<open>scan\<close> for the loop variable \<open>p\<close> of \<open>scheduler\<close>, which the
  CPU's saved scheduler context holds while a process runs.
\<close>

record cpu =
  apicid :: nat
  started :: uint32
  ncli :: cint
  intena :: cint
  cproc :: "nat option"
  scan :: nat

section \<open>Constants, external functions and the kernel state\<close>

record kconf =
  KSTACKSIZE :: uint32
  TFSIZE :: uint32 \<comment> \<open>\<open>sizeof(struct trapframe)\<close>\<close>
  PGSIZE :: uint32
  FL_IF :: uint32
  UCODE_SEL :: uint32 \<comment> \<open>\<open>(SEG_UCODE << 3) | DPL_USER\<close>\<close>
  UDATA_SEL :: uint32 \<comment> \<open>\<open>(SEG_UDATA << 3) | DPL_USER\<close>\<close>
  forkret_addr :: uint32
  trapret_addr :: uint32
  ROOTDEV :: cint

record 'w kext =
  kalloc :: "'w \<Rightarrow> uint32 \<times> 'w"
  kfree :: "uint32 \<Rightarrow> 'w \<Rightarrow> 'w"
  setupkvm :: "'w \<Rightarrow> uint32 \<times> 'w"
  inituvm :: "uint32 \<Rightarrow> 'w \<Rightarrow> 'w"
  allocuvm :: "uint32 \<Rightarrow> uint32 \<Rightarrow> uint32 \<Rightarrow> 'w \<Rightarrow> uint32 \<times> 'w"
  deallocuvm :: "uint32 \<Rightarrow> uint32 \<Rightarrow> uint32 \<Rightarrow> 'w \<Rightarrow> uint32 \<times> 'w"
  copyuvm :: "uint32 \<Rightarrow> uint32 \<Rightarrow> 'w \<Rightarrow> uint32 \<times> 'w"
  freevm :: "uint32 \<Rightarrow> 'w \<Rightarrow> 'w"
  switchuvm :: "proc \<Rightarrow> 'w \<Rightarrow> 'w"
  switchkvm :: "'w \<Rightarrow> 'w"
  filedup :: "uint32 \<Rightarrow> 'w \<Rightarrow> uint32 \<times> 'w"
  fileclose :: "uint32 \<Rightarrow> 'w \<Rightarrow> 'w"
  idup :: "uint32 \<Rightarrow> 'w \<Rightarrow> uint32 \<times> 'w"
  iput :: "uint32 \<Rightarrow> 'w \<Rightarrow> 'w"
  namei :: "string \<Rightarrow> 'w \<Rightarrow> uint32 \<times> 'w"
  begin_op :: "'w \<Rightarrow> 'w"
  end_op :: "'w \<Rightarrow> 'w"
  iinit :: "cint \<Rightarrow> 'w \<Rightarrow> 'w"
  initlog :: "cint \<Rightarrow> 'w \<Rightarrow> 'w"
  safestrcpy :: "string \<Rightarrow> nat \<Rightarrow> string"

record 'w kstate =
  ptable :: "proc list"
  nextpid :: cint
  initproc :: "nat option"
  cpus :: "cpu list"
  first_run :: bool \<comment> \<open>the static variable \<open>first\<close> of \<open>forkret\<close>\<close>
  world :: 'w

text \<open>A call that does not come back: \<open>panic\<close>, or a null pointer that the code follows.\<close>

datatype kfault = Panic string | NullDeref

text \<open>Writing the fields of one table entry, and of one CPU.\<close>

definition upd_proc :: "nat \<Rightarrow> (proc \<Rightarrow> proc) \<Rightarrow> 'w kstate \<Rightarrow> 'w kstate" where
  "upd_proc i f s = s\<lparr>ptable := upd_at i f (ptable s)\<rparr>"

definition upd_cpu :: "nat \<Rightarrow> (cpu \<Rightarrow> cpu) \<Rightarrow> 'w kstate \<Rightarrow> 'w kstate" where
  "upd_cpu c f s = s\<lparr>cpus := upd_at c f (cpus s)\<rparr>"

lemma upd_proc_simps [simp]:
  "ptable (upd_proc i f s) = upd_at i f (ptable s)" "nextpid (upd_proc i f s) = nextpid s"
  "initproc (upd_proc i f s) = initproc s" "cpus (upd_proc i f s) = cpus s"
  "first_run (upd_proc i f s) = first_run s" "world (upd_proc i f s) = world s"
  by (simp_all add: upd_proc_def)

lemma upd_cpu_simps [simp]:
  "ptable (upd_cpu i g s) = ptable s" "nextpid (upd_cpu i g s) = nextpid s"
  "initproc (upd_cpu i g s) = initproc s" "cpus (upd_cpu i g s) = upd_at i g (cpus s)"
  "first_run (upd_cpu i g s) = first_run s" "world (upd_cpu i g s) = world s"
  by (simp_all add: upd_cpu_def)

text \<open>A process slot in use, and one whose process can still run.\<close>

definition active :: "proc \<Rightarrow> bool" where
  "active p \<longleftrightarrow> state p \<noteq> UNUSED"

definition live :: "proc \<Rightarrow> bool" where
  "live p \<longleftrightarrow> state p = SLEEPING \<or> state p = RUNNABLE \<or> state p = RUNNING"

lemma live_active: "live p \<Longrightarrow> active p"
  by (auto simp: live_def active_def)

section \<open>The current CPU and process\<close>

text \<open>
  \<open>mycpu\<close> panics with interrupts enabled and for an APIC id that no CPU has;
  \<open>cpuid\<close> is the index of the result in \<open>cpus\<close>, and \<open>myproc\<close> reads its \<open>proc\<close>.
\<close>

definition mycpu :: "bool \<Rightarrow> nat \<Rightarrow> cpu list \<Rightarrow> kfault + nat" where
  "mycpu interrupts_on lapicid cs =
     (if interrupts_on then Inl (Panic (''mycpu called with interrupts enabled'' @ [newline]))
      else case first_index (\<lambda>c. apicid c = lapicid) cs of
             Some i \<Rightarrow> Inr i
           | None \<Rightarrow> Inl (Panic (''unknown apicid'' @ [newline])))"

definition cpuid :: "bool \<Rightarrow> nat \<Rightarrow> cpu list \<Rightarrow> kfault + nat" where
  "cpuid interrupts_on lapicid cs = mycpu interrupts_on lapicid cs"

text \<open>\<open>pushcli\<close> disables interrupts before \<open>mycpu\<close> runs.\<close>

definition myproc :: "nat \<Rightarrow> cpu list \<Rightarrow> kfault + nat option" where
  "myproc lapicid cs =
     (case mycpu False lapicid cs of Inl e \<Rightarrow> Inl e | Inr c \<Rightarrow> Inr (cproc (cs ! c)))"

lemma mycpu_finds:
  assumes "mycpu False a cs = Inr c"
  shows "c < length cs" "apicid (cs ! c) = a"
  using first_index_SomeD[of "\<lambda>c. apicid c = a" cs c] assms
  by (auto simp: mycpu_def split: option.splits)

lemma mycpu_distinct:
  "distinct (map apicid cs) \<Longrightarrow> c < length cs \<Longrightarrow> mycpu False (apicid (cs ! c)) cs = Inr c"
  by (auto simp: mycpu_def first_index_Some_iff distinct_conv_nth split: option.splits)

end
