(* ===== verification/Xv6_Proc.thy ===== *)
theory Xv6_Proc
  imports Xv6_State
begin

text \<open>
  The operations of \<open>hw4/proc.c\<close>, one definition per function, in the order the calls
  need them. What a function does between taking and releasing \<open>ptable.lock\<close> is one
  definition; a function with several critical sections is split at the points where the
  lock is free (\<open>fork\<close>: \<open>alloc_claim\<close> then \<open>fork_finish\<close>; \<open>exit\<close>: \<open>exit_files\<close> then
  \<open>exit_final\<close>) and at the calls of \<open>sched\<close>, where the process leaves the CPU
  (\<open>sleep_enter\<close> and \<open>sleep_resume\<close>, \<open>yield_enter\<close>, one iteration \<open>wait_iter\<close> of \<open>wait\<close>).
\<close>

section \<open>Creating processes\<close>

text \<open>
  \<open>pinit\<close> and the static initialisation: an empty table, the first pid is 1, and every
  CPU is about to enter \<open>scheduler\<close>, which starts with \<open>c->proc = 0\<close>.
\<close>

definition scheduler_start :: "cpu \<Rightarrow> cpu" where
  "scheduler_start c = c\<lparr>cproc := None, scan := 0\<rparr>"

definition boot :: "nat \<Rightarrow> nat \<Rightarrow> cpu list \<Rightarrow> 'w \<Rightarrow> 'w kstate" where
  "boot nproc nofile cs w = \<lparr>ptable = replicate nproc (zero_proc nofile), nextpid = 1,
     initproc = None, cpus = map scheduler_start cs, first_run = True, world = w\<rparr>"

text \<open>\<open>allocproc\<close>: the critical section that claims a slot, then the kernel stack.\<close>

definition alloc_claim :: "'w kstate \<Rightarrow> nat option \<times> 'w kstate" where
  "alloc_claim s =
     (case first_index (\<lambda>p. state p = UNUSED) (ptable s) of
        None \<Rightarrow> (None, s)
      | Some i \<Rightarrow>
          (Some i, upd_proc i (\<lambda>p. p\<lparr>state := EMBRYO, pid := nextpid s, nrswitch := 0\<rparr>)
                     (s\<lparr>nextpid := to_cint (nextpid s + 1)\<rparr>)))"

definition CONTEXT_SIZE :: uint32 where
  "CONTEXT_SIZE = 20" \<comment> \<open>\<open>sizeof(struct context)\<close>: five words\<close>

definition alloc_stack :: "kconf \<Rightarrow> 'w kext \<Rightarrow> nat \<Rightarrow> 'w kstate \<Rightarrow> nat option \<times> 'w kstate" where
  "alloc_stack K E i s =
     (case kalloc E (world s) of (k, w) \<Rightarrow>
        if k = 0
        then (None, upd_proc i (\<lambda>p. p\<lparr>kstack := k, state := UNUSED\<rparr>) (s\<lparr>world := w\<rparr>))
        else (let sp0 = k + KSTACKSIZE K; sp1 = sp0 - TFSIZE K;
                  sp2 = sp1 - 4; sp3 = sp2 - CONTEXT_SIZE
              in (Some i, upd_proc i (\<lambda>p. p\<lparr>kstack := k, tf := sp1, kret := trapret_addr K,
                     ctx := sp3, kctx := zero_context\<lparr>eip := forkret_addr K\<rparr>,
                     kpos := KForkret\<rparr>) (s\<lparr>world := w\<rparr>))))"

definition allocproc :: "kconf \<Rightarrow> 'w kext \<Rightarrow> 'w kstate \<Rightarrow> nat option \<times> 'w kstate" where
  "allocproc K E s =
     (case alloc_claim s of (None, s1) \<Rightarrow> (None, s1) | (Some i, s1) \<Rightarrow> alloc_stack K E i s1)"

definition NAME_SIZE :: nat where
  "NAME_SIZE = 16" \<comment> \<open>\<open>sizeof(p->name)\<close>\<close>

definition userinit :: "kconf \<Rightarrow> 'w kext \<Rightarrow> 'w kstate \<Rightarrow> kfault + 'w kstate" where
  "userinit K E s =
     (case allocproc K E s of (r, s1) \<Rightarrow>
        let s2 = s1\<lparr>initproc := r\<rparr> in
        case r of None \<Rightarrow> Inl NullDeref
        | Some i \<Rightarrow>
            (case setupkvm E (world s2) of (pg, w) \<Rightarrow>
               if pg = 0 then Inl (Panic ''userinit: out of memory?'')
               else (case namei E ''/'' (inituvm E pg w) of (d, w') \<Rightarrow>
                 Inr (upd_proc i (\<lambda>p. p\<lparr>pgdir := pg, sz := PGSIZE K,
                        tframe := zero_trapframe\<lparr>tf_cs := UCODE_SEL K, tf_ds := UDATA_SEL K,
                          tf_es := UDATA_SEL K, tf_ss := UDATA_SEL K, tf_eflags := FL_IF K,
                          tf_esp := PGSIZE K, tf_eip := 0\<rparr>,
                        name := safestrcpy E ''initcode'' NAME_SIZE, cwd := d,
                        state := RUNNABLE\<rparr>) (s2\<lparr>world := w'\<rparr>)))))"

text \<open>\<open>growproc\<close>: the new size, or -1 with the size unchanged.\<close>

definition growproc :: "'w kext \<Rightarrow> nat \<Rightarrow> cint \<Rightarrow> 'w kstate \<Rightarrow> cint \<times> 'w kstate" where
  "growproc E cur n s =
     (let p = ptable s ! cur;
          new = sz p + word_of_int n;
          (r, w) = (if n > 0 then allocuvm E (pgdir p) (sz p) new (world s)
                    else if n < 0 then deallocuvm E (pgdir p) (sz p) new (world s)
                    else (sz p, world s))
      in if n \<noteq> 0 \<and> r = 0 then (-1, s\<lparr>world := w\<rparr>)
         else (0, let s1 = upd_proc cur (\<lambda>p. p\<lparr>sz := r\<rparr>) (s\<lparr>world := w\<rparr>)
                  in s1\<lparr>world := switchuvm E (ptable s1 ! cur) (world s1)\<rparr>))"

text \<open>The loop of \<open>fork\<close> that duplicates the open files of the parent.\<close>

fun dup_files :: "'w kext \<Rightarrow> uint32 list \<Rightarrow> uint32 list \<Rightarrow> 'w \<Rightarrow> uint32 list \<times> 'w" where
  "dup_files E (f # fs) (d # ds) w =
     (let (g, w1) = (if f \<noteq> 0 then filedup E f w else (d, w));
          (gs, w2) = dup_files E fs ds w1
      in (g # gs, w2))"
| "dup_files E _ ds w = (ds, w)"

definition fork_finish ::
  "kconf \<Rightarrow> 'w kext \<Rightarrow> nat \<Rightarrow> nat \<Rightarrow> 'w kstate \<Rightarrow> cint \<times> 'w kstate" where
  "fork_finish K E cur np s =
     (case alloc_stack K E np s of
        (None, s1) \<Rightarrow> (-1, s1)
      | (Some _, s1) \<Rightarrow>
          (let cp = ptable s1 ! cur in
           case copyuvm E (pgdir cp) (sz cp) (world s1) of (pg, w1) \<Rightarrow>
             if pg = 0
             then (-1, upd_proc np (\<lambda>p. p\<lparr>pgdir := 0, kstack := 0, state := UNUSED\<rparr>)
                         (s1\<lparr>world := kfree E (kstack (ptable s1 ! np)) w1\<rparr>))
             else (let (fs, w2) = dup_files E (ofile cp) (ofile (ptable s1 ! np)) w1;
                       (d, w3) = idup E (cwd cp) w2
                   in (pid (ptable s1 ! np),
                       upd_proc np (\<lambda>p. p\<lparr>pgdir := pg, sz := sz cp, parent := Some cur,
                         tframe := (tframe cp)\<lparr>tf_eax := 0\<rparr>, ofile := fs, cwd := d,
                         name := safestrcpy E (name cp) NAME_SIZE, state := RUNNABLE\<rparr>)
                         (s1\<lparr>world := w3\<rparr>)))))"

definition fork :: "kconf \<Rightarrow> 'w kext \<Rightarrow> nat \<Rightarrow> 'w kstate \<Rightarrow> cint \<times> 'w kstate" where
  "fork K E cur s =
     (case alloc_claim s of (None, s1) \<Rightarrow> (-1, s1) | (Some np, s1) \<Rightarrow> fork_finish K E cur np s1)"

section \<open>Sleep and wakeup\<close>

definition wakeup1 :: "chan \<Rightarrow> 'w kstate \<Rightarrow> 'w kstate" where
  "wakeup1 ch s = s\<lparr>ptable := map (\<lambda>p. if state p = SLEEPING \<and> chan p = ch
                                      then p\<lparr>state := RUNNABLE\<rparr> else p) (ptable s)\<rparr>"

definition wakeup :: "chan \<Rightarrow> 'w kstate \<Rightarrow> 'w kstate" where
  "wakeup ch s = wakeup1 ch s"

text \<open>
  \<open>sleep\<close> up to its call of \<open>sched\<close>, and after it. The lock operations are returned in
  order; the lock passed in may be \<open>ptable.lock\<close> itself.
\<close>

datatype klock = PtableLock | OtherLock uint32
datatype lockop = Acquire klock | Release klock

definition sleep_enter :: "nat \<Rightarrow> chan \<Rightarrow> 'w kstate \<Rightarrow> 'w kstate" where
  "sleep_enter cur ch s = upd_proc cur (\<lambda>p. p\<lparr>chan := ch, state := SLEEPING\<rparr>) s"

definition sleep_resume :: "nat \<Rightarrow> 'w kstate \<Rightarrow> 'w kstate" where
  "sleep_resume cur s = upd_proc cur (\<lambda>p. p\<lparr>chan := NullChan\<rparr>) s"

definition sleep_before ::
  "nat option \<Rightarrow> klock option \<Rightarrow> chan \<Rightarrow> 'w kstate \<Rightarrow> kfault + lockop list \<times> 'w kstate" where
  "sleep_before p lk ch s =
     (case p of None \<Rightarrow> Inl (Panic ''sleep'')
      | Some cur \<Rightarrow>
          (case lk of None \<Rightarrow> Inl (Panic ''sleep without lk'')
           | Some l \<Rightarrow> Inr (if l \<noteq> PtableLock then [Acquire PtableLock, Release l] else [],
                           sleep_enter cur ch s)))"

definition sleep_after :: "nat \<Rightarrow> klock \<Rightarrow> 'w kstate \<Rightarrow> lockop list \<times> 'w kstate" where
  "sleep_after cur l s =
     (if l \<noteq> PtableLock then [Release PtableLock, Acquire l] else [], sleep_resume cur s)"

definition kill :: "cint \<Rightarrow> 'w kstate \<Rightarrow> cint \<times> 'w kstate" where
  "kill k s =
     (case first_index (\<lambda>p. pid p = k) (ptable s) of
        Some i \<Rightarrow> (0, upd_proc i (\<lambda>p. p\<lparr>killed := 1,
                       state := (if state p = SLEEPING then RUNNABLE else state p)\<rparr>) s)
      | None \<Rightarrow> (-1, s))"

section \<open>Exit and wait\<close>

text \<open>The loop of \<open>exit\<close> that closes every open file.\<close>

fun close_files :: "'w kext \<Rightarrow> uint32 list \<Rightarrow> 'w \<Rightarrow> uint32 list \<times> 'w" where
  "close_files E [] w = ([], w)"
| "close_files E (f # fs) w =
     (let (fs', w') = close_files E fs (if f \<noteq> 0 then fileclose E f w else w)
      in (0 # fs', w'))"

definition exit_files :: "'w kext \<Rightarrow> nat \<Rightarrow> 'w kstate \<Rightarrow> kfault + 'w kstate" where
  "exit_files E cur s =
     (if initproc s = Some cur then Inl (Panic ''init exiting'')
      else (let p = ptable s ! cur;
                (fs, w) = close_files E (ofile p) (world s);
                w' = end_op E (iput E (cwd p) (begin_op E w))
            in Inr (upd_proc cur (\<lambda>p. p\<lparr>ofile := fs, cwd := 0\<rparr>) (s\<lparr>world := w'\<rparr>))))"

text \<open>One iteration of the loop of \<open>exit\<close> that hands the children over to init.\<close>

definition reparent_one :: "nat \<Rightarrow> 'w kstate \<Rightarrow> nat \<Rightarrow> 'w kstate" where
  "reparent_one cur s i =
     (if parent (ptable s ! i) = Some cur
      then (let s1 = upd_proc i (\<lambda>p. p\<lparr>parent := initproc s\<rparr>) s
            in if state (ptable s1 ! i) = ZOMBIE then wakeup1 (ptr_chan (initproc s)) s1 else s1)
      else s)"

definition exit_final :: "nat \<Rightarrow> 'w kstate \<Rightarrow> 'w kstate" where
  "exit_final cur s =
     (let s1 = wakeup1 (ptr_chan (parent (ptable s ! cur))) s;
          s2 = foldl (reparent_one cur) s1 [0..<length (ptable s1)]
      in upd_proc cur (\<lambda>p. p\<lparr>state := ZOMBIE\<rparr>) s2)"

definition kexit :: "'w kext \<Rightarrow> nat \<Rightarrow> 'w kstate \<Rightarrow> kfault + 'w kstate" where
  "kexit E cur s =
     (case exit_files E cur s of Inl e \<Rightarrow> Inl e | Inr s1 \<Rightarrow> Inr (exit_final cur s1))"

text \<open>
  The scan of \<open>wait\<close>: whether the process has children, and its first zombie child.
\<close>

fun wait_scan :: "nat \<Rightarrow> nat \<Rightarrow> bool \<Rightarrow> proc list \<Rightarrow> bool \<times> nat option" where
  "wait_scan cur i havekids [] = (havekids, None)"
| "wait_scan cur i havekids (p # ps) =
     (if parent p \<noteq> Some cur then wait_scan cur (Suc i) havekids ps
      else if state p = ZOMBIE then (True, Some i)
      else wait_scan cur (Suc i) True ps)"

text \<open>
  One iteration of the outer loop of \<open>wait\<close>: \<open>Some r\<close> when it returns \<open>r\<close>, \<open>None\<close> when
  the process went to sleep on its own structure.
\<close>

definition wait_iter :: "'w kext \<Rightarrow> nat \<Rightarrow> 'w kstate \<Rightarrow> cint option \<times> 'w kstate" where
  "wait_iter E cur s =
     (case wait_scan cur 0 False (ptable s) of
        (_, Some i) \<Rightarrow>
          (let p = ptable s ! i
           in (Some (pid p),
               upd_proc i (\<lambda>p. p\<lparr>kstack := 0, pid := 0, parent := None, name := [],
                                 killed := 0, state := UNUSED\<rparr>)
                 (s\<lparr>world := freevm E (pgdir p) (kfree E (kstack p) (world s))\<rparr>)))
      | (havekids, None) \<Rightarrow>
          if \<not> havekids \<or> killed (ptable s ! cur) \<noteq> 0 then (Some (-1), s)
          else (None, sleep_enter cur (ProcChan cur) s))"

section \<open>The scheduler\<close>

text \<open>
  One round of the inner loop of \<open>scheduler\<close> on CPU \<open>c\<close>, from its loop variable: switch
  to the next runnable process, or leave the loop and start again at the first entry.
\<close>

definition scheduler_step :: "'w kext \<Rightarrow> nat \<Rightarrow> 'w kstate \<Rightarrow> 'w kstate" where
  "scheduler_step E c s =
     (case first_index_from (\<lambda>p. state p = RUNNABLE) (scan (cpus s ! c)) (ptable s) of
        Some i \<Rightarrow>
          upd_proc i (\<lambda>p. p\<lparr>state := RUNNING, nrswitch := to_cint (nrswitch p + 1)\<rparr>)
            (upd_cpu c (\<lambda>k. k\<lparr>cproc := Some i, scan := i\<rparr>)
              (s\<lparr>world := switchuvm E (ptable s ! i) (world s)\<rparr>))
      | None \<Rightarrow> upd_cpu c (\<lambda>k. k\<lparr>scan := 0\<rparr>) s)"

text \<open>The rest of the loop body, when \<open>swtch\<close> comes back from the process.\<close>

definition sched_return :: "'w kext \<Rightarrow> nat \<Rightarrow> 'w kstate \<Rightarrow> 'w kstate" where
  "sched_return E c s =
     upd_cpu c (\<lambda>k. k\<lparr>cproc := None, scan := Suc (scan k)\<rparr>)
       (s\<lparr>world := switchkvm E (world s)\<rparr>)"

text \<open>The checks of \<open>sched\<close> before it switches to the scheduler's context.\<close>

definition sched_check :: "bool \<Rightarrow> cint \<Rightarrow> procstate \<Rightarrow> bool \<Rightarrow> kfault option" where
  "sched_check holding_ptable_lock n st interrupts_on =
     (if \<not> holding_ptable_lock then Some (Panic ''sched ptable.lock'')
      else if n \<noteq> 1 then Some (Panic ''sched locks'')
      else if st = RUNNING then Some (Panic ''sched running'')
      else if interrupts_on then Some (Panic ''sched interruptible'')
      else None)"

definition yield_enter :: "nat \<Rightarrow> 'w kstate \<Rightarrow> 'w kstate" where
  "yield_enter cur s = upd_proc cur (\<lambda>p. p\<lparr>state := RUNNABLE\<rparr>) s"

definition forkret :: "kconf \<Rightarrow> 'w kext \<Rightarrow> 'w kstate \<Rightarrow> 'w kstate" where
  "forkret K E s =
     (if first_run s
      then s\<lparr>first_run := False,
             world := initlog E (ROOTDEV K) (iinit E (ROOTDEV K) (world s))\<rparr>
      else s)"

end
