(* ===== verification/Xv6_Inv.thy ===== *)
theory Xv6_Inv
  imports Xv6_Proc
begin

text \<open>
  The invariant of the process table (\<open>kinv\<close>) and its preservation by the pieces of
  \<open>proc.c\<close>: pids of used slots are positive, below \<open>nextpid\<close> and distinct; a process that
  runs or is a zombie has a living parent with a smaller pid, but for init; a CPU runs a
  process exactly when that process is RUNNING, and no two CPUs the same one; a claimed
  slot belongs to exactly one \<open>fork\<close>; a process asleep in \<open>wait\<close> has no zombie child.
\<close>

section \<open>The invariant\<close>

abbreviation proc_at :: "'w kstate \<Rightarrow> nat \<Rightarrow> proc" where
  "proc_at s i \<equiv> ptable s ! i"

abbreviation nproc :: "'w kstate \<Rightarrow> nat" where
  "nproc s \<equiv> length (ptable s)"

definition pids_ok :: "'w kstate \<Rightarrow> bool" where
  "pids_ok s \<longleftrightarrow>
     (\<forall>i<nproc s. active (proc_at s i) \<longrightarrow> 0 < pid (proc_at s i) \<and> pid (proc_at s i) < nextpid s) \<and>
     (\<forall>i<nproc s. \<forall>j<nproc s. active (proc_at s i) \<longrightarrow> active (proc_at s j) \<longrightarrow>
        pid (proc_at s i) = pid (proc_at s j) \<longrightarrow> i = j)"

definition parents_ok :: "'w kstate \<Rightarrow> bool" where
  "parents_ok s \<longleftrightarrow>
     (\<forall>i<nproc s.
        ((state (proc_at s i) = UNUSED \<or> state (proc_at s i) = EMBRYO) \<longrightarrow>
           parent (proc_at s i) = None) \<and>
        ((live (proc_at s i) \<or> state (proc_at s i) = ZOMBIE) \<longrightarrow>
           (initproc s = Some i \<longrightarrow> parent (proc_at s i) = None) \<and>
           (initproc s \<noteq> Some i \<longrightarrow> (\<exists>q<nproc s. parent (proc_at s i) = Some q \<and>
              live (proc_at s q) \<and> pid (proc_at s q) < pid (proc_at s i)))))"

definition init_ok :: "'w kstate \<Rightarrow> bool" where
  "init_ok s \<longleftrightarrow> (\<exists>i<nproc s. initproc s = Some i \<and> live (proc_at s i) \<and> pid (proc_at s i) = 1)"

definition cpus_ok :: "'w kstate \<Rightarrow> bool" where
  "cpus_ok s \<longleftrightarrow>
     (\<forall>c<length (cpus s). \<forall>i. cproc (cpus s ! c) = Some i \<longrightarrow>
        i < nproc s \<and> state (proc_at s i) = RUNNING) \<and>
     (\<forall>c<length (cpus s). \<forall>d<length (cpus s). \<forall>i. cproc (cpus s ! c) = Some i \<longrightarrow>
        cproc (cpus s ! d) = Some i \<longrightarrow> c = d) \<and>
     (\<forall>i<nproc s. state (proc_at s i) = RUNNING \<longrightarrow>
        (\<exists>c<length (cpus s). cproc (cpus s ! c) = Some i))"

definition forks_ok :: "'w kstate \<Rightarrow> bool" where
  "forks_ok s \<longleftrightarrow>
     (\<forall>i<nproc s. \<forall>np. kpos (proc_at s i) = KFork np \<longrightarrow>
        live (proc_at s i) \<and> np < nproc s \<and> state (proc_at s np) = EMBRYO \<and>
        pid (proc_at s i) < pid (proc_at s np)) \<and>
     (\<forall>i<nproc s. \<forall>j<nproc s. \<forall>np. kpos (proc_at s i) = KFork np \<longrightarrow>
        kpos (proc_at s j) = KFork np \<longrightarrow> i = j)"

definition waits_ok :: "'w kstate \<Rightarrow> bool" where
  "waits_ok s \<longleftrightarrow>
     (\<forall>i<nproc s. state (proc_at s i) = SLEEPING \<longrightarrow> kpos (proc_at s i) = KWait \<longrightarrow>
        chan (proc_at s i) = ProcChan i \<and>
        (\<forall>j<nproc s. parent (proc_at s j) = Some i \<longrightarrow> state (proc_at s j) \<noteq> ZOMBIE))"

definition kinv :: "'w kstate \<Rightarrow> bool" where
  "kinv s \<longleftrightarrow> pids_ok s \<and> parents_ok s \<and> init_ok s \<and> cpus_ok s \<and> forks_ok s \<and> waits_ok s"

lemmas kinv_defs = pids_ok_def parents_ok_def init_ok_def cpus_ok_def forks_ok_def waits_ok_def

lemma kinvI:
  "pids_ok s \<Longrightarrow> parents_ok s \<Longrightarrow> init_ok s \<Longrightarrow> cpus_ok s \<Longrightarrow> forks_ok s \<Longrightarrow> waits_ok s \<Longrightarrow> kinv s"
  by (simp add: kinv_def)

text \<open>Reading facts off the invariant.\<close>

lemma pid_range:
  "kinv s \<Longrightarrow> i < nproc s \<Longrightarrow> active (proc_at s i) \<Longrightarrow> 0 < pid (proc_at s i) \<and> pid (proc_at s i) < nextpid s"
  by (simp add: kinv_def pids_ok_def)

lemma pid_inj:
  "kinv s \<Longrightarrow> i < nproc s \<Longrightarrow> j < nproc s \<Longrightarrow> active (proc_at s i) \<Longrightarrow> active (proc_at s j) \<Longrightarrow>
   pid (proc_at s i) = pid (proc_at s j) \<Longrightarrow> i = j"
  by (simp add: kinv_def pids_ok_def)

lemma init_procE:
  assumes "kinv s"
  obtains i where "i < nproc s" "initproc s = Some i" "live (proc_at s i)" "pid (proc_at s i) = 1"
    "parent (proc_at s i) = None"
  using assms by (auto simp: kinv_def init_ok_def parents_ok_def)

lemma parentE:
  assumes "kinv s" "i < nproc s" "live (proc_at s i) \<or> state (proc_at s i) = ZOMBIE" "initproc s \<noteq> Some i"
  obtains q where "q < nproc s" "parent (proc_at s i) = Some q" "live (proc_at s q)"
    "pid (proc_at s q) < pid (proc_at s i)"
  using assms unfolding kinv_def parents_ok_def by metis

lemma fork_owner:
  assumes "kinv s" "i < nproc s" "kpos (proc_at s i) = KFork np"
  shows "live (proc_at s i)" "np < nproc s" "state (proc_at s np) = EMBRYO"
    "pid (proc_at s i) < pid (proc_at s np)"
  using assms unfolding kinv_def forks_ok_def by blast+

lemma fork_owner_unique:
  "kinv s \<Longrightarrow> i < nproc s \<Longrightarrow> j < nproc s \<Longrightarrow> kpos (proc_at s i) = KFork np \<Longrightarrow>
   kpos (proc_at s j) = KFork np \<Longrightarrow> i = j"
  unfolding kinv_def forks_ok_def by blast

lemma wait_asleep:
  assumes "kinv s" "i < nproc s" "state (proc_at s i) = SLEEPING" "kpos (proc_at s i) = KWait"
  shows "chan (proc_at s i) = ProcChan i"
    "j < nproc s \<Longrightarrow> parent (proc_at s j) = Some i \<Longrightarrow> state (proc_at s j) \<noteq> ZOMBIE"
  using assms by (simp_all add: kinv_def waits_ok_def)

lemma orphan_slot:
  "kinv s \<Longrightarrow> i < nproc s \<Longrightarrow> state (proc_at s i) = UNUSED \<or> state (proc_at s i) = EMBRYO \<Longrightarrow>
   parent (proc_at s i) = None"
  by (auto simp: kinv_def parents_ok_def)

lemma running_cpu:
  "kinv s \<Longrightarrow> c < length (cpus s) \<Longrightarrow> cproc (cpus s ! c) = Some i \<Longrightarrow>
   i < nproc s \<and> state (proc_at s i) = RUNNING"
  by (simp add: kinv_def cpus_ok_def)

lemma non_init_pid:
  assumes "kinv s" "i < nproc s" "active (proc_at s i)" "initproc s \<noteq> Some i"
  shows "1 < pid (proc_at s i)"
proof -
  obtain k where k: "k < nproc s" "initproc s = Some k" "live (proc_at s k)" "pid (proc_at s k) = 1"
    using init_procE[OF assms(1)] by metis
  with assms pid_inj[OF assms(1), of i k] live_active[OF k(3)] have "pid (proc_at s i) \<noteq> 1" by auto
  with pid_range[OF assms(1-3)] show ?thesis by simp
qed

lemma childless_unless_live:
  assumes "kinv s" "j < nproc s" "parent (proc_at s j) = Some i"
  shows "i < nproc s" "live (proc_at s i)" "pid (proc_at s i) < pid (proc_at s j)" "initproc s \<noteq> Some j"
    "live (proc_at s j) \<or> state (proc_at s j) = ZOMBIE"
proof -
  have st: "live (proc_at s j) \<or> state (proc_at s j) = ZOMBIE"
    using assms by (cases "state (proc_at s j)") (auto simp: kinv_def parents_ok_def live_def)
  moreover have ni: "initproc s \<noteq> Some j"
    using assms st by (auto simp: kinv_def parents_ok_def)
  ultimately show "i < nproc s" "live (proc_at s i)" "pid (proc_at s i) < pid (proc_at s j)"
    "initproc s \<noteq> Some j" "live (proc_at s j) \<or> state (proc_at s j) = ZOMBIE"
    using parentE[OF assms(1,2) st ni] assms(3) by auto
qed

section \<open>Steps that only wake sleepers or leave the table alone\<close>

definition woken :: "proc \<Rightarrow> proc \<Rightarrow> bool" where
  "woken p p' \<longleftrightarrow> pid p' = pid p \<and> parent p' = parent p \<and> kpos p' = kpos p \<and> chan p' = chan p \<and>
     (state p' = state p \<or> state p = SLEEPING \<and> state p' = RUNNABLE)"

definition woken_state :: "'w kstate \<Rightarrow> 'w kstate \<Rightarrow> bool" where
  "woken_state s s' \<longleftrightarrow> nproc s' = nproc s \<and> (\<forall>i<nproc s. woken (proc_at s i) (proc_at s' i)) \<and>
     nextpid s' = nextpid s \<and> initproc s' = initproc s \<and> map cproc (cpus s') = map cproc (cpus s)"

lemma woken_refl [simp]: "woken p p"
  by (simp add: woken_def)

lemma woken_stateI:
  "nproc s' = nproc s \<Longrightarrow> (\<And>i. i < nproc s \<Longrightarrow> woken (proc_at s i) (proc_at s' i)) \<Longrightarrow>
   nextpid s' = nextpid s \<Longrightarrow> initproc s' = initproc s \<Longrightarrow> map cproc (cpus s') = map cproc (cpus s) \<Longrightarrow>
   woken_state s s'"
  by (simp add: woken_state_def)

lemma woken_live: "woken p p' \<Longrightarrow> live p' = live p"
  by (auto simp: woken_def live_def)

lemma woken_active: "woken p p' \<Longrightarrow> active p' = active p"
  by (auto simp: woken_def active_def)

lemma cproc_map_eq:
  assumes "map cproc cs' = map cproc cs"
  shows "length cs' = length cs" "c < length cs \<Longrightarrow> cproc (cs' ! c) = cproc (cs ! c)"
proof -
  show l: "length cs' = length cs" using assms by (metis length_map)
  show "c < length cs \<Longrightarrow> cproc (cs' ! c) = cproc (cs ! c)" using assms l by (metis nth_map)
qed

lemma kinv_woken:
  assumes "kinv s" "woken_state s s'"
  shows "kinv s'"
proof -
  have w: "nproc s' = nproc s" "nextpid s' = nextpid s" "initproc s' = initproc s"
    "length (cpus s') = length (cpus s)"
    "\<And>c. c < length (cpus s) \<Longrightarrow> cproc (cpus s' ! c) = cproc (cpus s ! c)"
    using assms(2) cproc_map_eq[of "cpus s'" "cpus s"] by (auto simp: woken_state_def)
  have p: "pid (proc_at s' i) = pid (proc_at s i)" "parent (proc_at s' i) = parent (proc_at s i)"
    "kpos (proc_at s' i) = kpos (proc_at s i)" "chan (proc_at s' i) = chan (proc_at s i)"
    "live (proc_at s' i) = live (proc_at s i)" "active (proc_at s' i) = active (proc_at s i)"
    "(state (proc_at s' i) = UNUSED) = (state (proc_at s i) = UNUSED)"
    "(state (proc_at s' i) = EMBRYO) = (state (proc_at s i) = EMBRYO)"
    "(state (proc_at s' i) = RUNNING) = (state (proc_at s i) = RUNNING)"
    "(state (proc_at s' i) = ZOMBIE) = (state (proc_at s i) = ZOMBIE)"
    "state (proc_at s' i) = SLEEPING \<Longrightarrow> state (proc_at s i) = SLEEPING"
    if "i < nproc s" for i
  proof -
    have "woken (proc_at s i) (proc_at s' i)" using assms(2) that by (simp add: woken_state_def)
    then show "pid (proc_at s' i) = pid (proc_at s i)" "parent (proc_at s' i) = parent (proc_at s i)"
      "kpos (proc_at s' i) = kpos (proc_at s i)" "chan (proc_at s' i) = chan (proc_at s i)"
      "live (proc_at s' i) = live (proc_at s i)" "active (proc_at s' i) = active (proc_at s i)"
      "(state (proc_at s' i) = UNUSED) = (state (proc_at s i) = UNUSED)"
      "(state (proc_at s' i) = EMBRYO) = (state (proc_at s i) = EMBRYO)"
      "(state (proc_at s' i) = RUNNING) = (state (proc_at s i) = RUNNING)"
      "(state (proc_at s' i) = ZOMBIE) = (state (proc_at s i) = ZOMBIE)"
      "state (proc_at s' i) = SLEEPING \<Longrightarrow> state (proc_at s i) = SLEEPING"
      by (auto simp: woken_def live_def active_def)
  qed
  show ?thesis
  proof (rule kinvI)
    have "pids_ok s' = pids_ok s" by (simp add: pids_ok_def w p)
    then show "pids_ok s'" using assms(1) by (simp only: kinv_def)
    have "parents_ok s' = parents_ok s" by (simp add: parents_ok_def w p cong: conj_cong)
    then show "parents_ok s'" using assms(1) by (simp only: kinv_def)
    have "init_ok s' = init_ok s" by (simp add: init_ok_def w p cong: conj_cong)
    then show "init_ok s'" using assms(1) by (simp only: kinv_def)
    have "cpus_ok s' = cpus_ok s" by (simp add: cpus_ok_def w p cong: conj_cong)
    then show "cpus_ok s'" using assms(1) by (simp only: kinv_def)
    have "forks_ok s' = forks_ok s"
      unfolding forks_ok_def w by (auto simp add: p cong: conj_cong)
    then show "forks_ok s'" using assms(1) by (simp only: kinv_def)
    have "waits_ok s" using assms(1) by (simp only: kinv_def)
    then show "waits_ok s'" by (simp add: waits_ok_def w p)
  qed
qed

lemma wakeup1_simps [simp]:
  "nextpid (wakeup1 ch s) = nextpid s" "initproc (wakeup1 ch s) = initproc s"
  "cpus (wakeup1 ch s) = cpus s" "world (wakeup1 ch s) = world s"
  "first_run (wakeup1 ch s) = first_run s" "length (ptable (wakeup1 ch s)) = nproc s"
  by (simp_all add: wakeup1_def)

lemma wakeup1_nth:
  "i < nproc s \<Longrightarrow> proc_at (wakeup1 ch s) i =
     (if state (proc_at s i) = SLEEPING \<and> chan (proc_at s i) = ch
      then (proc_at s i)\<lparr>state := RUNNABLE\<rparr> else proc_at s i)"
  by (simp add: wakeup1_def)

lemma woken_wakeup1: "woken_state s (wakeup1 ch s)"
  by (rule woken_stateI) (auto simp: wakeup1_nth woken_def)

lemma woken_kill: "woken_state s (snd (kill k s))"
proof (cases "first_index (\<lambda>p. pid p = k) (ptable s)")
  case None
  then show ?thesis by (simp add: kill_def woken_state_def)
next
  case (Some i)
  then show ?thesis
    by (auto intro!: woken_stateI simp: kill_def nth_upd_at woken_def)
qed

end
