(* ===== verification/Xv6_Steps.thy ===== *)
theory Xv6_Steps
  imports Xv6_Inv
begin

text \<open>
  Preservation of \<open>kinv\<close> by the steps that change the state of one process: running it,
  taking it off its CPU, claiming, publishing and giving back a slot, \<open>exit\<close> and \<open>wait\<close>.
\<close>

section \<open>One living process changes\<close>

lemma kinv_upd:
  assumes inv: "kinv s" and cur: "cur < nproc s" "live (proc_at s cur)" "live (f (proc_at s cur))"
    and same: "pid (f (proc_at s cur)) = pid (proc_at s cur)" "parent (f (proc_at s cur)) = parent (proc_at s cur)"
    and fork: "\<And>np. kpos (f (proc_at s cur)) = KFork np \<Longrightarrow> kpos (proc_at s cur) = KFork np"
    and wait: "state (f (proc_at s cur)) = SLEEPING \<Longrightarrow> kpos (f (proc_at s cur)) = KWait \<Longrightarrow>
       chan (f (proc_at s cur)) = ProcChan cur \<and>
       (\<forall>j<nproc s. parent (proc_at s j) = Some cur \<longrightarrow> state (proc_at s j) \<noteq> ZOMBIE)"
    and s': "ptable s' = upd_at cur f (ptable s)" "nextpid s' = nextpid s" "initproc s' = initproc s"
    and cpus: "cpus_ok s'"
  shows "kinv s'"
proof -
  have n: "nproc s' = nproc s" by (simp add: s')
  have p: "pid (proc_at s' i) = pid (proc_at s i)" "parent (proc_at s' i) = parent (proc_at s i)"
    "live (proc_at s' i) = live (proc_at s i)" "active (proc_at s' i) = active (proc_at s i)"
    "(state (proc_at s' i) = UNUSED) = (state (proc_at s i) = UNUSED)"
    "(state (proc_at s' i) = EMBRYO) = (state (proc_at s i) = EMBRYO)"
    "(state (proc_at s' i) = ZOMBIE) = (state (proc_at s i) = ZOMBIE)"
    if "i < nproc s" for i
    using that cur same by (auto simp: s' nth_upd_at active_def live_def)
  have k: "kpos (proc_at s i) = KFork np" if "i < nproc s" "kpos (proc_at s' i) = KFork np" for i np
    using that fork by (auto simp: s' nth_upd_at split: if_splits)
  show ?thesis
  proof (rule kinvI)
    have "pids_ok s' = pids_ok s" by (simp add: pids_ok_def n p s'(2))
    then show "pids_ok s'" using inv by (simp only: kinv_def)
    have "parents_ok s' = parents_ok s" by (simp add: parents_ok_def n p s'(3) cong: conj_cong)
    then show "parents_ok s'" using inv by (simp only: kinv_def)
    have "init_ok s' = init_ok s" by (simp add: init_ok_def n p s'(3) cong: conj_cong)
    then show "init_ok s'" using inv by (simp only: kinv_def)
    show "cpus_ok s'" by (rule cpus)
    have "forks_ok s" using inv by (simp only: kinv_def)
    then show "forks_ok s'" unfolding forks_ok_def n using k p by metis
    have "waits_ok s" using inv by (simp only: kinv_def)
    show "waits_ok s'"
      unfolding waits_ok_def n
    proof (intro allI impI)
      fix i assume i: "i < nproc s" "state (proc_at s' i) = SLEEPING" "kpos (proc_at s' i) = KWait"
      have "chan (proc_at s' i) = ProcChan i \<and>
          (\<forall>j<nproc s. parent (proc_at s j) = Some i \<longrightarrow> state (proc_at s j) \<noteq> ZOMBIE)"
      proof (cases "i = cur")
        case True
        with i wait cur(1) show ?thesis by (simp add: s')
      next
        case False
        with i \<open>waits_ok s\<close> show ?thesis by (simp add: s' waits_ok_def)
      qed
      then show "chan (proc_at s' i) = ProcChan i \<and>
          (\<forall>j<nproc s. parent (proc_at s' j) = Some i \<longrightarrow> state (proc_at s' j) \<noteq> ZOMBIE)"
        by (simp add: p)
    qed
  qed
qed

lemma kinv_upd_running:
  assumes "kinv s" "c < length (cpus s)" "cproc (cpus s ! c) = Some cur"
    and "pid (f (proc_at s cur)) = pid (proc_at s cur)" "parent (f (proc_at s cur)) = parent (proc_at s cur)"
    and "state (f (proc_at s cur)) = state (proc_at s cur)"
    and "\<And>np. kpos (f (proc_at s cur)) = KFork np \<Longrightarrow> kpos (proc_at s cur) = KFork np"
    and "ptable s' = upd_at cur f (ptable s)" "nextpid s' = nextpid s" "initproc s' = initproc s" "cpus s' = cpus s"
  shows "kinv s'"
proof -
  have r: "cur < nproc s" "state (proc_at s cur) = RUNNING" using running_cpu[OF assms(1-3)] by auto
  have "cpus_ok s" using assms(1) by (simp only: kinv_def)
  moreover have "(state (proc_at s' i) = RUNNING) = (state (proc_at s i) = RUNNING)" if "i < nproc s" for i
    using that assms(6,8) by (auto simp: nth_upd_at)
  ultimately have "cpus_ok s'" using assms by (simp add: cpus_ok_def cong: conj_cong)
  then show ?thesis by (intro kinv_upd[OF assms(1), where f = f and cur = cur]) (use assms r in \<open>auto simp: live_def\<close>)
qed

lemma cpus_ok_leave:
  assumes "cpus_ok s" "c < length (cpus s)" "cproc (cpus s ! c) = Some cur"
    and st: "state (proc_at s' cur) \<noteq> RUNNING" "nproc s' = nproc s"
      "\<And>i. i < nproc s \<Longrightarrow> i \<noteq> cur \<Longrightarrow> (state (proc_at s' i) = RUNNING) = (state (proc_at s i) = RUNNING)"
    and cs: "cpus s' = cpus s"
  shows "cpus_ok (sched_return E c s')"
proof -
  have cp: "cproc (cpus (sched_return E c s') ! d) = (if c = d then None else cproc (cpus s ! d))"
    if "d < length (cpus s)" for d
    using that cs by (simp add: sched_return_def nth_upd_at)
  have l: "length (cpus (sched_return E c s')) = length (cpus s)" "ptable (sched_return E c s') = ptable s'"
    using cs by (simp_all add: sched_return_def)
  have a: "i < nproc s \<and> state (proc_at s i) = RUNNING \<and> i \<noteq> cur"
    if "d < length (cpus s)" "d \<noteq> c" "cproc (cpus s ! d) = Some i" for d i
    using assms(1-3) that unfolding cpus_ok_def by blast
  show ?thesis
    unfolding cpus_ok_def l st(2)
  proof (intro conjI allI impI)
    fix d i assume d: "d < length (cpus s)" "cproc (cpus (sched_return E c s') ! d) = Some i"
    then have "d \<noteq> c" "cproc (cpus s ! d) = Some i" using cp by (auto split: if_splits)
    from a[OF d(1) this] st(3) show "i < nproc s" "state (proc_at s' i) = RUNNING" by auto
  next
    fix d e i assume d: "d < length (cpus s)" "e < length (cpus s)"
      "cproc (cpus (sched_return E c s') ! d) = Some i" "cproc (cpus (sched_return E c s') ! e) = Some i"
    then have "cproc (cpus s ! d) = Some i" "cproc (cpus s ! e) = Some i"
      using cp by (auto split: if_splits)
    with d(1,2) assms(1) show "d = e" unfolding cpus_ok_def by blast
  next
    fix i assume i: "i < nproc s" "state (proc_at s' i) = RUNNING"
    then have "i \<noteq> cur" using st(1) by auto
    with i st(3) assms(1) obtain d where d: "d < length (cpus s)" "cproc (cpus s ! d) = Some i"
      unfolding cpus_ok_def by blast
    with \<open>i \<noteq> cur\<close> assms(3) cp show "\<exists>d<length (cpus s). cproc (cpus (sched_return E c s') ! d) = Some i"
      by (metis option.inject)
  qed
qed

lemma sched_return_simps [simp]:
  "ptable (sched_return E c s) = ptable s" "nextpid (sched_return E c s) = nextpid s"
  "initproc (sched_return E c s) = initproc s"
  by (simp_all add: sched_return_def)

lemma kinv_leave:
  assumes inv: "kinv s" "c < length (cpus s)" "cproc (cpus s ! c) = Some cur"
    and f: "pid (f (proc_at s cur)) = pid (proc_at s cur)" "parent (f (proc_at s cur)) = parent (proc_at s cur)"
      "state (f (proc_at s cur)) = RUNNABLE \<or> state (f (proc_at s cur)) = SLEEPING"
    and fork: "\<And>np. kpos (f (proc_at s cur)) = KFork np \<Longrightarrow> kpos (proc_at s cur) = KFork np"
    and wait: "state (f (proc_at s cur)) = SLEEPING \<Longrightarrow> kpos (f (proc_at s cur)) = KWait \<Longrightarrow>
       chan (f (proc_at s cur)) = ProcChan cur \<and>
       (\<forall>j<nproc s. parent (proc_at s j) = Some cur \<longrightarrow> state (proc_at s j) \<noteq> ZOMBIE)"
  shows "kinv (sched_return E c (upd_proc cur f s))"
proof -
  have r: "cur < nproc s" "state (proc_at s cur) = RUNNING" using running_cpu[OF inv] by auto
  have "cpus_ok s" using inv(1) by (simp only: kinv_def)
  then have "cpus_ok (sched_return E c (upd_proc cur f s))"
    by (rule cpus_ok_leave[OF _ inv(2,3)]) (use r f in \<open>auto simp: nth_upd_at\<close>)
  then show ?thesis
    by (intro kinv_upd[OF inv(1) r(1), where f = f]) (use f r fork wait in \<open>auto simp: live_def\<close>)
qed

text \<open>The scheduler runs a runnable process on an idle CPU.\<close>

lemma kinv_scheduler_step:
  assumes inv: "kinv s" "c < length (cpus s)" "cproc (cpus s ! c) = None"
  shows "kinv (scheduler_step E c s)"
proof (cases "first_index_from (\<lambda>p. state p = RUNNABLE) (scan (cpus s ! c)) (ptable s)")
  case None
  then have "map cproc (cpus (scheduler_step E c s)) = map cproc (cpus s)"
    by (simp add: scheduler_step_def upd_at_def map_update) (metis list_update_id nth_map inv(2))
  with None show ?thesis
    by (intro kinv_woken[OF inv(1)] woken_stateI) (simp_all add: scheduler_step_def)
next
  case (Some i)
  let ?s' = "scheduler_step E c s"
  let ?f = "\<lambda>p. p\<lparr>state := RUNNING, nrswitch := to_cint (nrswitch p + 1)\<rparr>"
  from first_index_from_SomeD[OF Some] have i: "i < nproc s" "state (proc_at s i) = RUNNABLE" by auto
  have s': "ptable ?s' = upd_at i ?f (ptable s)" "nextpid ?s' = nextpid s" "initproc ?s' = initproc s"
    "cpus ?s' = upd_at c (\<lambda>k. k\<lparr>cproc := Some i, scan := i\<rparr>) (cpus s)"
    using Some by (simp_all add: scheduler_step_def)
  have ok: "cpus_ok s" using inv(1) by (simp only: kinv_def)
  have ni: "\<And>d. d < length (cpus s) \<Longrightarrow> cproc (cpus s ! d) \<noteq> Some i"
    using ok i unfolding cpus_ok_def by fastforce
  have cp: "cproc (cpus ?s' ! d) = (if c = d then Some i else cproc (cpus s ! d))"
    if "d < length (cpus s)" for d using that by (simp add: s' nth_upd_at)
  have st: "(state (proc_at ?s' j) = RUNNING) = (j = i \<or> state (proc_at s j) = RUNNING)" if "j < nproc s" for j
    using that by (auto simp: s' nth_upd_at)
  have "cpus_ok ?s'"
    unfolding cpus_ok_def
  proof (intro conjI allI impI)
    fix d j assume d: "d < length (cpus ?s')" "cproc (cpus ?s' ! d) = Some j"
    then have "j < nproc s \<and> (j = i \<or> state (proc_at s j) = RUNNING)"
      using cp[of d] ok i(1) by (auto simp: s'(4) cpus_ok_def split: if_splits)
    with st show "j < nproc ?s'" "state (proc_at ?s' j) = RUNNING" by (auto simp: s')
  next
    fix d e j assume d: "d < length (cpus ?s')" "e < length (cpus ?s')"
      "cproc (cpus ?s' ! d) = Some j" "cproc (cpus ?s' ! e) = Some j"
    then show "d = e" using cp[of d] cp[of e] ni[of d] ni[of e] ok
      unfolding cpus_ok_def by (simp add: s'(4) split: if_splits) metis
  next
    fix j assume j: "j < nproc ?s'" "state (proc_at ?s' j) = RUNNING"
    show "\<exists>d<length (cpus ?s'). cproc (cpus ?s' ! d) = Some j"
    proof (cases "j = i")
      case True
      with cp[OF inv(2)] inv(2) show ?thesis by (auto simp: s'(4) intro!: exI[of _ c])
    next
      case False
      then obtain d where "d < length (cpus s)" "cproc (cpus s ! d) = Some j"
        using ok j st by (auto simp: s'(1) cpus_ok_def)
      with cp inv(3) show ?thesis by (auto simp: s'(4) intro!: exI[of _ d])
    qed
  qed
  with i s' show ?thesis
    by (intro kinv_upd[OF inv(1) i(1), where f = ?f])
      (auto simp: live_def)
qed

end
