(* ===== verification/Xv6_Fork.thy ===== *)
theory Xv6_Fork
  imports Xv6_Steps
begin

text \<open>
  \<open>fork\<close> in its two critical sections keeps \<open>kinv\<close>: a slot is claimed, then published as a
  runnable child or given back.
\<close>

section \<open>A free or claimed slot changes\<close>

lemma live_kpos [simp]: "live (p\<lparr>kpos := k\<rparr>) = live p" "active (p\<lparr>kpos := k\<rparr>) = active p"
  by (simp_all add: live_def active_def)

lemma kinv_slot:
  assumes inv: "kinv s"
    and cur: "cur < nproc s" "state (proc_at s cur) = RUNNING"
    and np: "np < nproc s" "state (proc_at s np) = UNUSED \<or> state (proc_at s np) = EMBRYO"
    and s': "ptable s' = upd_at cur (\<lambda>p. p\<lparr>kpos := k\<rparr>) (upd_at np g (ptable s))"
      "nextpid s \<le> nextpid s'" "initproc s' = initproc s" "cpus s' = cpus s"
    and g: "state (g (proc_at s np)) = UNUSED \<or> state (g (proc_at s np)) = EMBRYO \<or>
        state (g (proc_at s np)) = RUNNABLE"
      "parent (g (proc_at s np)) = (if state (g (proc_at s np)) = RUNNABLE then Some cur else None)"
      "\<And>m. kpos (g (proc_at s np)) \<noteq> KFork m"
    and pid: "state (g (proc_at s np)) \<noteq> UNUSED \<Longrightarrow>
        pid (proc_at s cur) < pid (g (proc_at s np)) \<and> pid (g (proc_at s np)) < nextpid s' \<and>
        (\<forall>i<nproc s. i \<noteq> np \<longrightarrow> active (proc_at s i) \<longrightarrow> pid (proc_at s i) \<noteq> pid (g (proc_at s np)))"
    and k: "\<And>m. k = KFork m \<Longrightarrow> m = np \<and> state (g (proc_at s np)) = EMBRYO"
    and owner: "\<And>j. j < nproc s \<Longrightarrow> kpos (proc_at s j) = KFork np \<Longrightarrow> j = cur"
  shows "kinv s'"
proof -
  let ?p = "g (proc_at s np)"
  have ne: "cur \<noteq> np" using cur np by auto
  have n: "nproc s' = nproc s" by (simp add: s')
  have nt: "proc_at s' i = (if i = np then ?p else if i = cur then (proc_at s cur)\<lparr>kpos := k\<rparr> else proc_at s i)"
    if "i < nproc s" for i
    using that ne by (auto simp: s' nth_upd_at)
  have np_dead: "\<not> live (proc_at s np)" using np(2) by (auto simp: live_def)
  have np_init: "initproc s \<noteq> Some np"
    using init_procE[OF inv] np_dead by (metis option.inject)
  have cur_live: "live (proc_at s cur)" using cur(2) by (simp add: live_def)
  have liv: "live (proc_at s' i)" "pid (proc_at s' i) = pid (proc_at s i)" if "i < nproc s" "live (proc_at s i)" for i
    using that np_dead by (auto simp: nt live_def)
  show ?thesis
  proof (rule kinvI)
    have cp: "0 < pid (proc_at s cur)" using pid_range[OF inv cur(1)] cur_live live_active by blast
    have ac: "active (proc_at s' i) \<longleftrightarrow> (if i = np then state ?p \<noteq> UNUSED else active (proc_at s i))"
      "pid (proc_at s' i) = (if i = np then pid ?p else pid (proc_at s i))" if "i < nproc s" for i
      using that by (auto simp: nt active_def)
    have "0 < pid (proc_at s' i) \<and> pid (proc_at s' i) < nextpid s'" if "i < nproc s" "active (proc_at s' i)" for i
    proof (cases "i = np")
      case True
      with that pid cp ac[of i] show ?thesis by simp
    next
      case False
      with that pid_range[OF inv, of i] s'(2) ac[of i] show ?thesis by simp
    qed
    moreover have "i = j" if "i < nproc s" "j < nproc s" "active (proc_at s' i)" "active (proc_at s' j)"
      "pid (proc_at s' i) = pid (proc_at s' j)" for i j
      using that pid pid_inj[OF inv, of i j] by (cases "i = np"; cases "j = np") (auto simp: ac)
    ultimately show "pids_ok s'" by (simp add: pids_ok_def n)
    show "parents_ok s'"
      unfolding parents_ok_def n
    proof (intro allI impI)
      fix i assume i: "i < nproc s"
      show "((state (proc_at s' i) = UNUSED \<or> state (proc_at s' i) = EMBRYO) \<longrightarrow> parent (proc_at s' i) = None) \<and>
        ((live (proc_at s' i) \<or> state (proc_at s' i) = ZOMBIE) \<longrightarrow>
           (initproc s' = Some i \<longrightarrow> parent (proc_at s' i) = None) \<and>
           (initproc s' \<noteq> Some i \<longrightarrow> (\<exists>q<nproc s. parent (proc_at s' i) = Some q \<and>
              live (proc_at s' q) \<and> pid (proc_at s' q) < pid (proc_at s' i))))"
      proof (cases "i = np")
        case True
        show ?thesis
        proof (cases "state ?p = RUNNABLE")
          case run: True
          with g(2) pid liv[OF cur(1) cur_live] cur(1) np(1) True show ?thesis
            by (simp add: nt[of np] s'(3) np_init)
        next
          case False
          with g(1) have "\<not> live ?p \<and> state ?p \<noteq> ZOMBIE" by (auto simp: live_def)
          with False g(2) np(1) True show ?thesis by (simp add: nt[of np])
        qed
      next
        case False
        have *: "\<exists>q<nproc s. parent (proc_at s i) = Some q \<and> live (proc_at s' q) \<and> pid (proc_at s' q) < pid (proc_at s i)"
          if "live (proc_at s i) \<or> state (proc_at s i) = ZOMBIE" "initproc s \<noteq> Some i"
          using parentE[OF inv i that] liv by metis
        from False i have e: "state (proc_at s' i) = state (proc_at s i)" "parent (proc_at s' i) = parent (proc_at s i)"
          "pid (proc_at s' i) = pid (proc_at s i)" "live (proc_at s' i) = live (proc_at s i)"
          by (auto simp: nt live_def)
        have "parents_ok s" using inv by (simp only: kinv_def)
        then show ?thesis using * i unfolding parents_ok_def e s'(3) by blast
      qed
    qed
    show "init_ok s'" using init_procE[OF inv] liv by (metis init_ok_def n s'(3))
    have "(state (proc_at s' i) = RUNNING) = (state (proc_at s i) = RUNNING)" if "i < nproc s" for i
      using that np(2) g(1) by (auto simp: nt)
    moreover have "cpus_ok s" using inv by (simp only: kinv_def)
    ultimately show "cpus_ok s'" by (simp add: cpus_ok_def n s'(4) cong: conj_cong)
    have fo: "forks_ok s" using inv by (simp only: kinv_def)
    have kp: "(i = cur \<and> m = np \<and> k = KFork np) \<or>
        (i \<noteq> cur \<and> i \<noteq> np \<and> m \<noteq> np \<and> kpos (proc_at s i) = KFork m)"
      if "i < nproc s" "kpos (proc_at s' i) = KFork m" for i m
      using that g(3) k owner ne by (auto simp: nt split: if_splits)
    show "forks_ok s'"
      unfolding forks_ok_def n
    proof (intro conjI allI impI)
      fix i m assume i: "i < nproc s" "kpos (proc_at s' i) = KFork m"
      have old: "live (proc_at s i) \<and> m < nproc s \<and> state (proc_at s m) = EMBRYO \<and> pid (proc_at s i) < pid (proc_at s m)"
        if "kpos (proc_at s i) = KFork m"
        using fo i(1) that unfolding forks_ok_def by blast
      have mc: "m \<noteq> cur" if "kpos (proc_at s i) = KFork m" using old[OF that] cur(2) by auto
      from kp[OF i] show "live (proc_at s' i)" "m < nproc s" "state (proc_at s' m) = EMBRYO"
        "pid (proc_at s' i) < pid (proc_at s' m)"
        using old mc cur(1) cur_live k np(1) pid liv i(1) ne by (auto simp: nt)
    next
      fix i j m assume ij: "i < nproc s" "j < nproc s" "kpos (proc_at s' i) = KFork m" "kpos (proc_at s' j) = KFork m"
      from kp[OF ij(1,3)] kp[OF ij(2,4)] ij(1,2) fo show "i = j" unfolding forks_ok_def by blast
    qed
    have zo: "state (proc_at s j) = ZOMBIE \<and> parent (proc_at s j) = parent (proc_at s' j)"
      if "j < nproc s" "state (proc_at s' j) = ZOMBIE" for j
      using that g(1) by (auto simp: nt split: if_splits)
    have "state (proc_at s i) = SLEEPING \<and> kpos (proc_at s i) = KWait \<and> chan (proc_at s' i) = chan (proc_at s i)"
      if "i < nproc s" "state (proc_at s' i) = SLEEPING" "kpos (proc_at s' i) = KWait" for i
      using that g(1) cur(2) by (auto simp: nt split: if_splits)
    moreover have "waits_ok s" using inv by (simp only: kinv_def)
    ultimately show "waits_ok s'" using zo unfolding waits_ok_def n by metis
  qed
qed

section \<open>Claiming a slot\<close>

text \<open>The first half of \<open>fork\<close>, with the position of the calling process recorded.\<close>

definition set_kpos :: "nat \<Rightarrow> kpos \<Rightarrow> 'w kstate \<Rightarrow> 'w kstate" where
  "set_kpos cur k s = upd_proc cur (\<lambda>p. p\<lparr>kpos := k\<rparr>) s"

lemma set_kpos_simps [simp]:
  "ptable (set_kpos i k s) = upd_at i (\<lambda>p. p\<lparr>kpos := k\<rparr>) (ptable s)" "nextpid (set_kpos i k s) = nextpid s"
  "initproc (set_kpos i k s) = initproc s" "cpus (set_kpos i k s) = cpus s" "world (set_kpos i k s) = world s"
  by (simp_all add: set_kpos_def)

lemma alloc_claim_SomeD:
  assumes "alloc_claim s = (Some np, s')"
  shows "np < nproc s" "state (proc_at s np) = UNUSED" "\<forall>j<np. state (proc_at s j) \<noteq> UNUSED"
    "s' = upd_proc np (\<lambda>p. p\<lparr>state := EMBRYO, pid := nextpid s, nrswitch := 0\<rparr>)
            (s\<lparr>nextpid := to_cint (nextpid s + 1)\<rparr>)"
proof -
  obtain i where "first_index (\<lambda>p. state p = UNUSED) (ptable s) = Some i"
    using assms by (auto simp: alloc_claim_def split: option.splits)
  with assms first_index_SomeD[OF this]
  show "np < nproc s" "state (proc_at s np) = UNUSED" "\<forall>j<np. state (proc_at s j) \<noteq> UNUSED"
    "s' = upd_proc np (\<lambda>p. p\<lparr>state := EMBRYO, pid := nextpid s, nrswitch := 0\<rparr>)
            (s\<lparr>nextpid := to_cint (nextpid s + 1)\<rparr>)"
    by (auto simp: alloc_claim_def)
qed

lemma no_fork_of_unused:
  "kinv s \<Longrightarrow> j < nproc s \<Longrightarrow> state (proc_at s np) \<noteq> EMBRYO \<Longrightarrow> kpos (proc_at s j) \<noteq> KFork np"
  using fork_owner(3) by metis

lemma kinv_claim:
  assumes inv: "kinv s" "cur < nproc s" "state (proc_at s cur) = RUNNING"
    and claim: "alloc_claim s = (Some np, s')" and lim: "nextpid s < 2147483647"
  shows "kinv (set_kpos cur (KFork np) s')"
proof -
  note c = alloc_claim_SomeD[OF claim]
  have "0 < nextpid s"
    using pid_range[OF inv(1,2)] inv(3) by (simp add: active_def)
  then have np: "to_cint (nextpid s + 1) = nextpid s + 1" using lim by (intro to_cint_id) auto
  have par: "parent (proc_at s np) = None" using orphan_slot[OF inv(1) c(1)] c(2) by simp
  have kp: "kpos (proc_at s np) \<noteq> KFork m" for m
    using fork_owner(1)[OF inv(1) c(1)] c(2) by (auto simp: live_def)
  have fresh: "\<And>i. i < nproc s \<Longrightarrow> active (proc_at s i) \<Longrightarrow> pid (proc_at s i) < nextpid s"
    using pid_range[OF inv(1)] by blast
  let ?g = "\<lambda>p. p\<lparr>state := EMBRYO, pid := nextpid s, nrswitch := 0\<rparr>"
  have "pid (proc_at s cur) < nextpid s" using fresh[OF inv(2)] inv(3) by (simp add: active_def)
  moreover have "\<forall>i<nproc s. i \<noteq> np \<longrightarrow> active (proc_at s i) \<longrightarrow> pid (proc_at s i) \<noteq> nextpid s"
    using fresh by fastforce
  ultimately have pid: "pid (proc_at s cur) < nextpid s \<and> nextpid s < nextpid s + 1 \<and>
      (\<forall>i<nproc s. i \<noteq> np \<longrightarrow> active (proc_at s i) \<longrightarrow> pid (proc_at s i) \<noteq> nextpid s)" by simp
  show ?thesis
  proof (rule kinv_slot[OF inv c(1), where g = ?g and k = "KFork np"])
    show "j = cur" if "j < nproc s" "kpos (proc_at s j) = KFork np" for j
      using no_fork_of_unused[OF inv(1) that(1), of np] that(2) c(2) by simp
  qed (use pid in \<open>simp_all add: c(2,4) np par kp\<close>)
qed

section \<open>Publishing or giving back the slot\<close>

lemma alloc_stack_cases:
  obtains (none) w where "alloc_stack K E np s = (None,
      upd_proc np (\<lambda>p. p\<lparr>kstack := 0, state := UNUSED\<rparr>) (s\<lparr>world := w\<rparr>))"
  | (some) k w where "k \<noteq> 0" "kalloc E (world s) = (k, w)" "alloc_stack K E np s = (Some np,
      upd_proc np (\<lambda>p. p\<lparr>kstack := k, tf := k + KSTACKSIZE K - TFSIZE K, kret := trapret_addr K,
        ctx := k + KSTACKSIZE K - TFSIZE K - 4 - CONTEXT_SIZE,
        kctx := zero_context\<lparr>eip := forkret_addr K\<rparr>, kpos := KForkret\<rparr>) (s\<lparr>world := w\<rparr>))"
  by (cases "kalloc E (world s)"; cases "fst (kalloc E (world s)) = 0")
    (auto simp: alloc_stack_def Let_def)

text \<open>
  What \<open>fork_finish\<close> does to the table: only the entry of the child changes; either it is
  UNUSED again, with its parent and position not in \<open>fork\<close>, or it is a runnable child.
\<close>

lemma fork_finish_effect:
  assumes "np < nproc s" "cur \<noteq> np"
  obtains g where "ptable (snd (fork_finish K E cur np s)) = upd_at np g (ptable s)"
    and "state (g (proc_at s np)) = UNUSED \<and> parent (g (proc_at s np)) = parent (proc_at s np) \<and>
         (kpos (g (proc_at s np)) = kpos (proc_at s np) \<or> kpos (g (proc_at s np)) = KForkret) \<and>
         fst (fork_finish K E cur np s) = -1 \<or>
       state (g (proc_at s np)) = RUNNABLE \<and> parent (g (proc_at s np)) = Some cur \<and>
         kpos (g (proc_at s np)) = KForkret \<and> fst (fork_finish K E cur np s) = pid (proc_at s np)"
    and "pid (g (proc_at s np)) = pid (proc_at s np)"
proof (cases rule: alloc_stack_cases[of K E np s])
  case (none w)
  then show ?thesis
    by (intro that[of "\<lambda>p. p\<lparr>kstack := 0, state := UNUSED\<rparr>"]) (simp_all add: fork_finish_def)
next
  case (some k w)
  let ?a = "\<lambda>p. p\<lparr>kstack := k, tf := k + KSTACKSIZE K - TFSIZE K, kret := trapret_addr K,
        ctx := k + KSTACKSIZE K - TFSIZE K - 4 - CONTEXT_SIZE,
        kctx := zero_context\<lparr>eip := forkret_addr K\<rparr>, kpos := KForkret\<rparr>"
  obtain pg w1 where cp: "copyuvm E (pgdir (proc_at s cur)) (sz (proc_at s cur)) w = (pg, w1)" by fastforce
  show ?thesis
  proof (cases "pg = 0")
    case True
    with some(3) cp assms show ?thesis
      by (intro that[of "\<lambda>p. (?a p)\<lparr>pgdir := 0, kstack := 0, state := UNUSED\<rparr>"])
        (simp_all add: fork_finish_def)
  next
    case False
    obtain fs w2 where df: "dup_files E (ofile (proc_at s cur)) (ofile (proc_at s np)) w1 = (fs, w2)" by fastforce
    obtain d w3 where di: "idup E (cwd (proc_at s cur)) w2 = (d, w3)" by fastforce
    from some(3) cp False df di assms show ?thesis
      by (intro that[of "\<lambda>p. (?a p)\<lparr>pgdir := pg, sz := sz (proc_at s cur), parent := Some cur,
            tframe := (tframe (proc_at s cur))\<lparr>tf_eax := 0\<rparr>, ofile := fs, cwd := d,
            name := safestrcpy E (name (proc_at s cur)) NAME_SIZE, state := RUNNABLE\<rparr>"])
        (simp_all add: fork_finish_def Let_def)
  qed
qed

lemma fork_finish_frame [simp]:
  "nextpid (snd (fork_finish K E cur np s)) = nextpid s"
  "initproc (snd (fork_finish K E cur np s)) = initproc s"
  "cpus (snd (fork_finish K E cur np s)) = cpus s"
  by (cases rule: alloc_stack_cases[of K E np s];
      auto simp: fork_finish_def Let_def split: prod.splits if_splits)+

lemma kinv_fork_finish:
  assumes inv: "kinv s" "cur < nproc s" "state (proc_at s cur) = RUNNING" "kpos (proc_at s cur) = KFork np"
  shows "kinv (set_kpos cur KUser (snd (fork_finish K E cur np s)))"
proof -
  have f: "np < nproc s" "state (proc_at s np) = EMBRYO" "pid (proc_at s cur) < pid (proc_at s np)"
    "\<And>j. j < nproc s \<Longrightarrow> kpos (proc_at s j) = KFork np \<Longrightarrow> j = cur"
    using fork_owner[OF inv(1,2,4)] fork_owner_unique[OF inv(1) _ inv(2) _ inv(4)] by blast+
  have ne: "cur \<noteq> np" using f(2) inv(3) by auto
  have par: "parent (proc_at s np) = None" using orphan_slot[OF inv(1) f(1)] f(2) by simp
  have kp: "kpos (proc_at s np) \<noteq> KFork m" for m
    using fork_owner(1)[OF inv(1) f(1)] f(2) by (auto simp: live_def)
  have dist: "\<forall>i<nproc s. i \<noteq> np \<longrightarrow> active (proc_at s i) \<longrightarrow> pid (proc_at s i) \<noteq> pid (proc_at s np)"
    using pid_inj[OF inv(1)] f(1,2) by (metis active_def procstate.distinct(1))
  have rng: "pid (proc_at s np) < nextpid s" using pid_range[OF inv(1) f(1)] f(2) by (simp add: active_def)
  obtain g where g: "ptable (snd (fork_finish K E cur np s)) = upd_at np g (ptable s)"
    "state (g (proc_at s np)) = UNUSED \<and> parent (g (proc_at s np)) = parent (proc_at s np) \<and>
         (kpos (g (proc_at s np)) = kpos (proc_at s np) \<or> kpos (g (proc_at s np)) = KForkret) \<or>
       state (g (proc_at s np)) = RUNNABLE \<and> parent (g (proc_at s np)) = Some cur \<and>
         kpos (g (proc_at s np)) = KForkret"
    "pid (g (proc_at s np)) = pid (proc_at s np)"
    using fork_finish_effect[OF f(1) ne] by metis
  have "state (g (proc_at s np)) = UNUSED \<and> parent (g (proc_at s np)) = None \<or>
      state (g (proc_at s np)) = RUNNABLE \<and> parent (g (proc_at s np)) = Some cur"
    and "\<And>m. kpos (g (proc_at s np)) \<noteq> KFork m"
    using g(2) par kp by auto
  then show ?thesis
  proof (intro kinv_slot[OF inv(1-3) f(1), where g = g and k = KUser], goal_cases)
    case 9
    then show ?case using f(3) dist rng by (simp add: g(3))
  next
    case (11 j)
    then show ?case using f(4) by blast
  qed (use f(2) in \<open>auto simp: g(1)\<close>)
qed

text \<open>The three ways \<open>fork_finish\<close> ends, with the whole entry of the child.\<close>

lemma fork_finish_detail:
  assumes "np < nproc s" "cur \<noteq> np"
  obtains (no_stack) "fst (kalloc E (world s)) = 0" "fst (fork_finish K E cur np s) = -1"
      "\<forall>i. i \<noteq> np \<longrightarrow> proc_at (snd (fork_finish K E cur np s)) i = proc_at s i"
      "state (proc_at (snd (fork_finish K E cur np s)) np) = UNUSED"
  | (no_copy) k w where "kalloc E (world s) = (k, w)" "k \<noteq> 0"
      "fst (copyuvm E (pgdir (proc_at s cur)) (sz (proc_at s cur)) w) = 0"
      "fst (fork_finish K E cur np s) = -1"
      "\<forall>i. i \<noteq> np \<longrightarrow> proc_at (snd (fork_finish K E cur np s)) i = proc_at s i"
      "state (proc_at (snd (fork_finish K E cur np s)) np) = UNUSED"
  | (child) k w fs d where "kalloc E (world s) = (k, w)" "k \<noteq> 0"
      "fst (copyuvm E (pgdir (proc_at s cur)) (sz (proc_at s cur)) w) \<noteq> 0"
      "fst (fork_finish K E cur np s) = pid (proc_at s np)"
      "\<forall>i. i \<noteq> np \<longrightarrow> proc_at (snd (fork_finish K E cur np s)) i = proc_at s i"
      "proc_at (snd (fork_finish K E cur np s)) np = (proc_at s np)\<lparr>kstack := k,
         tf := k + KSTACKSIZE K - TFSIZE K, kret := trapret_addr K,
         ctx := k + KSTACKSIZE K - TFSIZE K - 4 - CONTEXT_SIZE,
         kctx := zero_context\<lparr>eip := forkret_addr K\<rparr>, kpos := KForkret,
         pgdir := fst (copyuvm E (pgdir (proc_at s cur)) (sz (proc_at s cur)) w),
         sz := sz (proc_at s cur), parent := Some cur,
         tframe := (tframe (proc_at s cur))\<lparr>tf_eax := 0\<rparr>, ofile := fs, cwd := d,
         name := safestrcpy E (name (proc_at s cur)) NAME_SIZE, state := RUNNABLE\<rparr>"
proof -
  obtain k w where kw: "kalloc E (world s) = (k, w)" by fastforce
  obtain pg w1 where cp: "copyuvm E (pgdir (proc_at s cur)) (sz (proc_at s cur)) w = (pg, w1)" by fastforce
  obtain fs w2 where df: "dup_files E (ofile (proc_at s cur)) (ofile (proc_at s np)) w1 = (fs, w2)" by fastforce
  obtain d w3 where di: "idup E (cwd (proc_at s cur)) w2 = (d, w3)" by fastforce
  consider "k = 0" | "k \<noteq> 0" "pg = 0" | "k \<noteq> 0" "pg \<noteq> 0" by blast
  then show ?thesis
  proof cases
    case 1
    with kw assms show ?thesis by (intro no_stack) (simp_all add: fork_finish_def alloc_stack_def)
  next
    case 2
    with kw cp assms show ?thesis
      by (intro no_copy[OF kw 2(1)]) (simp_all add: fork_finish_def alloc_stack_def Let_def)
  next
    case 3
    with kw cp df di assms show ?thesis
      by (intro child[OF kw 3(1)]) (simp_all add: fork_finish_def alloc_stack_def Let_def)
  qed
qed

end
