(* ===== verification/Xv6_Exit.thy ===== *)
theory Xv6_Exit
  imports Xv6_Fork
begin

text \<open>
  \<open>exit\<close> and \<open>wait\<close> keep \<open>kinv\<close>. The loop of \<open>exit\<close> that hands the children over to init
  is characterised entry by entry (\<open>reparent_loop\<close>).
\<close>

section \<open>The loop of exit\<close>

lemma reparent_one_frame [simp]:
  "nextpid (reparent_one cur s i) = nextpid s" "initproc (reparent_one cur s i) = initproc s"
  "cpus (reparent_one cur s i) = cpus s" "length (ptable (reparent_one cur s i)) = nproc s"
  "world (reparent_one cur s i) = world s" "first_run (reparent_one cur s i) = first_run s"
  by (simp_all add: reparent_one_def Let_def)

text \<open>
  What the loop has done to entry \<open>p\<close> of the table, when \<open>moved\<close> says that its index is
  behind the loop and it was a child of the exiting process.
\<close>

definition handed_over :: "bool \<Rightarrow> nat option \<Rightarrow> proc \<Rightarrow> proc \<Rightarrow> bool" where
  "handed_over moved ini p p' \<longleftrightarrow>
     pid p' = pid p \<and> kpos p' = kpos p \<and> chan p' = chan p \<and>
     parent p' = (if moved then ini else parent p) \<and>
     (state p' = state p \<or> state p = SLEEPING \<and> state p' = RUNNABLE)"

lemma handed_over_states:
  assumes "handed_over m ini p p'"
  shows "live p' = live p" "active p' = active p" "(state p' = ZOMBIE) = (state p = ZOMBIE)"
    "(state p' = RUNNING) = (state p = RUNNING)" "(state p' = UNUSED) = (state p = UNUSED)"
    "(state p' = EMBRYO) = (state p = EMBRYO)" "state p' = SLEEPING \<Longrightarrow> state p = SLEEPING"
  using assms by (auto simp: handed_over_def live_def active_def)

lemma reparent_one_nth:
  assumes "i < nproc s" "k < nproc s"
  shows "proc_at (reparent_one cur s k) i =
    (let p = (if i = k \<and> parent (proc_at s k) = Some cur
              then (proc_at s i)\<lparr>parent := initproc s\<rparr> else proc_at s i)
     in if parent (proc_at s k) = Some cur \<and> state (proc_at s k) = ZOMBIE \<and> state p = SLEEPING \<and>
           chan p = ptr_chan (initproc s)
        then p\<lparr>state := RUNNABLE\<rparr> else p)"
  using assms by (auto simp: reparent_one_def Let_def wakeup1_nth nth_upd_at)

lemma reparent_loop:
  assumes "k \<le> nproc s" "initproc s \<noteq> Some cur"
  defines "t \<equiv> foldl (reparent_one cur) s [0..<k]"
  shows "nproc t = nproc s \<and> nextpid t = nextpid s \<and> initproc t = initproc s \<and> cpus t = cpus s \<and> world t = world s
     \<and> (\<forall>i<nproc s. handed_over (i < k \<and> parent (proc_at s i) = Some cur) (initproc s) (proc_at s i) (proc_at t i))
     \<and> ((\<exists>j<k. parent (proc_at s j) = Some cur \<and> state (proc_at s j) = ZOMBIE) \<longrightarrow>
         (\<forall>i<nproc s. chan (proc_at s i) = ptr_chan (initproc s) \<longrightarrow> state (proc_at t i) \<noteq> SLEEPING))"
  using assms(1) unfolding t_def
proof (induction k)
  case 0
  then show ?case by (simp add: handed_over_def)
next
  case (Suc k)
  let ?t = "foldl (reparent_one cur) s [0..<k]"
  from Suc have IH: "nproc ?t = nproc s" "nextpid ?t = nextpid s" "initproc ?t = initproc s" "cpus ?t = cpus s"
    "world ?t = world s"
    "\<And>i. i < nproc s \<Longrightarrow>
       handed_over (i < k \<and> parent (proc_at s i) = Some cur) (initproc s) (proc_at s i) (proc_at ?t i)"
    "(\<exists>j<k. parent (proc_at s j) = Some cur \<and> state (proc_at s j) = ZOMBIE) \<Longrightarrow>
       (\<forall>i<nproc s. chan (proc_at s i) = ptr_chan (initproc s) \<longrightarrow> state (proc_at ?t i) \<noteq> SLEEPING)"
    by auto
  have k: "k < nproc s" using Suc.prems by simp
  have pk: "parent (proc_at ?t k) = parent (proc_at s k)" "(state (proc_at ?t k) = ZOMBIE) = (state (proc_at s k) = ZOMBIE)"
    using IH(6)[OF k] handed_over_states(3)[OF IH(6)[OF k]] by (simp_all add: handed_over_def)
  have nth: "proc_at (reparent_one cur ?t k) i =
    (let p = (if i = k \<and> parent (proc_at s k) = Some cur
              then (proc_at ?t i)\<lparr>parent := initproc s\<rparr> else proc_at ?t i)
     in if parent (proc_at s k) = Some cur \<and> state (proc_at s k) = ZOMBIE \<and> state p = SLEEPING \<and>
           chan p = ptr_chan (initproc s)
        then p\<lparr>state := RUNNABLE\<rparr> else p)" if "i < nproc s" for i
    using reparent_one_nth[of i ?t k cur] that k by (simp add: IH(1,3) pk)
  have "handed_over (i < Suc k \<and> parent (proc_at s i) = Some cur) (initproc s) (proc_at s i)
      (proc_at (reparent_one cur ?t k) i)" if "i < nproc s" for i
    using IH(6)[OF that] unfolding nth[OF that] Let_def
    by (auto simp: handed_over_def less_Suc_eq)
  moreover have "state (proc_at (reparent_one cur ?t k) i) \<noteq> SLEEPING"
    if ex: "\<exists>j<Suc k. parent (proc_at s j) = Some cur \<and> state (proc_at s j) = ZOMBIE"
      and i: "i < nproc s" "chan (proc_at s i) = ptr_chan (initproc s)" for i
  proof (cases "parent (proc_at s k) = Some cur \<and> state (proc_at s k) = ZOMBIE")
    case True
    with IH(6)[OF i(1)] i show ?thesis by (auto simp: nth[OF i(1)] Let_def handed_over_def)
  next
    case False
    with ex have "\<exists>j<k. parent (proc_at s j) = Some cur \<and> state (proc_at s j) = ZOMBIE"
      by (auto simp: less_Suc_eq)
    with IH(7) i have "state (proc_at ?t i) \<noteq> SLEEPING" by blast
    then show ?thesis by (auto simp: nth[OF i(1)] Let_def)
  qed
  ultimately show ?case using IH(1-5) by (simp del: upt_Suc add: upt_Suc_append)
qed

text \<open>The whole of \<open>exit_final\<close>, entry by entry.\<close>

lemma exit_final_effect:
  assumes "cur < nproc s" "initproc s \<noteq> Some cur"
  defines "t \<equiv> exit_final cur s"
  shows "nproc t = nproc s" "nextpid t = nextpid s" "initproc t = initproc s" "cpus t = cpus s" "world t = world s"
    and "state (proc_at t cur) = ZOMBIE" "pid (proc_at t cur) = pid (proc_at s cur)"
      "kpos (proc_at t cur) = kpos (proc_at s cur)"
      "parent (proc_at t cur) = (if parent (proc_at s cur) = Some cur then initproc s else parent (proc_at s cur))"
    and "\<And>i. i < nproc s \<Longrightarrow> i \<noteq> cur \<Longrightarrow>
      handed_over (parent (proc_at s i) = Some cur) (initproc s) (proc_at s i) (proc_at t i)"
    and "\<And>i. i < nproc s \<Longrightarrow> i \<noteq> cur \<Longrightarrow> chan (proc_at s i) = ptr_chan (parent (proc_at s cur)) \<Longrightarrow>
      state (proc_at t i) \<noteq> SLEEPING"
    and "\<And>i j. i < nproc s \<Longrightarrow> i \<noteq> cur \<Longrightarrow> j < nproc s \<Longrightarrow> parent (proc_at s j) = Some cur \<Longrightarrow>
      state (proc_at s j) = ZOMBIE \<Longrightarrow> chan (proc_at s i) = ptr_chan (initproc s) \<Longrightarrow>
      state (proc_at t i) \<noteq> SLEEPING"
proof -
  let ?w = "wakeup1 (ptr_chan (parent (proc_at s cur))) s"
  let ?r = "foldl (reparent_one cur) ?w [0..<nproc s]"
  have t: "t = upd_proc cur (\<lambda>p. p\<lparr>state := ZOMBIE\<rparr>) ?r"
    by (simp add: t_def exit_final_def Let_def)
  have loop: "nproc ?r = nproc s" "nextpid ?r = nextpid s" "initproc ?r = initproc s" "cpus ?r = cpus s" "world ?r = world s"
    "\<And>i. i < nproc s \<Longrightarrow>
       handed_over (parent (proc_at ?w i) = Some cur) (initproc s) (proc_at ?w i) (proc_at ?r i)"
    "\<And>i j. j < nproc s \<Longrightarrow> parent (proc_at ?w j) = Some cur \<Longrightarrow> state (proc_at ?w j) = ZOMBIE \<Longrightarrow>
       i < nproc s \<Longrightarrow> chan (proc_at ?w i) = ptr_chan (initproc s) \<Longrightarrow> state (proc_at ?r i) \<noteq> SLEEPING"
    using reparent_loop[of "nproc s" ?w cur] assms(2) by auto
  have w: "parent (proc_at ?w i) = parent (proc_at s i)" "chan (proc_at ?w i) = chan (proc_at s i)"
    "(state (proc_at ?w i) = ZOMBIE) = (state (proc_at s i) = ZOMBIE)" if "i < nproc s" for i
    using that by (auto simp: wakeup1_nth)
  have ho: "handed_over (parent (proc_at s i) = Some cur) (initproc s) (proc_at s i) (proc_at ?r i)"
    if "i < nproc s" for i
    using loop(6)[OF that] that w(1)[OF that]
    by (auto simp: handed_over_def wakeup1_nth split: if_splits)
  show "nproc t = nproc s" "nextpid t = nextpid s" "initproc t = initproc s" "cpus t = cpus s" "world t = world s"
    by (simp_all add: t loop)
  show "state (proc_at t cur) = ZOMBIE" "pid (proc_at t cur) = pid (proc_at s cur)"
    "kpos (proc_at t cur) = kpos (proc_at s cur)"
    "parent (proc_at t cur) = (if parent (proc_at s cur) = Some cur then initproc s else parent (proc_at s cur))"
    using ho[OF assms(1)] assms(1) by (simp_all add: t loop(1) handed_over_def)
  fix i assume i: "i < nproc s" "i \<noteq> cur"
  then have ti: "proc_at t i = proc_at ?r i" by (simp add: t)
  show "handed_over (parent (proc_at s i) = Some cur) (initproc s) (proc_at s i) (proc_at t i)"
    using ho[OF i(1)] by (simp add: ti)
  show "state (proc_at t i) \<noteq> SLEEPING" if "chan (proc_at s i) = ptr_chan (parent (proc_at s cur))"
  proof -
    have "state (proc_at ?w i) \<noteq> SLEEPING" using that i by (simp add: wakeup1_nth)
    then show ?thesis using loop(6)[OF i(1)] by (auto simp: ti handed_over_def)
  qed
  show "state (proc_at t i) \<noteq> SLEEPING" if "j < nproc s" "parent (proc_at s j) = Some cur"
    "state (proc_at s j) = ZOMBIE" "chan (proc_at s i) = ptr_chan (initproc s)" for j
    using loop(7)[of j i] that i w by (simp add: ti)
qed

section \<open>Exit keeps the invariant\<close>

lemma kinv_exit_final:
  assumes inv: "kinv s" "c < length (cpus s)" "cproc (cpus s ! c) = Some cur"
    and ni: "initproc s \<noteq> Some cur" and kp: "\<And>m. kpos (proc_at s cur) \<noteq> KFork m"
  shows "kinv (sched_return E c (exit_final cur s))"
proof -
  let ?t = "exit_final cur s" and ?u = "sched_return E c (exit_final cur s)"
  have r: "cur < nproc s" "state (proc_at s cur) = RUNNING" using running_cpu[OF inv] by auto
  note ef = exit_final_effect[OF r(1) ni]
  have n: "nproc ?u = nproc s" by (simp add: ef)
  have cl: "live (proc_at s cur)" using r(2) by (simp add: live_def)
  obtain par where par: "par < nproc s" "parent (proc_at s cur) = Some par" "live (proc_at s par)"
    "pid (proc_at s par) < pid (proc_at s cur)"
    using parentE[OF inv(1) r(1) _ ni] cl by auto
  then have "par \<noteq> cur" by auto
  obtain ini where ini: "ini < nproc s" "initproc s = Some ini" "live (proc_at s ini)"
    "pid (proc_at s ini) = 1" "parent (proc_at s ini) = None"
    using init_procE[OF inv(1)] by metis
  have ho: "handed_over (parent (proc_at s i) = Some cur) (initproc s) (proc_at s i) (proc_at ?t i)"
    if "i < nproc s" "i \<noteq> cur" for i using ef(10) that by blast
  have curt: "state (proc_at ?t cur) = ZOMBIE" "pid (proc_at ?t cur) = pid (proc_at s cur)"
    "kpos (proc_at ?t cur) = kpos (proc_at s cur)" "parent (proc_at ?t cur) = Some par"
    using ef(6-9) par \<open>par \<noteq> cur\<close> by simp_all
  have pd: "pid (proc_at ?t i) = pid (proc_at s i)" "kpos (proc_at ?t i) = kpos (proc_at s i)"
    "active (proc_at ?t i) = active (proc_at s i)" if "i < nproc s" for i
    using that ho[of i] curt r(2) handed_over_states(2)[OF ho[of i]]
    by (cases "i = cur"; auto simp: handed_over_def active_def)+
  have lv: "live (proc_at ?t i)" if "i < nproc s" "i \<noteq> cur" "live (proc_at s i)" for i
    using handed_over_states(1)[OF ho[OF that(1,2)]] that(3) by simp
  show ?thesis
  proof (rule kinvI)
    have "pids_ok ?u = pids_ok s" unfolding pids_ok_def n by (simp add: pd ef(2))
    then show "pids_ok ?u" using inv(1) by (simp only: kinv_def)
    show "init_ok ?u"
      unfolding init_ok_def n using ini lv[OF ini(1)] ni pd(1)[OF ini(1)] by (auto simp: ef(3))
    show "parents_ok ?u"
      unfolding parents_ok_def sched_return_simps ef(1,3)
    proof (intro allI impI)
      fix i assume i: "i < nproc s"
      show "((state (proc_at ?t i) = UNUSED \<or> state (proc_at ?t i) = EMBRYO) \<longrightarrow> parent (proc_at ?t i) = None) \<and>
        ((live (proc_at ?t i) \<or> state (proc_at ?t i) = ZOMBIE) \<longrightarrow>
           (initproc s = Some i \<longrightarrow> parent (proc_at ?t i) = None) \<and>
           (initproc s \<noteq> Some i \<longrightarrow> (\<exists>q<nproc s. parent (proc_at ?t i) = Some q \<and>
              live (proc_at ?t q) \<and> pid (proc_at ?t q) < pid (proc_at ?t i))))"
      proof (cases "i = cur")
        case True
        with curt par lv[OF par(1) \<open>par \<noteq> cur\<close> par(3)] ni pd(1)[OF par(1)] r(1) show ?thesis by auto
      next
        case False
        note hi = ho[OF i False] and hs = handed_over_states[OF ho[OF i False]]
        show ?thesis
        proof (cases "parent (proc_at s i) = Some cur")
          case True
          note ch = childless_unless_live[OF inv(1) i True]
          have "1 < pid (proc_at s i)"
            using non_init_pid[OF inv(1) i _ ch(4)] ch(5) by (auto simp: active_def live_def)
          moreover have "live (proc_at ?t ini)" "pid (proc_at ?t ini) = 1"
            using lv[OF ini(1)] ini ni pd(1)[OF ini(1)] by auto
          moreover have "parent (proc_at ?t i) = Some ini" using hi True ini by (simp add: handed_over_def)
          moreover have "state (proc_at s i) \<noteq> UNUSED" "state (proc_at s i) \<noteq> EMBRYO"
            using ch(5) by (auto simp: live_def)
          ultimately show ?thesis using ini(1) ch(4) pd(1)[OF i] hs by auto
        next
          case notchild: False
          then have pi: "parent (proc_at ?t i) = parent (proc_at s i)" using hi by (simp add: handed_over_def)
          have "\<exists>q<nproc s. parent (proc_at s i) = Some q \<and> live (proc_at ?t q) \<and> pid (proc_at ?t q) < pid (proc_at ?t i)"
            if lz: "live (proc_at s i) \<or> state (proc_at s i) = ZOMBIE" and nin: "initproc s \<noteq> Some i"
            using parentE[OF inv(1) i lz nin] lv pd(1) notchild i by metis
          moreover have "parents_ok s" using inv(1) by (simp only: kinv_def)
          ultimately show ?thesis using i unfolding pi hs(1,3,5,6) parents_ok_def by blast
        qed
      qed
    qed
    show "cpus_ok ?u"
    proof (rule cpus_ok_leave[OF _ inv(2,3)])
      show "cpus_ok s" using inv(1) by (simp only: kinv_def)
      show "(state (proc_at ?t i) = RUNNING) = (state (proc_at s i) = RUNNING)" if "i < nproc s" "i \<noteq> cur" for i
        using handed_over_states(4)[OF ho[OF that]] .
    qed (simp_all add: ef)
    show "forks_ok ?u"
      unfolding forks_ok_def sched_return_simps ef(1)
    proof (intro conjI allI impI)
      fix i m assume i: "i < nproc s" "kpos (proc_at ?t i) = KFork m"
      then have k: "kpos (proc_at s i) = KFork m" by (simp add: pd)
      note fo = fork_owner[OF inv(1) i(1) k]
      have "i \<noteq> cur" using k kp by auto
      moreover have "m \<noteq> cur" using fo(3) r(2) by auto
      ultimately show "live (proc_at ?t i)" "m < nproc s" "state (proc_at ?t m) = EMBRYO"
        "pid (proc_at ?t i) < pid (proc_at ?t m)"
        using fo lv[OF i(1)] handed_over_states(6)[OF ho[OF fo(2)]] pd(1)[OF i(1)] pd(1)[OF fo(2)] by auto
    next
      fix i j m assume "i < nproc s" "j < nproc s" "kpos (proc_at ?t i) = KFork m" "kpos (proc_at ?t j) = KFork m"
      then show "i = j" using fork_owner_unique[OF inv(1)] pd(2) by metis
    qed
    show "waits_ok ?u"
      unfolding waits_ok_def sched_return_simps ef(1)
    proof (intro allI impI conjI)
      fix i assume i: "i < nproc s" "state (proc_at ?t i) = SLEEPING" "kpos (proc_at ?t i) = KWait"
      then have "i \<noteq> cur" using curt(1) by auto
      note h = ho[OF i(1) this]
      have old: "state (proc_at s i) = SLEEPING" "kpos (proc_at s i) = KWait" "chan (proc_at ?t i) = chan (proc_at s i)"
        using handed_over_states(7)[OF h i(2)] h i(3) by (simp_all add: handed_over_def)
      note wa = wait_asleep[OF inv(1) i(1) old(1,2)]
      show "chan (proc_at ?t i) = ProcChan i" using old(3) wa(1) by simp
      fix j assume j: "j < nproc s" "parent (proc_at ?t j) = Some i"
      show "state (proc_at ?t j) \<noteq> ZOMBIE"
      proof
        assume z: "state (proc_at ?t j) = ZOMBIE"
        show False
        proof (cases "j = cur")
          case True
          with j curt par have "chan (proc_at s i) = ptr_chan (parent (proc_at s cur))"
            by (simp add: wa(1))
          with ef(11)[OF i(1) \<open>i \<noteq> cur\<close>] i(2) show False by simp
        next
          case False
          have zj: "state (proc_at s j) = ZOMBIE" using handed_over_states(3)[OF ho[OF j(1) False]] z by simp
          show False
          proof (cases "parent (proc_at s j) = Some cur")
            case True
            then have "initproc s = Some i" using ho[OF j(1) False] j(2) by (simp add: handed_over_def)
            then have "chan (proc_at s i) = ptr_chan (initproc s)" using wa(1) by simp
            with ef(12)[OF i(1) \<open>i \<noteq> cur\<close> j(1) True zj] i(2) show False by simp
          next
            case nc: False
            then have "parent (proc_at s j) = Some i"
              using ho[OF j(1) False] j(2) by (simp add: handed_over_def)
            with wa(2)[OF j(1)] zj show False by simp
          qed
        qed
      qed
    qed
  qed
qed

section \<open>Wait keeps the invariant\<close>

lemma wait_scan_None:
  "snd (wait_scan cur i hk ps) = None \<longleftrightarrow> (\<forall>p \<in> set ps. parent p = Some cur \<longrightarrow> state p \<noteq> ZOMBIE)"
  by (induction ps arbitrary: i hk) auto

lemma wait_scan_havekids:
  "snd (wait_scan cur i hk ps) = None \<Longrightarrow>
   fst (wait_scan cur i hk ps) = (hk \<or> (\<exists>p \<in> set ps. parent p = Some cur))"
  by (induction ps arbitrary: i hk) auto

lemma wait_scan_Some:
  "snd (wait_scan cur i hk ps) = Some j \<Longrightarrow>
   i \<le> j \<and> j - i < length ps \<and> parent (ps ! (j - i)) = Some cur \<and> state (ps ! (j - i)) = ZOMBIE \<and>
   (\<forall>m < j - i. \<not> (parent (ps ! m) = Some cur \<and> state (ps ! m) = ZOMBIE))"
proof (induction ps arbitrary: i hk)
  case Nil
  then show ?case by simp
next
  case (Cons p ps)
  show ?case
  proof (cases "parent p = Some cur \<and> state p = ZOMBIE")
    case True
    with Cons.prems show ?thesis by simp
  next
    case False
    with Cons.prems obtain hk' where "snd (wait_scan cur (Suc i) hk' ps) = Some j" by (auto split: if_splits)
    from Cons.IH[OF this] False show ?thesis by (auto simp: nth_Cons' Suc_diff_le[symmetric] Suc_le_eq)
  qed
qed

text \<open>The three outcomes of one iteration of \<open>wait\<close>.\<close>

lemma wait_iter_cases:
  obtains (reap) i w where "i < nproc s" "parent (proc_at s i) = Some cur" "state (proc_at s i) = ZOMBIE"
      "\<forall>j<i. \<not> (parent (proc_at s j) = Some cur \<and> state (proc_at s j) = ZOMBIE)"
      "w = freevm E (pgdir (proc_at s i)) (kfree E (kstack (proc_at s i)) (world s))"
      "wait_iter E cur s = (Some (pid (proc_at s i)),
         upd_proc i (\<lambda>p. p\<lparr>kstack := 0, pid := 0, parent := None, name := [], killed := 0, state := UNUSED\<rparr>)
           (s\<lparr>world := w\<rparr>))"
  | (fail) "\<forall>j<nproc s. parent (proc_at s j) = Some cur \<longrightarrow> state (proc_at s j) \<noteq> ZOMBIE"
      "(\<forall>j<nproc s. parent (proc_at s j) \<noteq> Some cur) \<or> killed (proc_at s cur) \<noteq> 0"
      "wait_iter E cur s = (Some (-1), s)"
  | (asleep) "\<forall>j<nproc s. parent (proc_at s j) = Some cur \<longrightarrow> state (proc_at s j) \<noteq> ZOMBIE"
      "\<exists>j<nproc s. parent (proc_at s j) = Some cur" "killed (proc_at s cur) = 0"
      "wait_iter E cur s = (None, sleep_enter cur (ProcChan cur) s)"
proof (cases "snd (wait_scan cur 0 False (ptable s))")
  case None
  then have nz: "\<forall>j<nproc s. parent (proc_at s j) = Some cur \<longrightarrow> state (proc_at s j) \<noteq> ZOMBIE"
    by (auto simp: wait_scan_None all_set_conv_all_nth)
  have hk: "fst (wait_scan cur 0 False (ptable s)) = (\<exists>j<nproc s. parent (proc_at s j) = Some cur)"
    using wait_scan_havekids[OF None] by (simp add: Bex_def) (metis in_set_conv_nth)
  obtain h where h: "wait_scan cur 0 False (ptable s) = (h, None)"
    using None by (metis prod.collapse)
  show ?thesis
  proof (cases "\<not> h \<or> killed (proc_at s cur) \<noteq> 0")
    case True
    then have "wait_iter E cur s = (Some (-1), s)" using h by (auto simp: wait_iter_def)
    moreover have "(\<forall>j<nproc s. parent (proc_at s j) \<noteq> Some cur) \<or> killed (proc_at s cur) \<noteq> 0"
      using True hk unfolding h by auto
    ultimately show ?thesis by (intro fail[OF nz])
  next
    case False
    then have "wait_iter E cur s = (None, sleep_enter cur (ProcChan cur) s)" using h by (auto simp: wait_iter_def)
    moreover have "\<exists>j<nproc s. parent (proc_at s j) = Some cur" "killed (proc_at s cur) = 0"
      using False hk unfolding h by simp_all
    ultimately show ?thesis by (intro asleep[OF nz])
  qed
next
  case (Some i)
  then obtain h where h: "wait_scan cur 0 False (ptable s) = (h, Some i)" by (metis prod.collapse)
  from wait_scan_Some[OF Some] show ?thesis
    by (intro reap[of i]) (auto simp: wait_iter_def h Let_def)
qed

lemma kinv_reap:
  assumes inv: "kinv s" and i: "i < nproc s" "state (proc_at s i) = ZOMBIE"
    and g: "state (g (proc_at s i)) = UNUSED" "parent (g (proc_at s i)) = None"
      "kpos (g (proc_at s i)) = kpos (proc_at s i)"
    and s': "ptable s' = upd_at i g (ptable s)" "nextpid s' = nextpid s" "initproc s' = initproc s" "cpus s' = cpus s"
  shows "kinv s'"
proof -
  have n: "nproc s' = nproc s" by (simp add: s')
  have nt: "proc_at s' j = (if j = i then g (proc_at s i) else proc_at s j)" if "j < nproc s" for j
    using that by (auto simp: s' nth_upd_at)
  have zl: "\<not> live (proc_at s i)" using i(2) by (auto simp: live_def)
  have lv: "live (proc_at s' j) = live (proc_at s j)" if "j < nproc s" for j
    using that zl g(1) by (auto simp: nt live_def)
  have lp: "pid (proc_at s' j) = pid (proc_at s j)" if "j < nproc s" "live (proc_at s j)" for j
    using that zl by (auto simp: nt)
  have ac: "active (proc_at s j) \<and> pid (proc_at s' j) = pid (proc_at s j)" if "j < nproc s" "active (proc_at s' j)" for j
    using that g(1) by (auto simp: nt active_def split: if_splits)
  have ni: "initproc s \<noteq> Some i"
    using init_procE[OF inv] zl by (metis option.inject)
  show ?thesis
  proof (rule kinvI)
    show "pids_ok s'"
      unfolding pids_ok_def n s'(2) using ac pid_range[OF inv] pid_inj[OF inv] by metis
    show "init_ok s'" using init_procE[OF inv] lv lp by (metis init_ok_def n s'(3))
    show "parents_ok s'"
      unfolding parents_ok_def n s'(3)
    proof (intro allI impI)
      fix j assume j: "j < nproc s"
      show "((state (proc_at s' j) = UNUSED \<or> state (proc_at s' j) = EMBRYO) \<longrightarrow> parent (proc_at s' j) = None) \<and>
        ((live (proc_at s' j) \<or> state (proc_at s' j) = ZOMBIE) \<longrightarrow>
           (initproc s = Some j \<longrightarrow> parent (proc_at s' j) = None) \<and>
           (initproc s \<noteq> Some j \<longrightarrow> (\<exists>q<nproc s. parent (proc_at s' j) = Some q \<and>
              live (proc_at s' q) \<and> pid (proc_at s' q) < pid (proc_at s' j))))"
      proof (cases "j = i")
        case True
        have "\<not> live (proc_at s' i)" using lv[OF i(1)] zl by simp
        with True g show ?thesis by (simp add: nt[OF i(1)])
      next
        case False
        have *: "\<exists>q<nproc s. parent (proc_at s j) = Some q \<and> live (proc_at s' q) \<and> pid (proc_at s' q) < pid (proc_at s j)"
          if lz: "live (proc_at s j) \<or> state (proc_at s j) = ZOMBIE" and nin: "initproc s \<noteq> Some j"
          using parentE[OF inv j lz nin] lv lp by metis
        have "parents_ok s" using inv by (simp only: kinv_def)
        moreover have "proc_at s' j = proc_at s j" using False by (simp add: nt[OF j])
        ultimately show ?thesis using * j unfolding parents_ok_def by presburger
      qed
    qed
    have "(state (proc_at s' j) = RUNNING) = (state (proc_at s j) = RUNNING)" if "j < nproc s" for j
      using that i(2) g(1) by (auto simp: nt)
    moreover have "cpus_ok s" using inv by (simp only: kinv_def)
    ultimately show "cpus_ok s'" by (simp add: cpus_ok_def n s'(4) cong: conj_cong)
    have kp: "kpos (proc_at s' j) = kpos (proc_at s j)" if "j < nproc s" for j
      using that g(3) by (auto simp: nt)
    show "forks_ok s'"
      unfolding forks_ok_def n
    proof (intro conjI allI impI)
      fix j m assume j: "j < nproc s" "kpos (proc_at s' j) = KFork m"
      have k: "kpos (proc_at s j) = KFork m" using j(2) kp[OF j(1)] by simp
      note fo = fork_owner[OF inv j(1) k]
      have "m \<noteq> i" using fo(3) i(2) by auto
      then show "live (proc_at s' j)" "m < nproc s" "state (proc_at s' m) = EMBRYO"
        "pid (proc_at s' j) < pid (proc_at s' m)"
        using fo lv[OF j(1)] lp[OF j(1)] nt[OF fo(2)] by auto
    next
      fix j k m assume "j < nproc s" "k < nproc s" "kpos (proc_at s' j) = KFork m" "kpos (proc_at s' k) = KFork m"
      then show "j = k" using fork_owner_unique[OF inv] kp by metis
    qed
    have "state (proc_at s j) = SLEEPING \<and> kpos (proc_at s j) = KWait \<and> chan (proc_at s' j) = chan (proc_at s j)"
      if "j < nproc s" "state (proc_at s' j) = SLEEPING" "kpos (proc_at s' j) = KWait" for j
      using that g(1) by (auto simp: nt split: if_splits)
    moreover have "state (proc_at s j) = ZOMBIE \<and> parent (proc_at s j) = parent (proc_at s' j)"
      if "j < nproc s" "state (proc_at s' j) = ZOMBIE" for j
      using that g(1) by (auto simp: nt split: if_splits)
    moreover have "waits_ok s" using inv by (simp only: kinv_def)
    ultimately show "waits_ok s'" unfolding waits_ok_def n by metis
  qed
qed

end
