(* ===== verification/Xv6_Kernel.thy ===== *)
theory Xv6_Kernel
  imports Xv6_Exit
begin

text \<open>
  The kernel as a step relation: the processes on the CPUs, the schedulers and the
  interrupt handlers interleave, one critical section of \<open>ptable.lock\<close> at a time. Every
  reachable state satisfies \<open>kinv\<close> (interpretation \<open>kern\<close> of \<open>invariant_machine\<close>).
\<close>

section \<open>Steps\<close>

abbreviation runs :: "'w kstate \<Rightarrow> nat \<Rightarrow> nat \<Rightarrow> bool" where
  "runs s c cur \<equiv> c < length (cpus s) \<and> cproc (cpus s ! c) = Some cur"

text \<open>
  A running process enters \<open>wait\<close>, or goes on in it after its \<open>sleep\<close> returned, up to the
  point where the call returns or sleeps again.
\<close>

definition wait_run :: "'w kext \<Rightarrow> nat \<Rightarrow> nat \<Rightarrow> 'w kstate \<Rightarrow> 'w kstate" where
  "wait_run E c cur s =
     (case wait_iter E cur (if kpos (proc_at s cur) = KWait then sleep_resume cur s else s) of
        (Some r, t) \<Rightarrow> set_kpos cur KUser t
      | (None, t) \<Rightarrow> sched_return E c (set_kpos cur KWait t))"

text \<open>
  What a process may do to its own entry outside \<open>proc.c\<close> (\<open>exec\<close>, \<open>open\<close>, \<open>close\<close>,
  \<open>chdir\<close>, the trap code): everything but the fields the process table's lock protects.
\<close>

definition same_control :: "proc \<Rightarrow> proc \<Rightarrow> bool" where
  "same_control p p' \<longleftrightarrow> state p' = state p \<and> pid p' = pid p \<and> parent p' = parent p \<and>
     chan p' = chan p \<and> killed p' = killed p \<and> nrswitch p' = nrswitch p \<and> kstack p' = kstack p \<and>
     kpos p' = kpos p"

text \<open>
  \<open>fork_begin\<close> has the bound that \<open>nextpid++\<close> does not overflow: after \<open>2 ^ 31 - 2\<close> forks
  the increment is undefined in C.
\<close>

inductive kstep :: "kconf \<Rightarrow> 'w kext \<Rightarrow> 'w kstate \<Rightarrow> 'w kstate \<Rightarrow> bool" for K E where
  k_schedule: "c < length (cpus s) \<Longrightarrow> cproc (cpus s ! c) = None \<Longrightarrow> kstep K E s (scheduler_step E c s)"
| k_fork_begin: "runs s c cur \<Longrightarrow> kpos (proc_at s cur) = KUser \<Longrightarrow> nextpid s < 2147483647 \<Longrightarrow>
     alloc_claim s = (Some np, t) \<Longrightarrow> kstep K E s (set_kpos cur (KFork np) t)"
| k_fork_end: "runs s c cur \<Longrightarrow> kpos (proc_at s cur) = KFork np \<Longrightarrow>
     kstep K E s (set_kpos cur KUser (snd (fork_finish K E cur np s)))"
| k_forkret: "runs s c cur \<Longrightarrow> kpos (proc_at s cur) = KForkret \<Longrightarrow>
     kstep K E s (set_kpos cur KUser (forkret K E s))"
| k_exit_begin: "runs s c cur \<Longrightarrow> kpos (proc_at s cur) = KUser \<Longrightarrow> exit_files E cur s = Inr t \<Longrightarrow>
     kstep K E s (set_kpos cur KExit t)"
| k_exit_end: "runs s c cur \<Longrightarrow> kpos (proc_at s cur) = KExit \<Longrightarrow> initproc s \<noteq> Some cur \<Longrightarrow>
     kstep K E s (sched_return E c (exit_final cur s))"
| k_wait: "runs s c cur \<Longrightarrow> kpos (proc_at s cur) = KUser \<or> kpos (proc_at s cur) = KWait \<Longrightarrow>
     kstep K E s (wait_run E c cur s)"
| k_yield: "runs s c cur \<Longrightarrow> kstep K E s (sched_return E c (yield_enter cur s))"
| k_sleep: "runs s c cur \<Longrightarrow> kpos (proc_at s cur) = k \<Longrightarrow> k = KUser \<or> k = KExit \<Longrightarrow>
     kstep K E s (sched_return E c (set_kpos cur (KSleep k) (sleep_enter cur ch s)))"
| k_sleep_resume: "runs s c cur \<Longrightarrow> kpos (proc_at s cur) = KSleep k \<Longrightarrow> k = KUser \<or> k = KExit \<Longrightarrow>
     kstep K E s (set_kpos cur k (sleep_resume cur s))"
| k_wakeup: "kstep K E s (wakeup ch s)"
| k_kill: "kstep K E s (snd (kill n s))"
| k_sbrk: "runs s c cur \<Longrightarrow> kpos (proc_at s cur) = KUser \<Longrightarrow> kstep K E s (snd (growproc E cur n s))"
| k_process: "runs s c cur \<Longrightarrow> same_control (proc_at s cur) p' \<Longrightarrow>
     kstep K E s (s\<lparr>ptable := (ptable s)[cur := p'], world := w\<rparr>)"
| k_device: "kstep K E s (s\<lparr>world := w\<rparr>)"

definition kstart :: "kconf \<Rightarrow> 'w kext \<Rightarrow> 'w kstate \<Rightarrow> bool" where
  "kstart K E s \<longleftrightarrow> (\<exists>n nofile cs w. userinit K E (boot (Suc n) nofile cs w) = Inr s)"

section \<open>The remaining preservation lemmas\<close>

lemma woken_frame:
  "ptable s' = ptable s \<Longrightarrow> nextpid s' = nextpid s \<Longrightarrow> initproc s' = initproc s \<Longrightarrow> cpus s' = cpus s \<Longrightarrow>
   woken_state s s'"
  by (simp add: woken_state_def)

lemma woken_growproc: "woken_state s (snd (growproc E cur n s))"
proof -
  obtain r w where r: "(if n > 0 then allocuvm E (pgdir (proc_at s cur)) (sz (proc_at s cur)) (sz (proc_at s cur) + word_of_int n) (world s)
      else if n < 0 then deallocuvm E (pgdir (proc_at s cur)) (sz (proc_at s cur)) (sz (proc_at s cur) + word_of_int n) (world s)
      else (sz (proc_at s cur), world s)) = (r, w)" by fastforce
  show ?thesis
  proof (cases "n \<noteq> 0 \<and> r = 0")
    case True
    with r show ?thesis by (simp add: growproc_def Let_def woken_state_def)
  next
    case False
    then have "snd (growproc E cur n s) = (let s1 = upd_proc cur (\<lambda>p. p\<lparr>sz := r\<rparr>) (s\<lparr>world := w\<rparr>)
         in s1\<lparr>world := switchuvm E (ptable s1 ! cur) (world s1)\<rparr>)"
      unfolding growproc_def Let_def r by auto
    then show ?thesis by (intro woken_stateI) (auto simp: Let_def nth_upd_at woken_def)
  qed
qed

lemma woken_same_control:
  "same_control (proc_at s cur) p' \<Longrightarrow> woken_state s (s\<lparr>ptable := (ptable s)[cur := p'], world := w\<rparr>)"
proof (intro woken_stateI)
  fix i assume "same_control (proc_at s cur) p'" "i < nproc s"
  then show "woken (proc_at s i) (proc_at (s\<lparr>ptable := (ptable s)[cur := p'], world := w\<rparr>) i)"
    by (cases "i = cur") (simp_all add: same_control_def woken_def)
qed simp_all

lemma exit_files_InrD:
  assumes "exit_files E cur s = Inr t"
  obtains fs w where "initproc s \<noteq> Some cur"
    "t = upd_proc cur (\<lambda>p. p\<lparr>ofile := fs, cwd := 0\<rparr>) (s\<lparr>world := w\<rparr>)"
  using assms by (auto simp: exit_files_def Let_def split: if_splits prod.splits)

lemma kinv_wait_run:
  assumes inv: "kinv s" and r: "runs s c cur" and k: "kpos (proc_at s cur) = KUser \<or> kpos (proc_at s cur) = KWait"
  shows "kinv (wait_run E c cur s)"
proof -
  let ?s = "if kpos (proc_at s cur) = KWait then sleep_resume cur s else s"
  have run: "cur < nproc s" "state (proc_at s cur) = RUNNING" using running_cpu[OF inv] r by auto
  have inv': "kinv ?s"
    using r by (auto intro!: inv kinv_upd_running[OF inv, where c = c and cur = cur and f = "\<lambda>p. p\<lparr>chan := NullChan\<rparr>"]
      simp: sleep_resume_def)
  have r': "runs ?s c cur" and run': "cur < nproc ?s" "state (proc_at ?s cur) = RUNNING"
    and kp': "kpos (proc_at ?s cur) = KUser \<or> kpos (proc_at ?s cur) = KWait"
    using r run k by (auto simp: sleep_resume_def)
  show ?thesis
  proof (cases rule: wait_iter_cases[where s = ?s and cur = cur and E = E])
    case (reap i w)
    let ?g = "\<lambda>p. p\<lparr>kstack := 0, pid := 0, parent := None, name := [], killed := 0, state := UNUSED\<rparr>"
    let ?t = "upd_proc i ?g (?s\<lparr>world := w\<rparr>)"
    have ne: "cur \<noteq> i" using reap(3) run'(2) by auto
    have t: "kinv ?t" by (rule kinv_reap[OF inv' reap(1,3), where g = ?g]) (simp_all del: if_split)
    have rt: "c < length (cpus ?t)" "cproc (cpus ?t ! c) = Some cur" using r' by (simp_all del: if_split)
    have "kinv (set_kpos cur KUser ?t)"
      by (rule kinv_upd_running[OF t rt, where f = "\<lambda>p. p\<lparr>kpos := KUser\<rparr>"]) (simp_all del: if_split)
    then show ?thesis unfolding wait_run_def reap(6) by simp
  next
    case fail
    have "kinv (set_kpos cur KUser ?s)"
      using r' by (intro kinv_upd_running[OF inv', where c = c and cur = cur and f = "\<lambda>p. p\<lparr>kpos := KUser\<rparr>"])
        (simp_all del: if_split)
    then show ?thesis unfolding wait_run_def fail(3) by simp
  next
    case asleep
    let ?f = "\<lambda>p. p\<lparr>chan := ProcChan cur, state := SLEEPING, kpos := KWait\<rparr>"
    have "kinv (sched_return E c (upd_proc cur ?f ?s))"
      using r' asleep(1) by (intro kinv_leave[OF inv']) (simp_all del: if_split)
    moreover have "set_kpos cur KWait (sleep_enter cur (ProcChan cur) ?s) = upd_proc cur ?f ?s"
      using run'(1) by (simp add: set_kpos_def sleep_enter_def upd_proc_def del: if_split)
    ultimately show ?thesis unfolding wait_run_def asleep(4) by simp
  qed
qed

text \<open>A start state: entry 0 holds the first process, with pid 1, and the others are zero.\<close>

lemma kstart_table:
  assumes "kstart K E s"
  obtains n nofile cs f where "ptable s = upd_at 0 f (replicate (Suc n) (zero_proc nofile))"
    "nextpid s = 2" "initproc s = Some 0" "cpus s = map scheduler_start cs"
    "state (f (zero_proc nofile)) = RUNNABLE" "pid (f (zero_proc nofile)) = 1"
    "parent (f (zero_proc nofile)) = None" "kpos (f (zero_proc nofile)) = KForkret"
proof -
  obtain n nofile cs w where u: "userinit K E (boot (Suc n) nofile cs w) = Inr s"
    using assms by (auto simp: kstart_def)
  let ?b = "boot (Suc n) nofile cs w"
  have cl: "alloc_claim ?b = (Some 0, upd_proc 0 (\<lambda>p. p\<lparr>state := EMBRYO, pid := 1, nrswitch := 0\<rparr>) (?b\<lparr>nextpid := 2\<rparr>))"
    by (simp add: alloc_claim_def boot_def zero_proc_def to_cint_def)
  show ?thesis
  proof (cases rule: alloc_stack_cases[of K E 0 "snd (alloc_claim ?b)"])
    case (none w)
    with u show ?thesis by (simp add: userinit_def allocproc_def cl)
  next
    case (some k w')
    let ?a = "\<lambda>p. p\<lparr>state := EMBRYO, pid := 1, nrswitch := 0, kstack := k,
        tf := k + KSTACKSIZE K - TFSIZE K, kret := trapret_addr K,
        ctx := k + KSTACKSIZE K - TFSIZE K - 4 - CONTEXT_SIZE,
        kctx := zero_context\<lparr>eip := forkret_addr K\<rparr>, kpos := KForkret\<rparr>"
    have al: "allocproc K E ?b = (Some 0, upd_proc 0 ?a (?b\<lparr>nextpid := 2, world := w'\<rparr>))"
      using some(3) unfolding cl by (simp add: allocproc_def cl upd_proc_def) (simp add: boot_def upd_at_def)
    obtain pg w1 where pg: "setupkvm E w' = (pg, w1)" by fastforce
    obtain d w2 where d: "namei E ''/'' (inituvm E pg w1) = (d, w2)" by fastforce
    have "pg \<noteq> 0" using u by (auto simp: userinit_def al pg)
    let ?f = "\<lambda>p. (?a p)\<lparr>pgdir := pg, sz := PGSIZE K,
        tframe := zero_trapframe\<lparr>tf_cs := UCODE_SEL K, tf_ds := UDATA_SEL K,
          tf_es := UDATA_SEL K, tf_ss := UDATA_SEL K, tf_eflags := FL_IF K,
          tf_esp := PGSIZE K, tf_eip := 0\<rparr>,
        name := safestrcpy E ''initcode'' NAME_SIZE, cwd := d, state := RUNNABLE\<rparr>"
    have "0 < nproc ?b" by (simp add: boot_def)
    then have "ptable s = upd_at 0 ?f (ptable ?b)" "nextpid s = 2" "initproc s = Some 0" "cpus s = cpus ?b"
      using u \<open>pg \<noteq> 0\<close> by (auto simp: userinit_def al pg d)
    then have "ptable s = upd_at 0 ?f (replicate (Suc n) (zero_proc nofile))" "nextpid s = 2" "initproc s = Some 0"
      "cpus s = map scheduler_start cs" by (simp_all add: boot_def)
    then show ?thesis by (rule that) (simp_all add: zero_proc_def)
  qed
qed

lemma kinv_kstart:
  assumes "kstart K E s"
  shows "kinv s"
proof -
  from assms obtain n nofile cs f where f: "ptable s = upd_at 0 f (replicate (Suc n) (zero_proc nofile))"
    "nextpid s = 2" "initproc s = Some 0" "cpus s = map scheduler_start cs"
    and p: "state (f (zero_proc nofile)) = RUNNABLE" "pid (f (zero_proc nofile)) = 1"
      "parent (f (zero_proc nofile)) = None" "kpos (f (zero_proc nofile)) = KForkret"
    by (rule kstart_table)
  have nt: "proc_at s i = (if i = 0 then f (zero_proc nofile) else zero_proc nofile)" if "i < Suc n" for i
    using that by (auto simp: f(1) boot_def nth_upd_at upd_at_def nth_Cons')
  have n: "nproc s = Suc n" by (simp add: f(1) boot_def)
  have z: "state (zero_proc nofile) = UNUSED" "parent (zero_proc nofile) = None" "kpos (zero_proc nofile) = KUser"
    by (simp_all add: zero_proc_def)
  have cp: "cproc (cpus s ! c) = None" if "c < length (cpus s)" for c
    using that by (simp add: f(4) boot_def scheduler_start_def)
  show ?thesis
  proof (rule kinvI)
    show "pids_ok s" by (auto simp: pids_ok_def n nt active_def z p f(2))
    show "parents_ok s" by (auto simp: parents_ok_def n nt live_def z p f(3))
    show "init_ok s" unfolding init_ok_def n using p by (intro exI[of _ 0]) (simp add: nt f(3) live_def)
    show "cpus_ok s" by (auto simp: cpus_ok_def n nt z p cp)
    show "forks_ok s" by (auto simp: forks_ok_def n nt z p)
    show "waits_ok s" by (auto simp: waits_ok_def n nt z p)
  qed
qed

section \<open>Every step keeps the invariant\<close>

lemma kinv_kstep:
  assumes "kinv s" "kstep K E s t"
  shows "kinv t"
  using assms(2,1)
proof (induction rule: kstep.induct)
  case (k_schedule c s)
  then show ?case by (intro kinv_scheduler_step)
next
  case (k_fork_begin s c cur np t)
  then show ?case using running_cpu[of s c cur] by (intro kinv_claim) auto
next
  case (k_fork_end s c cur np)
  then show ?case using running_cpu[of s c cur] by (intro kinv_fork_finish) auto
next
  case (k_forkret s c cur)
  have fr: "kinv (forkret K E s)"
    by (rule kinv_woken[OF k_forkret.prems woken_frame]) (simp_all add: forkret_def)
  have "c < length (cpus (forkret K E s))" "cproc (cpus (forkret K E s) ! c) = Some cur"
    using k_forkret(1) by (simp_all add: forkret_def)
  then show ?case
    by (rule kinv_upd_running[OF fr, where f = "\<lambda>p. p\<lparr>kpos := KUser\<rparr>"]) simp_all
next
  case (k_exit_begin s c cur t)
  obtain fs w where t: "t = upd_proc cur (\<lambda>p. p\<lparr>ofile := fs, cwd := 0\<rparr>) (s\<lparr>world := w\<rparr>)"
    using exit_files_InrD[OF k_exit_begin(3)] by metis
  then show ?case using k_exit_begin(1) running_cpu[OF k_exit_begin.prems]
    by (intro kinv_upd_running[OF k_exit_begin.prems, where c = c and cur = cur and
          f = "\<lambda>p. p\<lparr>ofile := fs, cwd := 0, kpos := KExit\<rparr>"]) auto
next
  case (k_exit_end s c cur)
  then show ?case by (intro kinv_exit_final) auto
next
  case (k_wait s c cur)
  then show ?case by (intro kinv_wait_run) auto
next
  case (k_yield s c cur)
  then show ?case unfolding yield_enter_def by (intro kinv_leave) auto
next
  case (k_sleep s c cur k ch)
  have "set_kpos cur (KSleep k) (sleep_enter cur ch s) =
      upd_proc cur (\<lambda>p. p\<lparr>chan := ch, state := SLEEPING, kpos := KSleep k\<rparr>) s"
    using k_sleep running_cpu[of s c cur] by (simp add: set_kpos_def sleep_enter_def upd_proc_def)
  then show ?case using k_sleep by (auto intro!: kinv_leave)
next
  case (k_sleep_resume s c cur k)
  then show ?case using running_cpu[of s c cur]
    by (intro kinv_upd_running[OF k_sleep_resume.prems, where c = c and cur = cur and
          f = "\<lambda>p. p\<lparr>chan := NullChan, kpos := k\<rparr>"]) (auto simp: sleep_resume_def)
next
  case (k_wakeup s ch)
  then show ?case unfolding wakeup_def by (rule kinv_woken[OF _ woken_wakeup1])
next
  case (k_kill s n)
  then show ?case by (rule kinv_woken[OF _ woken_kill])
next
  case (k_sbrk s c cur n)
  then show ?case by (intro kinv_woken[OF _ woken_growproc])
next
  case (k_process s c cur p' w)
  then show ?case by (intro kinv_woken[OF _ woken_same_control])
next
  case (k_device s w)
  then show ?case by (rule kinv_woken[OF _ woken_frame]) simp_all
qed

interpretation kern: invariant_machine "kstart K E" "kstep K E" kinv for K E
  by unfold_locales (auto intro: kinv_kstart kinv_kstep)

end
