(* ===== verification/Xv6_Info.thy ===== *)
theory Xv6_Info
  imports Xv6_Kernel
begin

text \<open>
  The three system calls added for the assignment (\<open>getNumProc\<close>, \<open>getMaxPid\<close>,
  \<open>getProcInfo\<close>) and \<open>procdump\<close>, with what they return in every reachable state of the
  kernel. Each of the three holds \<open>ptable.lock\<close> throughout, so it sees one state.
\<close>

section \<open>The queries\<close>

text \<open>The counter is at most NPROC, the length of an array in memory: it cannot overflow.\<close>

definition getNumProc :: "'w kstate \<Rightarrow> cint" where
  "getNumProc s =
     foldl (\<lambda>count p. if state p \<noteq> UNUSED then count + 1 else count) 0 (ptable s)"

definition getMaxPid :: "'w kstate \<Rightarrow> cint" where
  "getMaxPid s =
     foldl (\<lambda>maxpid p. if state p \<noteq> UNUSED then (if pid p > maxpid then pid p else maxpid) else maxpid)
       0 (ptable s)"

record processInfo =
  pi_state :: cint
  pi_ppid :: cint
  pi_sz :: cint
  pi_nfd :: cint
  pi_nrswitch :: cint

definition count_fds :: "uint32 list \<Rightarrow> cint" where
  "count_fds fs = foldl (\<lambda>nfd f. if f \<noteq> 0 then nfd + 1 else nfd) 0 fs"

text \<open>\<open>getProcInfo\<close> returns the result and the structure \<open>pinfo\<close> points to afterwards.\<close>

definition getProcInfo :: "cint \<Rightarrow> processInfo \<Rightarrow> 'w kstate \<Rightarrow> cint \<times> processInfo" where
  "getProcInfo k pinfo s =
     (case first_index (\<lambda>p. state p \<noteq> UNUSED \<and> pid p = k) (ptable s) of
        Some i \<Rightarrow>
          (let p = ptable s ! i in
           (0, pinfo\<lparr>pi_state := state_num (state p),
                     pi_ppid := (case parent p of None \<Rightarrow> 0 | Some q \<Rightarrow> pid (ptable s ! q)),
                     pi_sz := sint (sz p), pi_nfd := count_fds (ofile p),
                     pi_nrswitch := nrswitch p\<rparr>))
      | None \<Rightarrow> (-1, pinfo))"

text \<open>
  \<open>procdump\<close> prints one line for each used entry; the output is the list of the arguments of
  the \<open>cprintf\<close> calls. \<open>callers\<close> stands for \<open>getcallerpcs\<close>.
\<close>

datatype kout = OutInt cint | OutStr string | OutPtr uint32

fun state_name :: "procstate \<Rightarrow> string" where
  "state_name UNUSED = ''unused''"
| "state_name EMBRYO = ''embryo''"
| "state_name SLEEPING = ''sleep ''"
| "state_name RUNNABLE = ''runble''"
| "state_name RUNNING = ''run   ''"
| "state_name ZOMBIE = ''zombie''"

text \<open>The table \<open>states\<close> has an entry for every constant, so \<open>''???''\<close> is never printed.\<close>

definition procdump_line :: "(uint32 \<Rightarrow> uint32 list) \<Rightarrow> proc \<Rightarrow> kout list" where
  "procdump_line callers p =
     [OutInt (pid p),
      OutStr (if 0 \<le> state_num (state p) \<and> state_num (state p) < 6 then state_name (state p)
              else ''???''), OutStr (name p)] @
     (if state p = SLEEPING
      then map OutPtr (takeWhile (\<lambda>pc. pc \<noteq> 0) (take 10 (callers (ebp (kctx p) + 8))))
      else []) @ [OutStr [newline]]"

definition procdump :: "(uint32 \<Rightarrow> uint32 list) \<Rightarrow> 'w kstate \<Rightarrow> kout list list" where
  "procdump callers s =
     map (procdump_line callers) (filter (\<lambda>p. \<not> (state p = UNUSED)) (ptable s))"

section \<open>What the loops compute\<close>

lemma foldl_count: "foldl (\<lambda>n x. if P x then n + 1 else n) (a :: int) xs = a + int (length (filter P xs))"
  by (induction xs arbitrary: a) auto

lemma getNumProc_filter: "getNumProc s = int (length (filter active (ptable s)))"
  unfolding getNumProc_def active_def[abs_def] by (simp add: foldl_count)

lemma getNumProc_card: "getNumProc s = int (card {i. i < nproc s \<and> active (proc_at s i)})"
  by (simp add: getNumProc_filter length_filter_conv_card)

lemma getNumProc_le: "0 \<le> getNumProc s" "getNumProc s \<le> int (nproc s)"
  by (simp_all add: getNumProc_filter)

lemma Max_insert_max:
  "finite X \<Longrightarrow> Max (insert (max a b) X) = Max (insert a (insert b X))" for a :: "'a :: linorder"
  by (cases "X = {}") (simp_all add: max.assoc)

lemma foldl_max:
  "foldl (\<lambda>m x. if P x then (if f x > m then f x else m) else m) (a :: int) xs =
   Max (insert a (f ` {x \<in> set xs. P x}))"
proof (induction xs arbitrary: a)
  case Nil
  then show ?case by simp
next
  case (Cons x xs)
  have fin: "finite (f ` {x \<in> set xs. P x})" by simp
  show ?case
  proof (cases "P x")
    case True
    then have s: "f ` {y \<in> set (x # xs). P y} = insert (f x) (f ` {y \<in> set xs. P y})" by auto
    have "max a (f x) = (if f x > a then f x else a)" by (simp add: max_def)
    with True Max_insert_max[OF fin, of a "f x"] show ?thesis
      by (simp only: foldl_Cons s Cons.IH if_True)
  next
    case False
    then have "{y \<in> set (x # xs). P y} = {y \<in> set xs. P y}" by auto
    with False show ?thesis by (simp only: foldl_Cons Cons.IH if_False)
  qed
qed

lemma getMaxPid_Max: "getMaxPid s = Max (insert 0 (pid ` {p \<in> set (ptable s). active p}))"
  unfolding getMaxPid_def active_def by (rule foldl_max)

lemma getMaxPid_ge: "i < nproc s \<Longrightarrow> active (proc_at s i) \<Longrightarrow> pid (proc_at s i) \<le> getMaxPid s"
  unfolding getMaxPid_Max by (rule Max_ge) auto

lemma getMaxPid_in: "getMaxPid s = 0 \<or> (\<exists>i<nproc s. active (proc_at s i) \<and> pid (proc_at s i) = getMaxPid s)"
proof -
  have "getMaxPid s \<in> insert 0 (pid ` {p \<in> set (ptable s). active p})"
    unfolding getMaxPid_Max by (rule Max_in) auto
  then show ?thesis by (auto simp: in_set_conv_nth)
qed

lemma getMaxPid_nonneg: "0 \<le> getMaxPid s"
  unfolding getMaxPid_Max by (rule Max_ge) auto

text \<open>The pids of the used entries.\<close>

definition pid_set :: "'w kstate \<Rightarrow> cint set" where
  "pid_set s = (\<lambda>i. pid (proc_at s i)) ` {i. i < nproc s \<and> active (proc_at s i)}"

lemma finite_pids [simp]: "finite (pid_set s)"
  by (simp add: pid_set_def)

lemma card_pids: "kinv s \<Longrightarrow> int (card (pid_set s)) = getNumProc s"
  unfolding pid_set_def getNumProc_card by (subst card_image) (auto simp: inj_on_def intro: pid_inj)

lemma pids_range: "kinv s \<Longrightarrow> pid_set s \<subseteq> {1..getMaxPid s}"
  using pid_range getMaxPid_ge by (fastforce simp: pid_set_def)

lemma pids_nextpid: "kinv s \<Longrightarrow> k \<in> pid_set s \<Longrightarrow> 0 < k \<and> k < nextpid s"
  using pid_range by (auto simp: pid_set_def)

lemma one_in_pids: "kinv s \<Longrightarrow> 1 \<in> pid_set s"
  using init_procE[of s] live_active unfolding pid_set_def by (metis (mono_tags, lifting) image_iff mem_Collect_eq)

lemma numproc_le_maxpid:
  assumes "kinv s"
  shows "getNumProc s \<le> getMaxPid s"
proof -
  have "card (pid_set s) \<le> card {1..getMaxPid s}" using pids_range[OF assms] by (intro card_mono) auto
  then show ?thesis using card_pids[OF assms] getMaxPid_nonneg[of s] by simp
qed

lemma numproc_pos: "kinv s \<Longrightarrow> 1 \<le> getNumProc s"
  using one_in_pids[of s] card_pids[of s] finite_pids[of s]
  by (metis One_nat_def Suc_leI card_gt_0_iff empty_iff of_nat_1 of_nat_le_iff)

lemma maxpid_lt_nextpid:
  assumes "kinv s"
  shows "getMaxPid s < nextpid s"
proof -
  have "0 < nextpid s" using pids_nextpid[OF assms one_in_pids[OF assms]] by simp
  with getMaxPid_in[of s] pid_range[OF assms] show ?thesis by fastforce
qed

section \<open>getProcInfo\<close>

lemma getProcInfo_fail_iff: "fst (getProcInfo k pinfo s) = -1 \<longleftrightarrow> k \<notin> pid_set s"
  by (auto simp: getProcInfo_def pid_set_def Let_def first_index_None active_def all_set_conv_all_nth
      image_iff split: option.splits dest!: first_index_SomeD)

lemma getProcInfo_result: "fst (getProcInfo k pinfo s) = 0 \<or> fst (getProcInfo k pinfo s) = -1"
  by (auto simp: getProcInfo_def Let_def split: option.splits)

lemma getProcInfo_ok_iff: "fst (getProcInfo k pinfo s) = 0 \<longleftrightarrow> k \<in> pid_set s"
  using getProcInfo_fail_iff[of k pinfo s] getProcInfo_result[of k pinfo s] by auto

lemma getProcInfo_at:
  assumes "kinv s" "i < nproc s" "active (proc_at s i)"
  shows "getProcInfo (pid (proc_at s i)) pinfo s =
    (0, pinfo\<lparr>pi_state := state_num (state (proc_at s i)),
        pi_ppid := (case parent (proc_at s i) of None \<Rightarrow> 0 | Some q \<Rightarrow> pid (proc_at s q)),
        pi_sz := sint (sz (proc_at s i)), pi_nfd := count_fds (ofile (proc_at s i)),
        pi_nrswitch := nrswitch (proc_at s i)\<rparr>)"
proof -
  have "\<not> (state (proc_at s j) \<noteq> UNUSED \<and> pid (proc_at s j) = pid (proc_at s i))" if "j < i" for j
    using pid_inj[OF assms(1), of j i] assms(2,3) that by (auto simp: active_def)
  then have "first_index (\<lambda>p. state p \<noteq> UNUSED \<and> pid p = pid (proc_at s i)) (ptable s) = Some i"
    using assms by (simp add: first_index_Some_iff active_def)
  then show ?thesis by (simp add: getProcInfo_def Let_def)
qed

lemma count_fds_eq: "count_fds fs = int (length (filter (\<lambda>f. f \<noteq> 0) fs))"
  unfolding count_fds_def by (simp add: foldl_count)

section \<open>Pids are never reused\<close>

lemma pids_cong:
  assumes "nproc t = nproc s" "\<And>i. i < nproc s \<Longrightarrow> active (proc_at t i) = active (proc_at s i)"
    "\<And>i. i < nproc s \<Longrightarrow> active (proc_at s i) \<Longrightarrow> pid (proc_at t i) = pid (proc_at s i)"
  shows "pid_set t = pid_set s"
  unfolding pid_set_def using assms by (intro image_cong) auto

text \<open>
  The entries of a step's result: used ones were used before, with the same pid, but for one
  entry that may have got the pid \<open>nextpid s\<close>.
\<close>

lemma pids_shrink:
  assumes "nproc t = nproc s"
    "\<And>i. i < nproc s \<Longrightarrow> active (proc_at t i) \<Longrightarrow>
       active (proc_at s i) \<and> pid (proc_at t i) = pid (proc_at s i) \<or> pid (proc_at t i) = nextpid s"
  shows "pid_set t \<subseteq> insert (nextpid s) (pid_set s)"
  using assms unfolding pid_set_def by (auto simp: image_iff)

lemma pids_woken:
  assumes "woken_state s t"
  shows "pid_set t = pid_set s"
proof (rule pids_cong)
  show "nproc t = nproc s" using assms by (simp add: woken_state_def)
  fix i assume "i < nproc s"
  then have w: "woken (proc_at s i) (proc_at t i)" using assms by (simp add: woken_state_def)
  then show "active (proc_at t i) = active (proc_at s i)" by (rule woken_active)
  show "pid (proc_at t i) = pid (proc_at s i)" using w by (simp add: woken_def)
qed

lemma pids_upd_same:
  assumes "pid (g (proc_at s i)) = pid (proc_at s i)" "active (g (proc_at s i)) = active (proc_at s i)"
    "ptable t = upd_at i g (ptable s)"
  shows "pid_set t = pid_set s"
  using assms by (intro pids_cong) (auto simp: nth_upd_at)

lemma pids_set_kpos [simp]: "pid_set (set_kpos i k s) = pid_set s"
  by (rule pids_upd_same[where i = i and g = "\<lambda>p. p\<lparr>kpos := k\<rparr>"]) (simp_all add: active_def)

lemma pids_sched_return [simp]: "pid_set (sched_return E c s) = pid_set s"
  by (rule pids_cong) simp_all

lemma nextpid_bound:
  "kinv s \<Longrightarrow> nextpid s < 2147483647 \<Longrightarrow> to_cint (nextpid s + 1) = nextpid s + 1"
  using pids_nextpid[OF _ one_in_pids, of s] by (intro to_cint_id) auto

lemma pids_claim:
  assumes "kinv s" "nextpid s < 2147483647" "alloc_claim s = (Some np, t)"
  shows "pid_set t = insert (nextpid s) (pid_set s)" "nextpid t = nextpid s + 1"
proof -
  note c = alloc_claim_SomeD[OF assms(3)]
  show "nextpid t = nextpid s + 1" using nextpid_bound[OF assms(1,2)] by (simp add: c)
  have nt: "proc_at t i = (if i = np then (proc_at s np)\<lparr>state := EMBRYO, pid := nextpid s, nrswitch := 0\<rparr> else proc_at s i)"
    if "i < nproc s" for i using that by (auto simp: c(4) nth_upd_at)
  show "pid_set t = insert (nextpid s) (pid_set s)"
  proof
    show "pid_set t \<subseteq> insert (nextpid s) (pid_set s)"
    proof (rule pids_shrink)
      show "nproc t = nproc s" by (simp add: c(4))
    qed (auto simp: nt active_def split: if_splits)
    have "nextpid s \<in> pid_set t"
      using c(1) by (auto simp: pid_set_def nt active_def c(4) intro!: image_eqI[of _ _ np])
    moreover have "pid_set s \<subseteq> pid_set t"
    proof
      fix k assume "k \<in> pid_set s"
      then obtain i where i: "i < nproc s" "active (proc_at s i)" "pid (proc_at s i) = k" by (auto simp: pid_set_def)
      then have "i \<noteq> np" using c(2) by (auto simp: active_def)
      then show "k \<in> pid_set t"
        using i by (auto simp: pid_set_def nt c(4) intro!: image_eqI[of _ _ i])
    qed
    ultimately show "insert (nextpid s) (pid_set s) \<subseteq> pid_set t" by simp
  qed
qed

lemma pids_wait_iter:
  assumes "active (proc_at s cur)"
  shows "pid_set (snd (wait_iter E cur s)) \<subseteq> pid_set s"
proof (cases rule: wait_iter_cases[where s = s and cur = cur and E = E])
  case (reap i w)
  then show ?thesis by (auto simp: pid_set_def nth_upd_at active_def image_iff split: if_splits)
next
  case fail
  then show ?thesis by simp
next
  case asleep
  have "pid_set (sleep_enter cur (ProcChan cur) s) = pid_set s"
    by (rule pids_upd_same[where i = cur and g = "\<lambda>p. p\<lparr>chan := ProcChan cur, state := SLEEPING\<rparr>"])
      (use assms in \<open>simp_all add: sleep_enter_def active_def\<close>)
  then show ?thesis unfolding asleep(4) by simp
qed

lemma pids_wait_run:
  assumes "active (proc_at s cur)" "cur < nproc s"
  shows "pid_set (wait_run E c cur s) \<subseteq> pid_set s"
proof -
  let ?s = "if kpos (proc_at s cur) = KWait then sleep_resume cur s else s"
  have "pid_set (sleep_resume cur s) = pid_set s"
    by (rule pids_upd_same[where i = cur and g = "\<lambda>p. p\<lparr>chan := NullChan\<rparr>"])
      (simp_all add: sleep_resume_def active_def)
  then have "pid_set ?s = pid_set s" by simp
  moreover have "active (proc_at ?s cur)"
    using assms by (simp add: sleep_resume_def active_def)
  ultimately show ?thesis
    using pids_wait_iter[of ?s cur E] unfolding wait_run_def
    by (auto split: prod.splits option.splits)
qed

lemma pids_fork_finish:
  assumes "np < nproc s" "cur \<noteq> np" "active (proc_at s np)"
  shows "pid_set (snd (fork_finish K E cur np s)) \<subseteq> pid_set s"
proof -
  obtain g where g: "ptable (snd (fork_finish K E cur np s)) = upd_at np g (ptable s)"
    "pid (g (proc_at s np)) = pid (proc_at s np)"
    using fork_finish_effect[OF assms(1,2)] by metis
  then show ?thesis using assms(3) by (auto simp: pid_set_def nth_upd_at image_iff split: if_splits)
qed

lemma pids_exit_final:
  assumes "cur < nproc s" "initproc s \<noteq> Some cur" "active (proc_at s cur)"
  shows "pid_set (exit_final cur s) = pid_set s"
proof (rule pids_cong)
  note ef = exit_final_effect[OF assms(1,2)]
  show "nproc (exit_final cur s) = nproc s" by (rule ef)
  fix i assume i: "i < nproc s"
  show "active (proc_at (exit_final cur s) i) = active (proc_at s i)"
    using ef(6) ef(10)[OF i] handed_over_states(2) assms(3) by (cases "i = cur") (auto simp: active_def)
  show "pid (proc_at (exit_final cur s) i) = pid (proc_at s i)"
    using ef(7) ef(10)[OF i] by (cases "i = cur") (auto simp: handed_over_def)
qed

lemma pids_kstep:
  assumes "kinv s" "kstep K E s t"
  shows "(pid_set t \<subseteq> pid_set s \<and> nextpid t = nextpid s) \<or>
         (pid_set t = insert (nextpid s) (pid_set s) \<and> nextpid t = nextpid s + 1)"
  using assms(2,1)
proof (induction rule: kstep.induct)
  case (k_schedule c s)
  have "pid_set (scheduler_step E c s) = pid_set s"
  proof (cases "first_index_from (\<lambda>p. state p = RUNNABLE) (scan (cpus s ! c)) (ptable s)")
    case (Some i)
    then show ?thesis
      using first_index_from_SomeD[OF Some]
      by (intro pids_upd_same[where i = i and g = "\<lambda>p. p\<lparr>state := RUNNING, nrswitch := to_cint (nrswitch p + 1)\<rparr>"])
        (simp_all add: scheduler_step_def active_def)
  qed (auto simp: scheduler_step_def pid_set_def)
  moreover have "nextpid (scheduler_step E c s) = nextpid s"
    by (auto simp: scheduler_step_def split: option.splits)
  ultimately show ?case by simp
next
  case (k_fork_begin s c cur np t)
  then show ?case using pids_claim[of s np t] by simp
next
  case (k_fork_end s c cur np)
  have r: "cur < nproc s" "state (proc_at s cur) = RUNNING"
    using running_cpu[OF k_fork_end.prems] k_fork_end(1) by auto
  note fo = fork_owner[OF k_fork_end.prems r(1) k_fork_end(2)]
  have "cur \<noteq> np" using fo(3) r(2) by auto
  then show ?case using pids_fork_finish[OF fo(2), of cur] fo(3) by (simp add: active_def)
next
  case (k_forkret s c cur)
  have "pid_set (forkret K E s) = pid_set s" by (rule pids_cong) (simp_all add: forkret_def)
  then show ?case by (simp add: forkret_def)
next
  case (k_exit_begin s c cur t)
  obtain fs w where "t = upd_proc cur (\<lambda>p. p\<lparr>ofile := fs, cwd := 0\<rparr>) (s\<lparr>world := w\<rparr>)"
    using exit_files_InrD[OF k_exit_begin(3)] by metis
  then show ?case
    using pids_upd_same[of "\<lambda>p. p\<lparr>ofile := fs, cwd := 0\<rparr>" s cur t] by (simp add: active_def)
next
  case (k_exit_end s c cur)
  then have r: "cur < nproc s" "state (proc_at s cur) = RUNNING"
    using running_cpu[OF k_exit_end.prems] k_exit_end(1) by auto
  show ?case
    using pids_exit_final[OF r(1) k_exit_end(3)] exit_final_effect(2)[OF r(1) k_exit_end(3)] r(2)
    by (simp add: active_def)
next
  case (k_wait s c cur)
  have "active (proc_at s cur)" "cur < nproc s"
    using running_cpu[OF k_wait.prems] k_wait(1) by (auto simp: active_def)
  moreover have "nextpid (wait_run E c cur s) = nextpid s"
    by (cases rule: wait_iter_cases[where s = "if kpos (proc_at s cur) = KWait then sleep_resume cur s else s" and cur = cur and E = E])
      (auto simp: wait_run_def sleep_resume_def sleep_enter_def)
  ultimately show ?case using pids_wait_run by blast
next
  case (k_yield s c cur)
  have "active (proc_at s cur)" using running_cpu[OF k_yield.prems] k_yield(1) by (auto simp: active_def)
  then show ?case
    using pids_upd_same[of "\<lambda>p. p\<lparr>state := RUNNABLE\<rparr>" s cur "yield_enter cur s"]
    by (simp add: yield_enter_def active_def)
next
  case (k_sleep s c cur k ch)
  have "active (proc_at s cur)" using running_cpu[OF k_sleep.prems] k_sleep(1) by (auto simp: active_def)
  then show ?case
    using pids_upd_same[of "\<lambda>p. p\<lparr>chan := ch, state := SLEEPING\<rparr>" s cur "sleep_enter cur ch s"]
    by (simp add: sleep_enter_def active_def)
next
  case (k_sleep_resume s c cur k)
  then show ?case
    using pids_upd_same[of "\<lambda>p. p\<lparr>chan := NullChan\<rparr>" s cur "sleep_resume cur s"]
    by (simp add: sleep_resume_def active_def)
next
  case (k_wakeup s ch)
  then show ?case using pids_woken[OF woken_wakeup1[of s ch]] by (simp add: wakeup_def)
next
  case (k_kill s n)
  then show ?case using pids_woken[OF woken_kill[of s n]] woken_kill[of s n] by (simp add: woken_state_def)
next
  case (k_sbrk s c cur n)
  then show ?case using pids_woken[OF woken_growproc[of s E cur n]] woken_growproc[of s E cur n] by (simp add: woken_state_def)
next
  case (k_process s c cur p' w)
  then show ?case using pids_woken[OF woken_same_control[OF k_process(2), of w]] by simp
next
  case (k_device s w)
  then show ?case by (simp add: pid_set_def)
qed

text \<open>Over any number of steps: a pid below \<open>nextpid\<close> that is in use was in use before.\<close>

lemma pids_old:
  assumes "(kstep K E)\<^sup>*\<^sup>* s t" "kinv s"
  shows "nextpid s \<le> nextpid t \<and> (\<forall>k \<in> pid_set t. k < nextpid s \<longrightarrow> k \<in> pid_set s)"
  using assms(1)
proof (induction rule: rtranclp_induct)
  case base
  then show ?case by simp
next
  case (step t u)
  have "kinv t" using kern.steps_inv[OF step(1) assms(2)] .
  from pids_kstep[OF this step(2)] step.IH show ?case by auto
qed

end
