(* ===== verification/Xv6_Syscall.thy ===== *)
theory Xv6_Syscall
  imports Xv6_Info
begin

text \<open>
  \<open>hw4/syscall.c\<close> and \<open>hw4/sysproc.c\<close>: fetching the arguments of a system call from user
  memory, the dispatch table, and the wrappers. The memory of the current process is a
  function from addresses to bytes; x86 stores words with the low byte first.
\<close>

unbundle bit_operations_syntax

section \<open>User memory\<close>

type_synonym mem = "uint32 \<Rightarrow> 8 word"

definition load32 :: "mem \<Rightarrow> uint32 \<Rightarrow> uint32" where
  "load32 m a = ucast (m a) OR push_bit 8 (ucast (m (a + 1))) OR
     push_bit 16 (ucast (m (a + 2))) OR push_bit 24 (ucast (m (a + 3)))"

definition store32 :: "mem \<Rightarrow> uint32 \<Rightarrow> uint32 \<Rightarrow> mem" where
  "store32 m a v = m(a := ucast v, a + 1 := ucast (drop_bit 8 v),
     a + 2 := ucast (drop_bit 16 v), a + 3 := ucast (drop_bit 24 v))"

text \<open>The layout of \<open>struct processInfo\<close>: five words.\<close>

definition load_pinfo :: "mem \<Rightarrow> uint32 \<Rightarrow> processInfo" where
  "load_pinfo m a = \<lparr>pi_state = sint (load32 m a), pi_ppid = sint (load32 m (a + 4)),
     pi_sz = sint (load32 m (a + 8)), pi_nfd = sint (load32 m (a + 12)),
     pi_nrswitch = sint (load32 m (a + 16))\<rparr>"

definition store_pinfo :: "mem \<Rightarrow> uint32 \<Rightarrow> processInfo \<Rightarrow> mem" where
  "store_pinfo m a p =
     store32 (store32 (store32 (store32 (store32 m a (word_of_int (pi_state p)))
       (a + 4) (word_of_int (pi_ppid p))) (a + 8) (word_of_int (pi_sz p)))
       (a + 12) (word_of_int (pi_nfd p))) (a + 16) (word_of_int (pi_nrswitch p))"

definition PINFO_SIZE :: cint where
  "PINFO_SIZE = 20" \<comment> \<open>\<open>sizeof(struct processInfo)\<close>\<close>

section \<open>Fetching arguments\<close>

text \<open>\<open>None\<close> is the return value -1; \<open>Some v\<close> is 0 with \<open>v\<close> stored through the pointer.\<close>

definition fetchint :: "proc \<Rightarrow> mem \<Rightarrow> uint32 \<Rightarrow> uint32 option" where
  "fetchint p m addr =
     (if addr \<ge> sz p \<or> addr + 4 > sz p then None else Some (load32 m addr))"

function fetchstr_loop :: "mem \<Rightarrow> uint32 \<Rightarrow> uint32 \<Rightarrow> uint32 \<Rightarrow> cint" where
  "fetchstr_loop m pp ep s =
     (if s < ep then (if m s = 0 then sint (s - pp) else fetchstr_loop m pp ep (s + 1)) else -1)"
  by pat_completeness auto
termination
proof (relation "measure (\<lambda>(m, pp, ep, s). unat ep - unat s)")
  fix m :: mem and pp ep s :: uint32
  assume "s < ep"
  then have "unat s < unat ep" by (simp add: word_less_nat_alt)
  moreover have "unat (s + 1) = unat s + 1"
  proof -
    have "unat ep < 2 ^ 32" using unsigned_less[of ep] by simp
    with \<open>unat s < unat ep\<close> show ?thesis by (simp add: unat_word_ariths)
  qed
  ultimately show "((m, pp, ep, s + 1), m, pp, ep, s) \<in> measure (\<lambda>(m, pp, ep, s). unat ep - unat s)"
    by simp
qed simp

declare fetchstr_loop.simps [simp del]

text \<open>The result of \<open>fetchstr\<close>, and the pointer it stores when the address is valid.\<close>

definition fetchstr :: "proc \<Rightarrow> mem \<Rightarrow> uint32 \<Rightarrow> cint \<times> uint32 option" where
  "fetchstr p m addr =
     (if addr \<ge> sz p then (-1, None) else (fetchstr_loop m addr (sz p) addr, Some addr))"

definition argint :: "proc \<Rightarrow> mem \<Rightarrow> cint \<Rightarrow> uint32 option" where
  "argint p m n = fetchint p m (tf_esp (tframe p) + 4 + 4 * word_of_int n)"

definition argptr :: "proc \<Rightarrow> mem \<Rightarrow> cint \<Rightarrow> cint \<Rightarrow> uint32 option" where
  "argptr p m n len =
     (case argint p m n of None \<Rightarrow> None
      | Some i \<Rightarrow> if len < 0 \<or> i \<ge> sz p \<or> i + word_of_int len > sz p then None else Some i)"

definition argstr :: "proc \<Rightarrow> mem \<Rightarrow> cint \<Rightarrow> cint \<times> uint32 option" where
  "argstr p m n = (case argint p m n of None \<Rightarrow> (-1, None) | Some addr \<Rightarrow> fetchstr p m addr)"

section \<open>The system calls of sysproc.c\<close>

text \<open>
  How a system call ends for now: it returns a value, sleeps (and goes on when the process
  is scheduled again), never returns, or stops the kernel.
\<close>

datatype outcome = Returns cint | Sleeps | Exits | Faults kfault

type_synonym 'w sysfun = "nat \<Rightarrow> 'w kstate \<Rightarrow> mem \<Rightarrow> outcome \<times> 'w kstate \<times> mem"

definition sys_fork :: "kconf \<Rightarrow> 'w kext \<Rightarrow> 'w sysfun" where
  "sys_fork K E cur s m = (let (r, t) = fork K E cur s in (Returns r, t, m))"

definition sys_exit :: "'w kext \<Rightarrow> 'w sysfun" where
  "sys_exit E cur s m =
     (case kexit E cur s of Inl e \<Rightarrow> (Faults e, s, m) | Inr t \<Rightarrow> (Exits, t, m))"

definition sys_wait :: "'w kext \<Rightarrow> 'w sysfun" where
  "sys_wait E cur s m =
     (case wait_iter E cur s of (Some r, t) \<Rightarrow> (Returns r, t, m) | (None, t) \<Rightarrow> (Sleeps, t, m))"

definition sys_kill :: "'w sysfun" where
  "sys_kill cur s m =
     (case argint (ptable s ! cur) m 0 of None \<Rightarrow> (Returns (-1), s, m)
      | Some n \<Rightarrow> (let (r, t) = kill (sint n) s in (Returns r, t, m)))"

definition sys_getpid :: "'w sysfun" where
  "sys_getpid cur s m = (Returns (pid (ptable s ! cur)), s, m)"

definition sys_sbrk :: "'w kext \<Rightarrow> 'w sysfun" where
  "sys_sbrk E cur s m =
     (case argint (ptable s ! cur) m 0 of None \<Rightarrow> (Returns (-1), s, m)
      | Some n \<Rightarrow>
          (let addr = sint (sz (ptable s ! cur)); (r, t) = growproc E cur (sint n) s
           in if r < 0 then (Returns (-1), t, m) else (Returns addr, t, m)))"

text \<open>
  One test of the loop of \<open>sys_sleep\<close>, which compares unsigned numbers (\<open>ticks\<close> is a
  \<open>uint\<close>, so \<open>n\<close> is converted); \<open>ticks0\<close> is the tick count at the start of the call.
\<close>

definition sys_sleep_iter :: "uint32 \<Rightarrow> uint32 \<Rightarrow> uint32 \<Rightarrow> 'w sysfun" where
  "sys_sleep_iter ticks ticks0 n cur s m =
     (if ticks - ticks0 < n
      then (if killed (ptable s ! cur) \<noteq> 0 then (Returns (-1), s, m)
            else (Sleeps, sleep_enter cur TicksChan s, m))
      else (Returns 0, s, m))"

definition sys_sleep :: "uint32 \<Rightarrow> 'w sysfun" where
  "sys_sleep ticks cur s m =
     (case argint (ptable s ! cur) m 0 of None \<Rightarrow> (Returns (-1), s, m)
      | Some n \<Rightarrow> sys_sleep_iter ticks ticks n cur s m)"

definition sys_uptime :: "uint32 \<Rightarrow> 'w sysfun" where
  "sys_uptime ticks cur s m = (Returns (sint ticks), s, m)"

definition sys_getNumProc :: "'w sysfun" where
  "sys_getNumProc cur s m = (Returns (getNumProc s), s, m)"

definition sys_getMaxPid :: "'w sysfun" where
  "sys_getMaxPid cur s m = (Returns (getMaxPid s), s, m)"

definition sys_getProcInfo :: "'w sysfun" where
  "sys_getProcInfo cur s m =
     (case argint (ptable s ! cur) m 0 of None \<Rightarrow> (Returns (-1), s, m)
      | Some n \<Rightarrow>
          (case argptr (ptable s ! cur) m 1 PINFO_SIZE of None \<Rightarrow> (Returns (-1), s, m)
           | Some a \<Rightarrow>
               (let (r, pinfo) = getProcInfo (sint n) (load_pinfo m a) s
                in (Returns r, s, if r = 0 then store_pinfo m a pinfo else m))))"

section \<open>The dispatch table\<close>

datatype sysname = S_fork | S_exit | S_wait | S_pipe | S_read | S_kill | S_exec | S_fstat
  | S_chdir | S_dup | S_getpid | S_sbrk | S_sleep | S_uptime | S_open | S_write | S_mknod
  | S_unlink | S_link | S_mkdir | S_close | S_getNumProc | S_getMaxPid | S_getProcInfo

text \<open>The numbers of \<open>syscall.h\<close>; the stub of \<open>usys.S\<close> for a call loads its number into \<open>eax\<close>.\<close>

fun SYS :: "sysname \<Rightarrow> nat" where
  "SYS S_fork = 1" | "SYS S_exit = 2" | "SYS S_wait = 3" | "SYS S_pipe = 4"
| "SYS S_read = 5" | "SYS S_kill = 6" | "SYS S_exec = 7" | "SYS S_fstat = 8"
| "SYS S_chdir = 9" | "SYS S_dup = 10" | "SYS S_getpid = 11" | "SYS S_sbrk = 12"
| "SYS S_sleep = 13" | "SYS S_uptime = 14" | "SYS S_open = 15" | "SYS S_write = 16"
| "SYS S_mknod = 17" | "SYS S_unlink = 18" | "SYS S_link = 19" | "SYS S_mkdir = 20"
| "SYS S_close = 21" | "SYS S_getNumProc = 22" | "SYS S_getMaxPid = 23"
| "SYS S_getProcInfo = 24"

text \<open>The array \<open>syscalls\<close> of \<open>syscall.c\<close>; entry 0 has no initialiser and is null.\<close>

definition syscalls :: "sysname option list" where
  "syscalls = [None, Some S_fork, Some S_exit, Some S_wait, Some S_pipe, Some S_read,
     Some S_kill, Some S_exec, Some S_fstat, Some S_chdir, Some S_dup, Some S_getpid,
     Some S_sbrk, Some S_sleep, Some S_uptime, Some S_open, Some S_write, Some S_mknod,
     Some S_unlink, Some S_link, Some S_mkdir, Some S_close, Some S_getNumProc,
     Some S_getMaxPid, Some S_getProcInfo]"

text \<open>The function a table entry names; those of \<open>sysfile.c\<close> and \<open>exec.c\<close> are \<open>others\<close>.\<close>

fun sys_function ::
  "kconf \<Rightarrow> 'w kext \<Rightarrow> uint32 \<Rightarrow> (sysname \<Rightarrow> 'w sysfun) \<Rightarrow> sysname \<Rightarrow> 'w sysfun" where
  "sys_function K E ticks others S_fork = sys_fork K E"
| "sys_function K E ticks others S_exit = sys_exit E"
| "sys_function K E ticks others S_wait = sys_wait E"
| "sys_function K E ticks others S_kill = sys_kill"
| "sys_function K E ticks others S_getpid = sys_getpid"
| "sys_function K E ticks others S_sbrk = sys_sbrk E"
| "sys_function K E ticks others S_sleep = sys_sleep ticks"
| "sys_function K E ticks others S_uptime = sys_uptime ticks"
| "sys_function K E ticks others S_getNumProc = sys_getNumProc"
| "sys_function K E ticks others S_getMaxPid = sys_getMaxPid"
| "sys_function K E ticks others S_getProcInfo = sys_getProcInfo"
| "sys_function K E ticks others f = others f"

definition set_eax :: "nat \<Rightarrow> cint \<Rightarrow> 'w kstate \<Rightarrow> 'w kstate" where
  "set_eax cur r s = upd_proc cur (\<lambda>p. p\<lparr>tframe := (tframe p)\<lparr>tf_eax := word_of_int r\<rparr>\<rparr>) s"

text \<open>
  \<open>syscall\<close>: the call number is in \<open>eax\<close>, and so is the result, once the function returns.
  The last component is what the kernel prints.
\<close>

definition syscall ::
  "kconf \<Rightarrow> 'w kext \<Rightarrow> uint32 \<Rightarrow> (sysname \<Rightarrow> 'w sysfun) \<Rightarrow> nat \<Rightarrow> 'w kstate \<Rightarrow> mem \<Rightarrow>
   outcome \<times> 'w kstate \<times> mem \<times> kout list" where
  "syscall K E ticks others cur s m =
     (let p = ptable s ! cur; num = sint (tf_eax (tframe p)) in
      case (if num > 0 \<and> num < int (length syscalls) then syscalls ! nat num else None) of
        Some f \<Rightarrow>
          (case sys_function K E ticks others f cur s m of
             (Returns r, t, m') \<Rightarrow> (Returns r, set_eax cur r t, m', [])
           | (out, t, m') \<Rightarrow> (out, t, m', []))
      | None \<Rightarrow> (Returns (-1), set_eax cur (-1) s, m,
                 [OutInt (pid p), OutStr (name p), OutInt num]))"

section \<open>Loads and stores\<close>

lemma load_store_same [simp]: "load32 (store32 m a v) a = v"
proof -
  have ne: "a + 1 \<noteq> a" "a + 2 \<noteq> a" "a + 3 \<noteq> a" "a + 2 \<noteq> a + 1" "a + 3 \<noteq> a + 1" "a + 3 \<noteq> a + 2"
    by simp_all
  have "load32 (store32 m a v) a = ucast (ucast v :: 8 word) OR push_bit 8 (ucast (ucast (drop_bit 8 v) :: 8 word)) OR
     push_bit 16 (ucast (ucast (drop_bit 16 v) :: 8 word)) OR push_bit 24 (ucast (ucast (drop_bit 24 v) :: 8 word))"
    using ne by (simp add: load32_def store32_def)
  also have "\<dots> = v"
  proof (rule bit_word_eqI)
    fix n assume "n < LENGTH(32)"
    then consider "n < 8" | "8 \<le> n" "n < 16" | "16 \<le> n" "n < 24" | "24 \<le> n" "n < 32" by fastforce
    then show "bit ((ucast (ucast v :: 8 word) :: uint32) OR push_bit 8 (ucast (ucast (drop_bit 8 v) :: 8 word)) OR
        push_bit 16 (ucast (ucast (drop_bit 16 v) :: 8 word)) OR
        push_bit 24 (ucast (ucast (drop_bit 24 v) :: 8 word))) n = bit v n"
      by cases (auto simp: bit_or_iff bit_push_bit_iff bit_ucast_iff bit_drop_bit_eq)
  qed
  finally show ?thesis .
qed

text \<open>A store leaves every byte outside its four alone.\<close>

lemma store32_other: "x \<notin> {a, a + 1, a + 2, a + 3} \<Longrightarrow> store32 m a v x = m x"
  by (simp add: store32_def)

lemma load_store_apart:
  "{a, a + 1, a + 2, a + 3} \<inter> {b, b + 1, b + 2, b + 3} = {} \<Longrightarrow> load32 (store32 m b v) a = load32 m a"
  by (auto simp: load32_def store32_def)

lemma offset_neq: "(a :: uint32) + x = a + y \<longleftrightarrow> x = y"
  by simp

lemma sint_word_of_int_range:
  "- 2147483648 \<le> x \<Longrightarrow> x < 2147483648 \<Longrightarrow> sint (word_of_int x :: uint32) = x"
  by (simp add: signed_of_int signed_take_bit_int_eq_self)

text \<open>The five stores of a structure do not overlap, so reading it back gives it.\<close>

lemma load_store_pinfo:
  assumes "\<And>x. x \<in> {pi_state p, pi_ppid p, pi_sz p, pi_nfd p, pi_nrswitch p} \<Longrightarrow>
      - 2147483648 \<le> x \<and> x < 2147483648"
  shows "load_pinfo (store_pinfo m a p) a = p"
  using assms
  by (simp add: load_pinfo_def store_pinfo_def load_store_apart add.assoc sint_word_of_int_range)

lemma store_pinfo_other:
  assumes "\<And>k. k < 20 \<Longrightarrow> x \<noteq> a + k"
  shows "store_pinfo m a p x = m x"
proof -
  have "x \<notin> {a + k, a + k + 1, a + k + 2, a + k + 3}" if "k \<in> {0, 4, 8, 12, 16}" for k
    using that assms[of k] assms[of "k + 1"] assms[of "k + 2"] assms[of "k + 3"]
    by (auto simp: add.assoc)
  from this[of 0] this[of 4] this[of 8] this[of 12] this[of 16] show ?thesis
    by (simp add: store_pinfo_def store32_other)
qed

section \<open>Arguments are inside the address space\<close>

lemma unat_add_less: "unat (a :: uint32) + k < 2 ^ 32 \<Longrightarrow> unat (a + of_nat k) = unat a + k"
  by (simp add: unat_word_ariths unsigned_of_nat take_bit_nat_eq_self)

lemma fetchint_ok:
  assumes "sz p \<le> 0x80000000" "unat addr + 4 \<le> unat (sz p)"
  shows "fetchint p m addr = Some (load32 m addr)"
proof -
  have "unat (sz p) \<le> 2147483648" using assms(1) by (simp add: word_le_nat_alt)
  then have "unat (addr + 4) = unat addr + 4" using assms(2) unat_add_less[of addr 4] by simp
  then have "addr < sz p" "addr + 4 \<le> sz p" using assms(2) by (simp_all add: word_less_nat_alt word_le_nat_alt)
  then have "\<not> (addr \<ge> sz p \<or> addr + 4 > sz p)" by (meson leD)
  then show ?thesis by (simp only: fetchint_def if_False)
qed

lemma argptr_ok:
  assumes "sz p \<le> 0x80000000" "argint p m n = Some a" "0 \<le> len" "unat a < unat (sz p)"
    "unat a + nat len \<le> unat (sz p)"
  shows "argptr p m n len = Some a"
proof -
  have "unat (sz p) \<le> 2147483648" using assms(1) by (simp add: word_le_nat_alt)
  moreover have "(word_of_int len :: uint32) = of_nat (nat len)" by (simp only: of_nat_nat[OF assms(3)])
  moreover have "unat a + nat len < 2 ^ 32" using assms(5) calculation(1) by simp
  ultimately have "unat (a + word_of_int len) = unat a + nat len" by (simp only: unat_add_less)
  then have "a < sz p" "a + word_of_int len \<le> sz p" using assms by (simp_all add: word_less_nat_alt word_le_nat_alt)
  then have "\<not> (len < 0 \<or> a \<ge> sz p \<or> a + word_of_int len > sz p)" using assms(3) by (meson leD)
  then show ?thesis by (simp only: argptr_def assms(2) option.case if_False)
qed

lemma fetchint_in_bounds:
  assumes "fetchint p m addr = Some v" "sz p \<le> 0x80000000"
  shows "unat addr + 4 \<le> unat (sz p)" "v = load32 m addr"
proof -
  from assms have a: "addr < sz p" "addr + 4 \<le> sz p" "v = load32 m addr"
    by (auto simp: fetchint_def split: if_splits)
  have "unat (sz p) \<le> 2147483648" using assms(2) by (simp add: word_le_nat_alt)
  moreover have "unat addr < unat (sz p)" using a(1) by (simp add: word_less_nat_alt)
  ultimately have "unat (addr + 4) = unat addr + 4" by (simp add: unat_word_ariths)
  with a(2) show "unat addr + 4 \<le> unat (sz p)" by (simp add: word_le_nat_alt)
  show "v = load32 m addr" by (rule a(3))
qed

lemma argptr_in_bounds:
  assumes "argptr p m n len = Some a" "sz p \<le> 0x80000000" "len < 2147483648"
  shows "0 \<le> len" "unat a + nat len \<le> unat (sz p)"
    "argint p m n = Some a"
proof -
  from assms have a: "0 \<le> len" "a < sz p" "a + word_of_int len \<le> sz p" "argint p m n = Some a"
    by (auto simp: argptr_def not_less split: option.splits if_splits)
  have "unat (sz p) \<le> 2147483648" using assms(2) by (simp add: word_le_nat_alt)
  moreover have "unat a < unat (sz p)" using a(2) by (simp add: word_less_nat_alt)
  moreover have l: "unat (word_of_int len :: uint32) = nat len"
    using a(1) assms(3) by (simp add: unsigned_of_int take_bit_int_eq_self)
  ultimately have "unat (a + word_of_int len) = unat a + nat len"
    using assms(3) a(1) by (simp add: unat_word_ariths)
  with a(3) show "unat a + nat len \<le> unat (sz p)" by (simp add: word_le_nat_alt)
  show "0 \<le> len" "argint p m n = Some a" by (rule a(1), rule a(4))
qed

text \<open>
  \<open>fetchstr_loop\<close> finds the first null byte at or after \<open>s\<close>, if one is below \<open>ep\<close>.
\<close>

lemma fetchstr_loop_found:
  assumes "\<forall>j<k. m (s + of_nat j) \<noteq> 0" "m (s + of_nat k) = 0" "unat s + k < unat ep"
  shows "fetchstr_loop m pp ep s = sint (s + of_nat k - pp)"
  using assms
proof (induction k arbitrary: s)
  case 0
  then show ?case by (simp add: fetchstr_loop.simps[of m pp ep s] word_less_nat_alt)
next
  case (Suc k)
  have lt: "s < ep" using Suc.prems(3) by (simp add: word_less_nat_alt)
  have "unat ep < 2 ^ 32" using unsigned_less[of ep] by simp
  then have u: "unat (s + 1) = unat s + 1" using unat_add_less[of s 1] Suc.prems(3) by simp
  have "m s \<noteq> 0" using Suc.prems(1) by force
  moreover have "fetchstr_loop m pp ep (s + 1) = sint (s + 1 + of_nat k - pp)"
  proof (rule Suc.IH)
    show "\<forall>j<k. m (s + 1 + of_nat j) \<noteq> 0"
      using Suc.prems(1) by (metis Suc_less_eq add.assoc of_nat_Suc)
    show "m (s + 1 + of_nat k) = 0" using Suc.prems(2) by (simp add: add.assoc)
    show "unat (s + 1) + k < unat ep" using Suc.prems(3) u by simp
  qed
  ultimately show ?case using lt by (simp add: fetchstr_loop.simps[of m pp ep s] add.assoc)
qed

lemma fetchstr_loop_none:
  assumes "\<forall>j. unat s + j < unat ep \<longrightarrow> m (s + of_nat j) \<noteq> 0"
  shows "fetchstr_loop m pp ep s = -1"
  using assms
proof (induction m pp ep s rule: fetchstr_loop.induct)
  case (1 m pp ep s)
  show ?case
  proof (cases "s < ep")
    case False
    then show ?thesis by (simp add: fetchstr_loop.simps[of m pp ep s])
  next
    case True
    then have lt: "unat s < unat ep" by (simp add: word_less_nat_alt)
    have "unat ep < 2 ^ 32" using unsigned_less[of ep] by simp
    then have u: "unat (s + 1) = unat s + 1" using unat_add_less[of s 1] lt by simp
    have ns: "m s \<noteq> 0" using "1.prems"[rule_format, of 0] lt by simp
    have "\<forall>j. unat (s + 1) + j < unat ep \<longrightarrow> m (s + 1 + of_nat j) \<noteq> 0"
      using "1.prems" u by (metis add.assoc of_nat_Suc add_Suc_right add_Suc Suc_eq_plus1)
    with "1.IH" True ns have "fetchstr_loop m pp ep (s + 1) = -1" by simp
    with True ns show ?thesis by (simp add: fetchstr_loop.simps[of m pp ep s])
  qed
qed

end
