(* ===== verification/Xv6_Ps.thy ===== *)
theory Xv6_Ps
  imports Xv6_Info "HOL-Library.Multiset"
begin

text \<open>
  \<open>hw4/ps.c\<close>. Between two system calls of \<open>ps\<close> the other processes run, so the kernel
  state a call sees depends on the call: \<open>obs\<close> maps each pid of the first loop, and \<open>obs2\<close>
  each pid of the second, to the state in which \<open>getProcInfo\<close> runs.
\<close>

section \<open>The sort\<close>

definition sort_swap :: "cint list \<Rightarrow> nat \<Rightarrow> cint list" where
  "sort_swap pids j =
     (if pids ! j > pids ! (j + 1)
      then (let temp = pids ! j in (pids[j := pids ! (j + 1)])[j + 1 := temp]) else pids)"

definition sort_pass :: "nat \<Rightarrow> cint list \<Rightarrow> cint list" where
  "sort_pass m pids = foldl sort_swap pids [0..<m]"

definition sortPids :: "cint list \<Rightarrow> nat \<Rightarrow> cint list" where
  "sortPids pids n = foldl (\<lambda>ps i. sort_pass (n - i - 1) ps) pids [0..<n - 1]"

section \<open>The main program\<close>

text \<open>The array \<open>pids\<close> has 64 entries; \<open>None\<close> stands for a write past its end.\<close>

definition PIDS_SIZE :: nat where
  "PIDS_SIZE = 64"

definition no_info :: processInfo where
  "no_info = \<lparr>pi_state = 0, pi_ppid = 0, pi_sz = 0, pi_nfd = 0, pi_nrswitch = 0\<rparr>"

function ps_scan :: "(cint \<Rightarrow> 'w kstate) \<Rightarrow> cint \<Rightarrow> cint \<Rightarrow> cint list \<Rightarrow> cint list option" where
  "ps_scan obs k maxPid pids =
     (if k \<le> maxPid
      then (if fst (getProcInfo k no_info (obs k)) = 0
            then (if length pids < PIDS_SIZE then ps_scan obs (k + 1) maxPid (pids @ [k]) else None)
            else ps_scan obs (k + 1) maxPid pids)
      else Some pids)"
  by pat_completeness auto
termination
  by (relation "measure (\<lambda>(obs, k, maxPid, pids). nat (maxPid + 1 - k))") auto

declare ps_scan.simps [simp del]

definition stateNames :: "string list" where
  "stateNames = [''unused'', ''embryo'', ''sleeping'', ''runnable'', ''running'', ''zombie'']"

datatype ps_line = PsTotal cint | PsMaxPid cint | PsHeader | PsRow cint string cint cint cint cint

definition ps_row :: "cint \<Rightarrow> processInfo \<Rightarrow> ps_line" where
  "ps_row k pinfo =
     PsRow k (if pi_state pinfo \<ge> 1 \<and> pi_state pinfo \<le> 5
                then stateNames ! nat (pi_state pinfo) else ''unknown'')
       (pi_ppid pinfo) (pi_sz pinfo) (pi_nfd pinfo) (pi_nrswitch pinfo)"

definition ps_rows :: "(cint \<Rightarrow> 'w kstate) \<Rightarrow> cint list \<Rightarrow> ps_line list" where
  "ps_rows obs2 pids = concat (map (\<lambda>k. case getProcInfo k no_info (obs2 k) of
       (r, pinfo) \<Rightarrow> if r = 0 then [ps_row k pinfo] else []) pids)"

text \<open>\<open>s1\<close> and \<open>s2\<close> are the states of the calls \<open>getNumProc\<close> and \<open>getMaxPid\<close>.\<close>

definition ps_main ::
  "'w kstate \<Rightarrow> 'w kstate \<Rightarrow> (cint \<Rightarrow> 'w kstate) \<Rightarrow> (cint \<Rightarrow> 'w kstate) \<Rightarrow> ps_line list option" where
  "ps_main s1 s2 obs obs2 =
     (case ps_scan obs 1 (getMaxPid s2) [] of None \<Rightarrow> None
      | Some pids \<Rightarrow>
          Some ([PsTotal (getNumProc s1), PsMaxPid (getMaxPid s2), PsHeader] @
                ps_rows obs2 (sortPids pids (length pids))))"

section \<open>The sort is correct\<close>

lemma length_sort_swap [simp]: "length (sort_swap xs j) = length xs"
  by (simp add: sort_swap_def Let_def)

lemma length_sort_pass [simp]: "length (sort_pass m xs) = length xs"
proof -
  have "length (foldl sort_swap xs js) = length xs" for js
    by (induction js arbitrary: xs) auto
  then show ?thesis by (simp add: sort_pass_def)
qed

lemma mset_sort_swap: "j + 1 < length xs \<Longrightarrow> mset (sort_swap xs j) = mset xs"
  using mset_swap[of "j + 1" xs j] by (simp add: sort_swap_def Let_def)

lemma sort_pass_Suc: "sort_pass (Suc m) xs = sort_swap (sort_pass m xs) m"
  by (simp add: sort_pass_def)

text \<open>
  One pass over the first \<open>m + 1\<close> entries moves a largest one of them to position \<open>m\<close> and
  leaves the entries behind it alone.
\<close>

lemma sort_pass_spec:
  assumes "m < length xs"
  shows "mset (sort_pass m xs) = mset xs" "\<forall>k. m < k \<longrightarrow> sort_pass m xs ! k = xs ! k"
    "\<forall>k\<le>m. sort_pass m xs ! k \<le> sort_pass m xs ! m"
  using assms
proof (induction m)
  case 0
  { case 1 show ?case by (simp add: sort_pass_def) }
  { case 2 show ?case by (simp add: sort_pass_def) }
  { case 3 show ?case by simp }
next
  case (Suc m)
  let ?y = "sort_pass m xs"
  { case 1
    then show ?case using Suc.IH(1) mset_sort_swap[of m ?y] by (simp add: sort_pass_Suc) }
  { case 2
    then show ?case using Suc.IH(2) by (auto simp: sort_pass_Suc sort_swap_def Let_def) }
  { case 3
    then have IH: "\<forall>k\<le>m. ?y ! k \<le> ?y ! m" and l: "m + 1 < length ?y" using Suc.IH(3) by auto
    show ?case
    proof (intro allI impI)
      fix k assume k: "k \<le> Suc m"
      show "sort_pass (Suc m) xs ! k \<le> sort_pass (Suc m) xs ! Suc m"
      proof (cases "?y ! m > ?y ! (m + 1)")
        case True
        then show ?thesis using IH k l
          by (cases "k = Suc m"; cases "k = m") (simp_all add: sort_pass_Suc sort_swap_def Let_def)
      next
        case False
        then show ?thesis using IH k
          by (cases "k = Suc m") (auto simp: sort_pass_Suc sort_swap_def intro: order_trans[of _ "?y ! m"])
      qed
    qed }
qed

lemma sort_pass_take:
  assumes "m < length xs"
  shows "mset (take (Suc m) (sort_pass m xs)) = mset (take (Suc m) xs)"
    "drop (Suc m) (sort_pass m xs) = drop (Suc m) xs"
proof -
  show d: "drop (Suc m) (sort_pass m xs) = drop (Suc m) xs"
    using sort_pass_spec(2)[OF assms] assms by (intro nth_equalityI) auto
  have "mset (take (Suc m) (sort_pass m xs)) + mset (drop (Suc m) (sort_pass m xs)) =
        mset (take (Suc m) xs) + mset (drop (Suc m) xs)"
    using sort_pass_spec(1)[OF assms] by (simp flip: mset_append)
  then show "mset (take (Suc m) (sort_pass m xs)) = mset (take (Suc m) xs)" by (simp add: d)
qed

text \<open>
  After \<open>i\<close> passes the last \<open>i\<close> entries are sorted and no smaller than the others.
\<close>

lemma sortPids_prefix:
  assumes "i \<le> n - 1" "n = length xs"
  defines "y \<equiv> foldl (\<lambda>ps i. sort_pass (n - i - 1) ps) xs [0..<i]"
  shows "mset y = mset xs \<and> sorted (drop (n - i) y) \<and>
    (\<forall>a \<in> set (take (n - i) y). \<forall>b \<in> set (drop (n - i) y). a \<le> b)"
  using assms(1) unfolding y_def
proof (induction i)
  case 0
  then show ?case using assms(2) by simp
next
  case (Suc i)
  define y where "y = foldl (\<lambda>ps i. sort_pass (n - i - 1) ps) xs [0..<i]"
  define m where "m = n - i - 1"
  let ?y = y and ?m = m
  have IH: "mset ?y = mset xs" "sorted (drop (n - i) ?y)"
    "\<forall>a \<in> set (take (n - i) ?y). \<forall>b \<in> set (drop (n - i) ?y). a \<le> b"
    using Suc by (auto simp: y_def)
  have len: "length ?y = n" using IH(1) assms(2) by (metis size_mset)
  have m: "?m < length ?y" "Suc ?m = n - i" "n - Suc i = ?m"
    using Suc.prems by (auto simp: len m_def)
  let ?z = "sort_pass ?m ?y"
  note sp = sort_pass_spec[OF m(1)] and st = sort_pass_take[OF m(1), unfolded m(2)]
  have lz: "?m < length ?z" using m by simp
  have dz: "drop ?m ?z = ?z ! ?m # drop (n - i) ?z" using Cons_nth_drop_Suc[OF lz] m(2) by simp
  have set_t: "set (take (n - i) ?z) = set (take (n - i) ?y)" using st(1) by (metis set_mset_mset)
  have zm: "?z ! ?m \<in> set (take (n - i) ?z)"
    using lz m(2) by (auto simp: in_set_conv_nth intro!: exI[of _ ?m])
  have big: "a \<le> ?z ! ?m" if "a \<in> set (take ?m ?z)" for a
    using that sp(3) by (auto simp: in_set_conv_nth)
  have sub: "set (take ?m ?z) \<subseteq> set (take (n - i) ?z)"
    by (rule set_take_subset_set_take) (simp flip: m(2))
  have dy: "set (drop (n - i) ?z) = set (drop (n - i) ?y)" "sorted (drop (n - i) ?z)"
    using IH(2) by (simp_all only: st(2))
  have le: "a \<le> b" if "a \<in> set (take (n - i) ?z)" "b \<in> set (drop (n - i) ?z)" for a b
    using IH(3) that unfolding dy(1) set_t by blast
  have "mset ?z = mset xs" using sp(1) IH(1) by simp
  moreover have "sorted (drop ?m ?z)"
    unfolding dz using dy(2) le[OF zm] by simp
  moreover have "\<forall>a \<in> set (take ?m ?z). \<forall>b \<in> set (drop ?m ?z). a \<le> b"
  proof (intro ballI)
    fix a b assume a: "a \<in> set (take ?m ?z)" and "b \<in> set (drop ?m ?z)"
    then have "b = ?z ! ?m \<or> b \<in> set (drop (n - i) ?z)" by (simp add: dz)
    with big[OF a] le[OF subsetD[OF sub a]] show "a \<le> b" by blast
  qed
  moreover have "foldl (\<lambda>ps i. sort_pass (n - i - 1) ps) xs [0..<Suc i] = sort_pass m y"
    by (simp add: y_def m_def)
  ultimately show ?case unfolding m(3) by simp
qed

lemma sortPids_correct:
  "mset (sortPids xs (length xs)) = mset xs" "sorted (sortPids xs (length xs))"
proof -
  let ?n = "length xs"
  note p = sortPids_prefix[of "?n - 1" ?n xs, folded sortPids_def]
  show ms: "mset (sortPids xs ?n) = mset xs" using p by simp
  show "sorted (sortPids xs ?n)"
  proof (cases "?n \<le> 1")
    case True
    then have "length (sortPids xs ?n) \<le> 1" using ms by (metis size_mset)
    then show ?thesis by (cases "sortPids xs ?n") auto
  next
    case False
    then have e: "?n - (?n - 1) = 1" by simp
    have "sorted (drop 1 (sortPids xs ?n))"
      "\<forall>a \<in> set (take 1 (sortPids xs ?n)). \<forall>b \<in> set (drop 1 (sortPids xs ?n)). a \<le> b"
      using p unfolding e by auto
    then show ?thesis by (cases "sortPids xs ?n") auto
  qed
qed

section \<open>The scan\<close>

lemma ps_scan_filter:
  assumes "i \<le> maxPid + 1"
  shows "ps_scan obs i maxPid ps =
     (let found = filter (\<lambda>k. fst (getProcInfo k no_info (obs k)) = 0) [i..maxPid]
      in if length ps + length found \<le> max PIDS_SIZE (length ps) then Some (ps @ found) else None)"
  using assms
proof (induction obs i maxPid ps rule: ps_scan.induct)
  case (1 obs i maxPid ps)
  show ?case
  proof (cases "i \<le> maxPid")
    case False
    then show ?thesis by (simp add: ps_scan.simps[of obs i maxPid ps])
  next
    case True
    then have u: "[i..maxPid] = i # [i + 1..maxPid]" by (simp add: upto_rec1)
    show ?thesis
    proof (cases "fst (getProcInfo i no_info (obs i)) = 0")
      case False
      with True "1.IH"(2) show ?thesis by (simp add: ps_scan.simps[of obs i maxPid ps] u)
    next
      case ok: True
      show ?thesis
      proof (cases "length ps < PIDS_SIZE")
        case False
        with True ok show ?thesis by (simp add: ps_scan.simps[of obs i maxPid ps] u Let_def)
      next
        case sm: True
        then have "max PIDS_SIZE (length (ps @ [i])) = max PIDS_SIZE (length ps)" by simp
        with True ok sm "1.IH"(1) show ?thesis
          by (simp add: ps_scan.simps[of obs i maxPid ps] u Let_def)
      qed
    qed
  qed
qed

end
