(* ===== verification/Xv6_Demo.thy ===== *)
theory Xv6_Demo
  imports Xv6_Info Xv6_Syscall Xv6_Ps
begin

text \<open>
  A concrete kernel with three process slots, two file descriptors per process and one CPU,
  and a run of it: init starts, forks a child and waits for it; the child runs and exits.
  The states are reachable; the properties are instantiated on them.
\<close>

definition demo_K :: kconf where
  "demo_K = \<lparr>KSTACKSIZE = 4096, TFSIZE = 76, PGSIZE = 4096, FL_IF = 512, UCODE_SEL = 27,
     UDATA_SEL = 35, forkret_addr = 0x80103000, trapret_addr = 0x80105000, ROOTDEV = 1\<rparr>"

text \<open>The external functions hand out increasing page addresses.\<close>

definition demo_E :: "uint32 kext" where
  "demo_E = \<lparr>kalloc = (\<lambda>w. (w, w + 4096)), kfree = (\<lambda>_ w. w), setupkvm = (\<lambda>w. (w, w + 4096)),
     inituvm = (\<lambda>_ w. w), allocuvm = (\<lambda>_ _ n w. (n, w)), deallocuvm = (\<lambda>_ _ n w. (n, w)),
     copyuvm = (\<lambda>_ _ w. (w, w + 4096)), freevm = (\<lambda>_ w. w), switchuvm = (\<lambda>_ w. w),
     switchkvm = (\<lambda>w. w), filedup = (\<lambda>f w. (f, w)), fileclose = (\<lambda>_ w. w), idup = (\<lambda>d w. (d, w)),
     iput = (\<lambda>_ w. w), namei = (\<lambda>_ w. (77, w)), begin_op = (\<lambda>w. w), end_op = (\<lambda>w. w),
     iinit = (\<lambda>_ w. w), initlog = (\<lambda>_ w. w), safestrcpy = (\<lambda>x n. take (n - 1) x)\<rparr>"

definition demo_boot :: "uint32 kstate" where
  "demo_boot = boot (Suc 2) 2
     [\<lparr>apicid = 0, started = 1, ncli = 0, intena = 0, cproc = None, scan = 0\<rparr>] 0x1000"

definition demo0 :: "uint32 kstate" where
  "demo0 = (case userinit demo_K demo_E demo_boot of Inr s \<Rightarrow> s | Inl _ \<Rightarrow> demo_boot)"

text \<open>The scheduler runs init; init returns from \<open>forkret\<close>; init forks; init waits.\<close>

definition demo1 :: "uint32 kstate" where
  "demo1 = scheduler_step demo_E 0 demo0"

definition demo2 :: "uint32 kstate" where
  "demo2 = set_kpos 0 KUser (forkret demo_K demo_E demo1)"

definition demo3 :: "uint32 kstate" where
  "demo3 = set_kpos 0 (KFork 1) (snd (alloc_claim demo2))"

definition demo4 :: "uint32 kstate" where
  "demo4 = set_kpos 0 KUser (snd (fork_finish demo_K demo_E 0 1 demo3))"

definition demo5 :: "uint32 kstate" where
  "demo5 = wait_run demo_E 0 0 demo4"

text \<open>The scheduler runs the child, which returns from \<open>forkret\<close> and exits.\<close>

definition demo6 :: "uint32 kstate" where
  "demo6 = scheduler_step demo_E 0 demo5"

definition demo7 :: "uint32 kstate" where
  "demo7 = set_kpos 1 KUser (forkret demo_K demo_E demo6)"

definition demo8 :: "uint32 kstate" where
  "demo8 = set_kpos 1 KExit (case exit_files demo_E 1 demo7 of Inr t \<Rightarrow> t | Inl _ \<Rightarrow> demo7)"

definition demo9 :: "uint32 kstate" where
  "demo9 = sched_return demo_E 0 (exit_final 1 demo8)"

text \<open>The scheduler runs init again.\<close>

definition demo10 :: "uint32 kstate" where
  "demo10 = scheduler_step demo_E 0 (scheduler_step demo_E 0 demo9)"

abbreviation demo_reach :: "uint32 kstate \<Rightarrow> bool" where
  "demo_reach \<equiv> reachable (kstart demo_K demo_E) (kstep demo_K demo_E)"

lemma demo0_start: "kstart demo_K demo_E demo0"
proof -
  have "userinit demo_K demo_E demo_boot = Inr demo0" by code_simp
  then show ?thesis unfolding kstart_def demo_boot_def by blast
qed

lemma demo0_reach: "demo_reach demo0"
  by (rule reach_start) (rule demo0_start)

lemma demo1_reach: "demo_reach demo1"
  unfolding demo1_def by (rule reach_step[OF demo0_reach k_schedule]) code_simp+

lemma demo2_reach: "demo_reach demo2"
  unfolding demo2_def by (rule reach_step[OF demo1_reach k_forkret[where c = 0]]) code_simp+

lemma demo3_reach: "demo_reach demo3"
proof -
  have "alloc_claim demo2 = (Some 1, snd (alloc_claim demo2))" by code_simp
  then show ?thesis
    unfolding demo3_def by (intro reach_step[OF demo2_reach] k_fork_begin[where c = 0]) code_simp+
qed

lemma demo4_reach: "demo_reach demo4"
  unfolding demo4_def by (rule reach_step[OF demo3_reach k_fork_end[where c = 0]]) code_simp+

lemma demo5_reach: "demo_reach demo5"
  unfolding demo5_def by (rule reach_step[OF demo4_reach k_wait]) code_simp+

lemma demo6_reach: "demo_reach demo6"
  unfolding demo6_def by (rule reach_step[OF demo5_reach k_schedule]) code_simp+

lemma demo7_reach: "demo_reach demo7"
  unfolding demo7_def by (rule reach_step[OF demo6_reach k_forkret[where c = 0]]) code_simp+

lemma demo8_reach: "demo_reach demo8"
proof -
  have "exit_files demo_E 1 demo7 = Inr (case exit_files demo_E 1 demo7 of Inr t \<Rightarrow> t | Inl _ \<Rightarrow> demo7)"
    by code_simp
  then show ?thesis
    unfolding demo8_def by (intro reach_step[OF demo7_reach] k_exit_begin[where c = 0]) code_simp+
qed

lemma demo9_reach: "demo_reach demo9"
  unfolding demo9_def by (rule reach_step[OF demo8_reach k_exit_end[where c = 0]]) code_simp+

lemma demo10_reach: "demo_reach demo10"
proof -
  have 1: "demo_reach (scheduler_step demo_E 0 demo9)" by (rule reach_step[OF demo9_reach k_schedule]) code_simp+
  show ?thesis unfolding demo10_def by (rule reach_step[OF 1 k_schedule]) code_simp+
qed

end
