(* ===== verification/Xv6_Props.thy ===== *)
theory Xv6_Props
  imports Xv6_Demo
begin

text \<open>
  The properties of the process table in every state the kernel can reach, and the outcome
  of each process operation, branch by branch.
\<close>

section \<open>Reachable states\<close>

text \<open>C3: In every reachable state of the kernel, two used slots with the same pid are the
  same slot, and pids are positive and below the next pid to be given out.\<close>

theorem unique_pids:
  assumes "reachable (kstart K E) (kstep K E) s"
    and "i < nproc s" "j < nproc s" "active (proc_at s i)" "active (proc_at s j)"
    and "pid (proc_at s i) = pid (proc_at s j)"
  shows "i = j \<and> 0 < pid (proc_at s i) \<and> pid (proc_at s i) < nextpid s"
  using kern.reachable_inv[OF assms(1)] assms(2-6) pid_inj pid_range by blast

theorem unique_pids_witness:
  "(1::nat) = 1 \<and> 0 < pid (proc_at demo5 1) \<and> pid (proc_at demo5 1) < nextpid demo5"
  by (rule unique_pids[OF demo5_reach]) code_simp+

text \<open>C4: No lost wakeup between exit and wait. In every reachable state, a process that is
  asleep in wait sleeps on its own structure and has no zombie child: a child that exits,
  and a zombie handed over to init, wake the parent under the same lock.\<close>

theorem no_lost_wakeup:
  assumes "reachable (kstart K E) (kstep K E) s" "i < nproc s"
    and "state (proc_at s i) = SLEEPING" "kpos (proc_at s i) = KWait"
  shows "chan (proc_at s i) = ProcChan i \<and>
    (\<forall>j<nproc s. parent (proc_at s j) = Some i \<longrightarrow> state (proc_at s j) \<noteq> ZOMBIE)"
  using wait_asleep[OF kern.reachable_inv[OF assms(1)] assms(2-4)] by blast

theorem no_lost_wakeup_witness:
  "chan (proc_at demo5 0) = ProcChan 0 \<and> parent (proc_at demo5 1) = Some 0 \<and> state (proc_at demo5 1) \<noteq> ZOMBIE"
proof -
  have h: "(0::nat) < nproc demo5" "state (proc_at demo5 0) = SLEEPING" "kpos (proc_at demo5 0) = KWait"
    "(1::nat) < nproc demo5" "parent (proc_at demo5 1) = Some 0" by code_simp+
  show ?thesis using no_lost_wakeup[OF demo5_reach h(1-3)] h(4,5) by blast
qed

text \<open>C5: In every reachable state no two CPUs run the same process, and a process is in state
  RUNNING exactly when some CPU runs it.\<close>

theorem cpus_exclusive:
  assumes "reachable (kstart K E) (kstep K E) s"
  shows "(\<forall>c<length (cpus s). \<forall>d<length (cpus s). \<forall>i.
           cproc (cpus s ! c) = Some i \<longrightarrow> cproc (cpus s ! d) = Some i \<longrightarrow> c = d) \<and>
    (\<forall>i<nproc s. state (proc_at s i) = RUNNING \<longleftrightarrow>
       (\<exists>c<length (cpus s). cproc (cpus s ! c) = Some i))"
proof -
  have "cpus_ok s" using kern.reachable_inv[OF assms] by (simp only: kinv_def)
  then show ?thesis unfolding cpus_ok_def by metis
qed

theorem cpus_exclusive_witness:
  "state (proc_at demo2 0) = RUNNING \<and> (\<exists>c<length (cpus demo2). cproc (cpus demo2 ! c) = Some 0)"
proof -
  have h: "(0::nat) < nproc demo2" "state (proc_at demo2 0) = RUNNING" by code_simp+
  show ?thesis using cpus_exclusive[OF demo2_reach] h by blast
qed

text \<open>In every reachable state each process that can run or is a zombie, other than the
  one with pid 1, has a parent that can run and has a smaller pid: no process is ever left
  without a parent that can reap it, and the parent relation has no cycle.\<close>

lemma parent_alive:
  assumes "reachable (kstart K E) (kstep K E) s" "i < nproc s"
    and "live (proc_at s i) \<or> state (proc_at s i) = ZOMBIE" "pid (proc_at s i) \<noteq> 1"
  shows "\<exists>q<nproc s. parent (proc_at s i) = Some q \<and> live (proc_at s q) \<and>
    pid (proc_at s q) < pid (proc_at s i)"
proof -
  have inv: "kinv s" using kern.reachable_inv[OF assms(1)] .
  obtain k where "initproc s = Some k" "pid (proc_at s k) = 1" using init_procE[OF inv] by metis
  with assms(4) have "initproc s \<noteq> Some i" by auto
  from parentE[OF inv assms(2,3) this] show ?thesis by metis
qed

lemma parent_alive_witness:
  "\<exists>q<nproc demo9. parent (proc_at demo9 1) = Some q \<and> live (proc_at demo9 q) \<and>
    pid (proc_at demo9 q) < pid (proc_at demo9 1)"
  by (rule parent_alive[OF demo9_reach]) code_simp+

text \<open>C6: Pids are never reused: if a pid that was already given out in a reachable state is in
  use after any number of further steps, then it was in use before them.\<close>

theorem pid_not_reused:
  assumes "reachable (kstart K E) (kstep K E) s" "(kstep K E)\<^sup>*\<^sup>* s t"
    and "k \<in> pid_set t" "k < nextpid s"
  shows "k \<in> pid_set s"
  using pids_old[OF assms(2) kern.reachable_inv[OF assms(1)]] assms(3,4) by blast

lemma demo0_steps: "(kstep demo_K demo_E)\<^sup>*\<^sup>* demo0 demo1"
  unfolding demo1_def by (rule r_into_rtranclp, rule k_schedule) code_simp+

lemma demo1_pid: "1 \<in> pid_set demo1"
  by (rule one_in_pids[OF kern.reachable_inv[OF demo1_reach]])

theorem pid_not_reused_witness: "1 \<in> pid_set demo0"
  by (rule pid_not_reused[OF demo0_reach demo0_steps demo1_pid]) code_simp

text \<open>C10: What the first two new system calls return in every reachable state: getNumProc is the
  number of used slots, between 1 and the size of the table; getMaxPid is at least that
  number, below the next pid, and the largest pid in use.\<close>

theorem numproc_maxpid:
  assumes "reachable (kstart K E) (kstep K E) s"
  shows "getNumProc s = int (card {i. i < nproc s \<and> active (proc_at s i)}) \<and>
    1 \<le> getNumProc s \<and> getNumProc s \<le> int (nproc s) \<and>
    getNumProc s \<le> getMaxPid s \<and> getMaxPid s < nextpid s \<and>
    getMaxPid s \<in> pid_set s \<and> (\<forall>k \<in> pid_set s. k \<le> getMaxPid s)"
proof -
  have inv: "kinv s" using kern.reachable_inv[OF assms] .
  have "1 \<le> getMaxPid s" using numproc_pos[OF inv] numproc_le_maxpid[OF inv] by simp
  then have "getMaxPid s \<in> pid_set s" using getMaxPid_in[of s] by (auto simp: pid_set_def intro: rev_image_eqI)
  moreover have "\<forall>k \<in> pid_set s. k \<le> getMaxPid s" using pids_range[OF inv] by auto
  ultimately show ?thesis
    using numproc_pos[OF inv] numproc_le_maxpid[OF inv] maxpid_lt_nextpid[OF inv]
      getNumProc_card[of s] getNumProc_le[of s] by simp
qed

theorem numproc_maxpid_witness:
  "getNumProc demo5 = int (card {i. i < nproc demo5 \<and> active (proc_at demo5 i)}) \<and>
    1 \<le> getNumProc demo5 \<and> getNumProc demo5 \<le> int (nproc demo5) \<and>
    getNumProc demo5 \<le> getMaxPid demo5 \<and> getMaxPid demo5 < nextpid demo5 \<and>
    getMaxPid demo5 \<in> pid_set demo5"
  using numproc_maxpid[OF demo5_reach] by blast

text \<open>C9: What getProcInfo returns in every reachable state: for the pid of a used slot, 0 and
  the state number, parent pid (0 without a parent), size, number of open files and switch
  count of exactly that slot; for every other number, among them 0 and all negative ones,
  -1 with the caller's structure untouched.\<close>

theorem getProcInfo_correct:
  assumes "reachable (kstart K E) (kstep K E) s"
  shows "(\<forall>i<nproc s. active (proc_at s i) \<longrightarrow> getProcInfo (pid (proc_at s i)) pinfo s =
      (0, pinfo\<lparr>pi_state := state_num (state (proc_at s i)),
        pi_ppid := (case parent (proc_at s i) of None \<Rightarrow> 0 | Some q \<Rightarrow> pid (proc_at s q)),
        pi_sz := sint (sz (proc_at s i)),
        pi_nfd := int (length (filter (\<lambda>f. f \<noteq> 0) (ofile (proc_at s i)))),
        pi_nrswitch := nrswitch (proc_at s i)\<rparr>)) \<and>
    (\<forall>k. k \<notin> pid_set s \<longrightarrow> getProcInfo k pinfo s = (-1, pinfo)) \<and>
    (\<forall>k \<le> 0. k \<notin> pid_set s)"
proof -
  have inv: "kinv s" using kern.reachable_inv[OF assms] .
  have "getProcInfo k pinfo s = (-1, pinfo)" if "k \<notin> pid_set s" for k
    using getProcInfo_fail_iff[of k pinfo s] that
    by (auto simp: getProcInfo_def Let_def split: option.splits)
  moreover have "k \<notin> pid_set s" if "k \<le> 0" for k using pids_nextpid[OF inv, of k] that by auto
  ultimately show ?thesis using getProcInfo_at[OF inv] by (simp add: count_fds_eq)
qed

theorem getProcInfo_correct_witness:
  "getProcInfo 2 no_info demo5 = (0, \<lparr>pi_state = 3, pi_ppid = 1, pi_sz = 4096, pi_nfd = 0,
     pi_nrswitch = 0\<rparr>) \<and> getProcInfo (-1) no_info demo5 = (-1, no_info)"
proof -
  note c = getProcInfo_correct[OF demo5_reach, of no_info]
  have i: "(1::nat) < nproc demo5" "active (proc_at demo5 1)" "pid (proc_at demo5 1) = 2" by code_simp+
  have v: "no_info\<lparr>pi_state := state_num (state (proc_at demo5 1)),
        pi_ppid := (case parent (proc_at demo5 1) of None \<Rightarrow> 0 | Some q \<Rightarrow> pid (proc_at demo5 q)),
        pi_sz := sint (sz (proc_at demo5 1)),
        pi_nfd := int (length (filter (\<lambda>f. f \<noteq> 0) (ofile (proc_at demo5 1)))),
        pi_nrswitch := nrswitch (proc_at demo5 1)\<rparr> =
      \<lparr>pi_state = 3, pi_ppid = 1, pi_sz = 4096, pi_nfd = 0, pi_nrswitch = 0\<rparr>"
    by code_simp
  show ?thesis using c i v by auto
qed

section \<open>fork\<close>

text \<open>C7: fork, branch by branch. It fails with -1 exactly when no slot is free, no kernel stack
  or no copy of the address space can be allocated, and then every used slot is as it was
  and no pid is in use that was not. Otherwise it returns the next pid, and one free slot
  holds a runnable child of the caller with that pid, the caller's size and registers, but
  for the result 0, and a context that starts in forkret; no other slot changes.\<close>

theorem fork_outcome:
  assumes "reachable (kstart K E) (kstep K E) s" "runs s c cur" "nextpid s < 2147483647"
    and "fork K E cur s = (r, t)"
  shows "(r = -1 \<longleftrightarrow> (\<forall>i<nproc s. active (proc_at s i)) \<or> fst (kalloc E (world s)) = 0 \<or>
        fst (copyuvm E (pgdir (proc_at s cur)) (sz (proc_at s cur)) (snd (kalloc E (world s)))) = 0) \<and>
    (if r = -1
     then pid_set t = pid_set s \<and> (\<forall>i<nproc s. active (proc_at s i) \<longrightarrow> proc_at t i = proc_at s i)
     else r = nextpid s \<and>
       (\<exists>np<nproc s. state (proc_at s np) = UNUSED \<and> state (proc_at t np) = RUNNABLE \<and>
          pid (proc_at t np) = r \<and> parent (proc_at t np) = Some cur \<and>
          sz (proc_at t np) = sz (proc_at s cur) \<and>
          tframe (proc_at t np) = (tframe (proc_at s cur))\<lparr>tf_eax := 0\<rparr> \<and>
          eip (kctx (proc_at t np)) = forkret_addr K \<and> nrswitch (proc_at t np) = 0 \<and>
          (\<forall>i<nproc s. i \<noteq> np \<longrightarrow> proc_at t i = proc_at s i)))"
proof (cases "fst (alloc_claim s)")
  case None
  then have n: "first_index (\<lambda>p. state p = UNUSED) (ptable s) = None"
    by (simp add: alloc_claim_def split: option.splits)
  then have "\<forall>i<nproc s. active (proc_at s i)"
    by (simp add: first_index_None all_set_conv_all_nth active_def)
  moreover have "r = -1" "t = s" using assms(4) n by (simp_all add: fork_def alloc_claim_def)
  ultimately show ?thesis by simp
next
  case (Some np)
  have inv: "kinv s" using kern.reachable_inv[OF assms(1)] .
  have run: "cur < nproc s" "state (proc_at s cur) = RUNNING" using running_cpu[OF inv] assms(2) by auto
  obtain s1 where cl: "alloc_claim s = (Some np, s1)" using Some by (metis prod.collapse)
  note c = alloc_claim_SomeD[OF cl]
  have ne: "cur \<noteq> np" using c(2) run(2) by auto
  have s1: "np < nproc s1" "proc_at s1 cur = proc_at s cur" "world s1 = world s" "pid (proc_at s1 np) = nextpid s"
    "nrswitch (proc_at s1 np) = 0" "\<And>i. i < nproc s \<Longrightarrow> i \<noteq> np \<Longrightarrow> proc_at s1 i = proc_at s i" "nproc s1 = nproc s"
    using c(1) ne by (simp_all add: c(4))
  have ff: "r = fst (fork_finish K E cur np s1)" "t = snd (fork_finish K E cur np s1)"
    using assms(4) by (simp_all add: fork_def cl)
  have free: "\<not> (\<forall>i<nproc s. active (proc_at s i))" using c(1,2) by (auto simp: active_def)
  have pos: "nextpid s \<noteq> -1" using pid_range[OF inv run(1)] run(2) by (simp add: active_def)
  have nt: "nproc t = nproc s" using fork_finish_effect[OF s1(1) ne, of K E] by (metis ff(2) length_upd_at s1(7))
  have failed: ?thesis if f: "r = -1" "\<forall>i. i \<noteq> np \<longrightarrow> proc_at t i = proc_at s1 i" "state (proc_at t np) = UNUSED"
    "fst (kalloc E (world s)) = 0 \<or>
     fst (copyuvm E (pgdir (proc_at s cur)) (sz (proc_at s cur)) (snd (kalloc E (world s)))) = 0"
  proof -
    have same: "proc_at t i = proc_at s i" if "i < nproc s" "i \<noteq> np" for i using f(2) s1(6) that by simp
    have "pid_set t = pid_set s"
      using same f(3) c(2) by (intro pids_cong[OF nt]) (metis active_def)+
    moreover have "\<forall>i<nproc s. active (proc_at s i) \<longrightarrow> proc_at t i = proc_at s i"
      using same c(2) by (metis active_def)
    ultimately show ?thesis using f(1,4) by simp
  qed
  show ?thesis
  proof (rule fork_finish_detail[OF s1(1) ne, of E K], goal_cases)
    case 1
    then show ?case using s1(3) by (intro failed) (simp_all add: ff)
  next
    case (2 k w)
    then show ?case using s1(2,3) by (intro failed) (simp_all add: ff)
  next
    case (3 k w fs d)
    have r: "r = nextpid s" using 3(4) s1(4) by (simp add: ff)
    have "\<not> (fst (kalloc E (world s)) = 0 \<or>
        fst (copyuvm E (pgdir (proc_at s cur)) (sz (proc_at s cur)) (snd (kalloc E (world s)))) = 0)"
      using 3(1-3) s1(2,3) by simp
    moreover have "proc_at t i = proc_at s i" if "i < nproc s" "i \<noteq> np" for i
      using 3(5) s1(6) that by (simp add: ff)
    moreover have "state (proc_at t np) = RUNNABLE" "pid (proc_at t np) = r" "parent (proc_at t np) = Some cur"
      "sz (proc_at t np) = sz (proc_at s cur)" "tframe (proc_at t np) = (tframe (proc_at s cur))\<lparr>tf_eax := 0\<rparr>"
      "eip (kctx (proc_at t np)) = forkret_addr K" "nrswitch (proc_at t np) = 0"
      using 3(6) s1(2,4,5) r by (simp_all add: ff)
    ultimately show ?case using r pos free c(1,2) by auto
  qed
qed

theorem fork_outcome_witness:
  "fst (fork demo_K demo_E 0 demo2) = 2 \<and>
   (\<exists>np<nproc demo2. state (proc_at demo2 np) = UNUSED \<and>
      parent (proc_at (snd (fork demo_K demo_E 0 demo2)) np) = Some 0)"
proof -
  have h: "runs demo2 0 0" "nextpid demo2 < 2147483647" by code_simp+
  have r: "fst (fork demo_K demo_E 0 demo2) = 2" by code_simp
  show ?thesis
    using fork_outcome[OF demo2_reach h surjective_pairing[of "fork demo_K demo_E 0 demo2"]] r by auto
qed

end
