(* ===== verification/Xv6_Tree.thy ===== *)
theory Xv6_Tree
  imports Xv6_Info
begin

text \<open>
  What a user program can know of the process table: a tree of pids. \<open>tree\<close> reads it off a
  kernel state; \<open>tree_step\<close> is the abstract machine of \<open>fork\<close>, \<open>exit\<close> and \<open>wait\<close> on trees, with no
  table, CPUs, sleep channels or half-made processes, and its own invariant \<open>tree_ok\<close>. The kernel
  refines it (interpretation \<open>ptree\<close> of \<open>simulation\<close>).
\<close>

section \<open>The abstract machine\<close>

text \<open>A node has the pid of the parent, and whether the process has exited.\<close>

datatype pnode = Node (above: "cint option") (dead: bool)

type_synonym ptree = "cint \<rightharpoonup> pnode"

definition spawn :: "cint \<Rightarrow> cint \<Rightarrow> ptree \<Rightarrow> ptree" where
  "spawn p c T = T(c \<mapsto> Node (Some p) False)"

definition finish :: "cint \<Rightarrow> ptree \<Rightarrow> ptree" where
  "finish p T = (\<lambda>k. map_option
     (\<lambda>n. Node (if above n = Some p then Some 1 else above n) (dead n \<or> k = p)) (T k))"

definition bury :: "cint \<Rightarrow> ptree \<Rightarrow> ptree" where
  "bury c T = T(c := None)"

definition tree_start :: "ptree \<Rightarrow> bool" where
  "tree_start T \<longleftrightarrow> T = [1 \<mapsto> Node None False]"

inductive tree_step :: "ptree \<Rightarrow> ptree \<Rightarrow> bool" where
  t_fork: "T p = Some (Node a False) \<Longrightarrow> T c = None \<Longrightarrow> p < c \<Longrightarrow> tree_step T (spawn p c T)"
| t_exit: "T p = Some (Node a False) \<Longrightarrow> p \<noteq> 1 \<Longrightarrow> tree_step T (finish p T)"
| t_wait: "T c = Some (Node (Some p) True) \<Longrightarrow> T p = Some (Node a False) \<Longrightarrow> tree_step T (bury c T)"

definition tree_ok :: "ptree \<Rightarrow> bool" where
  "tree_ok T \<longleftrightarrow> T 1 = Some (Node None False) \<and>
     (\<forall>k n. T k = Some n \<longrightarrow> k \<noteq> 1 \<longrightarrow> 1 < k \<and>
        (\<exists>p a. above n = Some p \<and> p < k \<and> T p = Some (Node a False)))"

lemma tree_okD:
  assumes "tree_ok T" "T k = Some n" "k \<noteq> 1"
  obtains p a where "1 < k" "above n = Some p" "p < k" "T p = Some (Node a False)"
  using assms unfolding tree_ok_def by blast

lemma tree_ok_step:
  assumes "tree_ok T" "tree_step T U"
  shows "tree_ok U"
  using assms(2,1)
proof (induction rule: tree_step.induct)
  case (t_fork T p a c)
  have "1 \<le> p" using t_fork tree_okD[of T p] by force
  then have c: "1 < c" using t_fork(3) by simp
  show ?case
    unfolding tree_ok_def
  proof (intro conjI allI impI)
    show "spawn p c T 1 = Some (Node None False)" using t_fork(4) c by (simp add: spawn_def tree_ok_def)
    fix k n assume k: "spawn p c T k = Some n" "k \<noteq> 1"
    show "1 < k" "\<exists>q b. above n = Some q \<and> q < k \<and> spawn p c T q = Some (Node b False)"
    proof (atomize (full), cases "k = c")
      case True
      with k t_fork(1,3) c show "1 < k \<and> (\<exists>q b. above n = Some q \<and> q < k \<and> spawn p c T q = Some (Node b False))"
        by (auto simp: spawn_def)
    next
      case False
      with k have "T k = Some n" by (simp add: spawn_def)
      from tree_okD[OF t_fork(4) this k(2)] t_fork(2)
      show "1 < k \<and> (\<exists>q b. above n = Some q \<and> q < k \<and> spawn p c T q = Some (Node b False))"
        by (metis fun_upd_apply option.distinct(1) spawn_def)
    qed
  qed
next
  case (t_exit T p a)
  have one: "T 1 = Some (Node None False)" using t_exit(3) by (simp add: tree_ok_def)
  show ?case
    unfolding tree_ok_def
  proof (intro conjI allI impI)
    show "finish p T 1 = Some (Node None False)" using one t_exit(2) by (simp add: finish_def)
    fix k n assume k: "finish p T k = Some n" "k \<noteq> 1"
    then obtain m where m: "T k = Some m" "n = Node (if above m = Some p then Some 1 else above m) (dead m \<or> k = p)"
      by (auto simp: finish_def)
    obtain q b where q: "1 < k" "above m = Some q" "q < k" "T q = Some (Node b False)"
      using tree_okD[OF t_exit(3) m(1) k(2)] by metis
    show "1 < k" by (rule q(1))
    show "\<exists>q b. above n = Some q \<and> q < k \<and> finish p T q = Some (Node b False)"
      using q one m(2) t_exit(2) by (cases "q = p") (auto simp: finish_def)
  qed
next
  case (t_wait T c p a)
  have c: "c \<noteq> 1" using t_wait(1,3) by (auto simp: tree_ok_def)
  show ?case
    unfolding tree_ok_def
  proof (intro conjI allI impI)
    show "bury c T 1 = Some (Node None False)" using t_wait(3) c by (simp add: bury_def tree_ok_def)
    fix k n assume k: "bury c T k = Some n" "k \<noteq> 1"
    then have "T k = Some n" by (simp add: bury_def split: if_splits)
    then obtain q b where q: "1 < k" "above n = Some q" "q < k" "T q = Some (Node b False)"
      using tree_okD[OF t_wait(3) _ k(2)] by metis
    then have "q \<noteq> c" using t_wait(1) by auto
    with q show "1 < k" "\<exists>q b. above n = Some q \<and> q < k \<and> bury c T q = Some (Node b False)"
      by (auto simp: bury_def)
  qed
qed

interpretation forest: invariant_machine tree_start tree_step tree_ok
  by unfold_locales (simp add: tree_start_def tree_ok_def, rule tree_ok_step)

section \<open>The tree of a kernel state\<close>

text \<open>A slot whose process exists for others: not free, and not in the middle of a \<open>fork\<close>.\<close>

definition committed :: "proc \<Rightarrow> bool" where
  "committed p \<longleftrightarrow> state p \<noteq> UNUSED \<and> state p \<noteq> EMBRYO"

definition node_of :: "'w kstate \<Rightarrow> proc \<Rightarrow> pnode" where
  "node_of s p = Node (map_option (\<lambda>q. pid (proc_at s q)) (parent p)) (state p = ZOMBIE)"

definition tree :: "'w kstate \<Rightarrow> ptree" where
  "tree s = map_of (map (\<lambda>p. (pid p, node_of s p)) (filter committed (ptable s)))"

lemma committed_iff: "committed p \<longleftrightarrow> live p \<or> state p = ZOMBIE"
  by (cases "state p") (auto simp: committed_def live_def)

lemma committed_active: "committed p \<Longrightarrow> active p"
  by (simp add: committed_def active_def)

lemma tree_Some:
  assumes "tree s k = Some n"
  obtains i where "i < nproc s" "committed (proc_at s i)" "pid (proc_at s i) = k" "n = node_of s (proc_at s i)"
  using map_of_SomeD[OF assms[unfolded tree_def]] by (auto simp: in_set_conv_nth)

lemma tree_None: "tree s k = None \<longleftrightarrow> (\<forall>i<nproc s. committed (proc_at s i) \<longrightarrow> pid (proc_at s i) \<noteq> k)"
  by (auto simp: tree_def map_of_eq_None_iff image_iff in_set_conv_nth)

definition pids_differ :: "'w kstate \<Rightarrow> bool" where
  "pids_differ s \<longleftrightarrow> (\<forall>i<nproc s. \<forall>j<nproc s. committed (proc_at s i) \<longrightarrow> committed (proc_at s j) \<longrightarrow>
     pid (proc_at s i) = pid (proc_at s j) \<longrightarrow> i = j)"

lemma pids_differ: "kinv s \<Longrightarrow> pids_differ s"
  unfolding pids_differ_def using pid_inj committed_active by metis

lemma tree_at:
  assumes "pids_differ s" "i < nproc s" "committed (proc_at s i)"
  shows "tree s (pid (proc_at s i)) = Some (node_of s (proc_at s i))"
proof -
  have "tree s (pid (proc_at s i)) \<noteq> None" using assms(2,3) by (auto simp: tree_None)
  then obtain n where n: "tree s (pid (proc_at s i)) = Some n" by blast
  obtain j where j: "j < nproc s" "committed (proc_at s j)" "pid (proc_at s j) = pid (proc_at s i)" "n = node_of s (proc_at s j)"
    using tree_Some[OF n] by metis
  then have "j = i" using assms unfolding pids_differ_def by blast
  with n j(4) show ?thesis by simp
qed

lemma tree_eqI:
  assumes "pids_differ t"
    and "\<And>i. i < nproc t \<Longrightarrow> committed (proc_at t i) \<Longrightarrow> T (pid (proc_at t i)) = Some (node_of t (proc_at t i))"
    and "\<And>k. T k \<noteq> None \<Longrightarrow> \<exists>i<nproc t. committed (proc_at t i) \<and> pid (proc_at t i) = k"
  shows "tree t = T"
proof
  fix k
  show "tree t k = T k"
  proof (cases "T k")
    case None
    with assms(2) have "\<forall>i<nproc t. committed (proc_at t i) \<longrightarrow> pid (proc_at t i) \<noteq> k" by force
    then show ?thesis using None by (simp add: tree_None)
  next
    case (Some n)
    then obtain i where i: "i < nproc t" "committed (proc_at t i)" "pid (proc_at t i) = k"
      using assms(3)[of k] by blast
    then show ?thesis using tree_at[OF assms(1) i(1,2)] assms(2)[OF i(1,2)] by simp
  qed
qed

section \<open>What the operations do to the tree\<close>

text \<open>A process keeps its node as long as its own pid, parent and death, and its parent's pid, stay.\<close>

lemma node_of_cong:
  assumes "kinv s" "i < nproc s" "parent p = parent (proc_at s i)" "(state p = ZOMBIE) = (state (proc_at s i) = ZOMBIE)"
    and "\<And>q. q < nproc s \<Longrightarrow> live (proc_at s q) \<Longrightarrow> pid (proc_at t q) = pid (proc_at s q)"
  shows "node_of t p = node_of s (proc_at s i)"
  using childless_unless_live(1,2)[OF assms(1,2)] assms(3-5)
  by (cases "parent (proc_at s i)") (auto simp: node_of_def)

lemma tree_cong:
  assumes inv: "kinv s" and n: "nproc t = nproc s"
    and same: "\<And>i. i < nproc s \<Longrightarrow> committed (proc_at t i) = committed (proc_at s i) \<and>
      (committed (proc_at s i) \<longrightarrow> pid (proc_at t i) = pid (proc_at s i) \<and>
         parent (proc_at t i) = parent (proc_at s i) \<and>
         (state (proc_at t i) = ZOMBIE) = (state (proc_at s i) = ZOMBIE))"
  shows "tree t = tree s"
proof (rule tree_eqI)
  show "pids_differ t"
    using pids_differ[OF inv] same unfolding pids_differ_def n by metis
  have lp: "pid (proc_at t q) = pid (proc_at s q)" if "q < nproc s" "live (proc_at s q)" for q
    using same[OF that(1)] that(2) by (simp add: committed_iff)
  fix i assume i: "i < nproc t" "committed (proc_at t i)"
  then have "node_of t (proc_at t i) = node_of s (proc_at s i)"
    using same[of i] n lp by (intro node_of_cong[OF inv]) auto
  then show "tree s (pid (proc_at t i)) = Some (node_of t (proc_at t i))"
    using tree_at[OF pids_differ[OF inv]] same[of i] i n by metis
next
  fix k assume "tree s k \<noteq> None"
  then show "\<exists>i<nproc t. committed (proc_at t i) \<and> pid (proc_at t i) = k"
    using same n by (auto simp: tree_None)
qed

lemma tree_woken: "kinv s \<Longrightarrow> woken_state s t \<Longrightarrow> tree t = tree s"
proof (rule tree_cong)
  fix i assume "woken_state s t" "i < nproc s"
  then have "woken (proc_at s i) (proc_at t i)" by (simp add: woken_state_def)
  then show "committed (proc_at t i) = committed (proc_at s i) \<and>
      (committed (proc_at s i) \<longrightarrow> pid (proc_at t i) = pid (proc_at s i) \<and>
         parent (proc_at t i) = parent (proc_at s i) \<and>
         (state (proc_at t i) = ZOMBIE) = (state (proc_at s i) = ZOMBIE))"
    by (auto simp: woken_def committed_def)
qed (simp_all add: woken_state_def)

text \<open>One entry changes, and not what the tree shows of it.\<close>

lemma tree_entry:
  assumes "kinv s" "ptable t = upd_at cur f (ptable s)"
    and "committed (f (proc_at s cur)) = committed (proc_at s cur)"
    and "committed (proc_at s cur) \<Longrightarrow> pid (f (proc_at s cur)) = pid (proc_at s cur) \<and>
      parent (f (proc_at s cur)) = parent (proc_at s cur) \<and>
      (state (f (proc_at s cur)) = ZOMBIE) = (state (proc_at s cur) = ZOMBIE)"
  shows "tree t = tree s"
  using assms by (intro tree_cong) (auto simp: nth_upd_at)

lemma tree_spawn:
  assumes inv: "kinv s" and cur: "cur < nproc s" "live (proc_at s cur)"
    and np: "np < nproc s" "\<not> committed (proc_at s np)" and t: "ptable t = upd_at np g (ptable s)"
    and g: "state (g (proc_at s np)) = RUNNABLE" "parent (g (proc_at s np)) = Some cur"
    and new: "\<And>i. i < nproc s \<Longrightarrow> committed (proc_at s i) \<Longrightarrow> pid (proc_at s i) \<noteq> pid (g (proc_at s np))"
  shows "tree t = spawn (pid (proc_at s cur)) (pid (g (proc_at s np))) (tree s)"
proof (rule tree_eqI)
  let ?p = "g (proc_at s np)"
  have n: "nproc t = nproc s" by (simp add: t)
  have nt: "proc_at t i = (if i = np then ?p else proc_at s i)" if "i < nproc s" for i
    using that by (auto simp: t nth_upd_at)
  have lp: "q \<noteq> np" "pid (proc_at t q) = pid (proc_at s q)" if "q < nproc s" "live (proc_at s q)" for q
    using that np(2) nt[OF that(1)] by (auto simp: committed_iff)
  show "pids_differ t"
    using pids_differ[OF inv] new unfolding pids_differ_def n by (metis nt)
  fix i assume i: "i < nproc t" "committed (proc_at t i)"
  show "spawn (pid (proc_at s cur)) (pid ?p) (tree s) (pid (proc_at t i)) = Some (node_of t (proc_at t i))"
  proof (cases "i = np")
    case True
    then show ?thesis using nt[OF np(1)] g lp(2)[OF cur] by (simp add: spawn_def node_of_def)
  next
    case False
    have i': "i < nproc s" "proc_at t i = proc_at s i" "committed (proc_at s i)"
      using i n nt[of i] False by auto
    have "node_of t (proc_at s i) = node_of s (proc_at s i)"
      using lp(2) by (intro node_of_cong[OF inv i'(1)]) auto
    then show ?thesis using tree_at[OF pids_differ[OF inv] i'(1,3)] new[OF i'(1,3)] i'(2) by (simp add: spawn_def)
  qed
next
  let ?p = "g (proc_at s np)"
  fix k assume k: "spawn (pid (proc_at s cur)) (pid ?p) (tree s) k \<noteq> None"
  show "\<exists>i<nproc t. committed (proc_at t i) \<and> pid (proc_at t i) = k"
  proof (cases "k = pid ?p")
    case True
    then show ?thesis using np(1) g by (auto simp: t committed_def intro!: exI[of _ np])
  next
    case False
    with k have "tree s k \<noteq> None" by (simp add: spawn_def)
    then obtain i where "i < nproc s" "committed (proc_at s i)" "pid (proc_at s i) = k" by (auto simp: tree_None)
    moreover have "i \<noteq> np" using np(2) calculation by auto
    ultimately show ?thesis by (auto simp: t intro!: exI[of _ i])
  qed
qed

lemma tree_finish:
  assumes inv: "kinv s" and cur: "cur < nproc s" "live (proc_at s cur)" and ni: "initproc s \<noteq> Some cur"
  shows "tree (exit_final cur s) = finish (pid (proc_at s cur)) (tree s)"
proof -
  let ?t = "exit_final cur s" and ?p = "pid (proc_at s cur)"
  note ef = exit_final_effect[OF cur(1) ni]
  obtain ini where ini: "ini < nproc s" "initproc s = Some ini" "pid (proc_at s ini) = 1"
    using init_procE[OF inv] by metis
  have notself: "parent (proc_at s cur) \<noteq> Some cur" using childless_unless_live(3)[OF inv cur(1)] by force
  have ent: "committed (proc_at ?t i) = committed (proc_at s i)" "pid (proc_at ?t i) = pid (proc_at s i)"
    "parent (proc_at ?t i) = (if parent (proc_at s i) = Some cur then Some ini else parent (proc_at s i))"
    "(state (proc_at ?t i) = ZOMBIE) = (state (proc_at s i) = ZOMBIE \<or> i = cur)" if "i < nproc s" for i
    using that ef(6,7,9) ef(10)[of i] notself ini(2) cur(2)
    by (cases "i = cur"; auto simp: handed_over_def committed_def live_def)+
  have node: "node_of ?t (proc_at ?t i) = (let n = node_of s (proc_at s i)
      in Node (if above n = Some ?p then Some 1 else above n) (dead n \<or> pid (proc_at s i) = ?p))"
    if i: "i < nproc s" "committed (proc_at s i)" for i
  proof -
    have self: "pid (proc_at s i) = ?p \<longleftrightarrow> i = cur"
      using pid_inj[OF inv i(1) cur(1)] i(2) cur(2) committed_active live_active by blast
    show ?thesis
    proof (cases "parent (proc_at s i)")
      case None
      then show ?thesis using ent[OF i(1)] self by (simp add: node_of_def Let_def)
    next
      case (Some q)
      note q = childless_unless_live(1,2)[OF inv i(1) Some]
      have "pid (proc_at s q) = ?p \<longleftrightarrow> q = cur"
        using pid_inj[OF inv q(1) cur(1)] q(2) cur(2) live_active by blast
      then show ?thesis using ent[OF i(1)] ent(2)[OF q(1)] ent(2)[OF ini(1)] ini(3) self Some
        by (auto simp: node_of_def Let_def)
    qed
  qed
  show ?thesis
  proof (rule tree_eqI)
    show "pids_differ ?t"
      using pids_differ[OF inv] ent(1,2) unfolding pids_differ_def ef(1) by metis
    fix i assume "i < nproc ?t" "committed (proc_at ?t i)"
    then have i: "i < nproc s" "committed (proc_at s i)" using ent(1)[of i] by (simp_all add: ef(1))
    show "finish ?p (tree s) (pid (proc_at ?t i)) = Some (node_of ?t (proc_at ?t i))"
      using tree_at[OF pids_differ[OF inv] i] node[OF i] ent(2)[OF i(1)] by (simp add: finish_def Let_def)
  next
    fix k assume "finish ?p (tree s) k \<noteq> None"
    then have "tree s k \<noteq> None" by (simp add: finish_def)
    then show "\<exists>i<nproc ?t. committed (proc_at ?t i) \<and> pid (proc_at ?t i) = k"
      using ent(1,2) by (auto simp: tree_None ef(1))
  qed
qed

lemma tree_bury:
  assumes inv: "kinv s" and i: "i < nproc s" "state (proc_at s i) = ZOMBIE"
    and t: "ptable t = upd_at i g (ptable s)" "state (g (proc_at s i)) = UNUSED"
  shows "tree t = bury (pid (proc_at s i)) (tree s)"
proof (rule tree_eqI)
  let ?k = "pid (proc_at s i)"
  have n: "nproc t = nproc s" by (simp add: t)
  have ci: "committed (proc_at s i)" using i(2) by (simp add: committed_def)
  have nt: "j \<noteq> i \<and> proc_at t j = proc_at s j" if "j < nproc s" "committed (proc_at t j)" for j
    using that t by (cases "j = i") (auto simp: nth_upd_at committed_def)
  have other: "pid (proc_at s j) \<noteq> ?k" if "j < nproc s" "committed (proc_at s j)" "j \<noteq> i" for j
    using pid_inj[OF inv that(1) i(1)] that ci committed_active by blast
  have lp: "pid (proc_at t q) = pid (proc_at s q)" if "q < nproc s" "live (proc_at s q)" for q
    using that i(2) by (auto simp: t nth_upd_at live_def)
  show "pids_differ t"
    using pids_differ[OF inv] nt unfolding pids_differ_def n by metis
  fix j assume j: "j < nproc t" "committed (proc_at t j)"
  have j': "j < nproc s" "j \<noteq> i" "proc_at t j = proc_at s j" "committed (proc_at s j)"
    using j n nt[of j] by auto
  have "node_of t (proc_at s j) = node_of s (proc_at s j)"
    using lp by (intro node_of_cong[OF inv j'(1)]) auto
  then show "bury ?k (tree s) (pid (proc_at t j)) = Some (node_of t (proc_at t j))"
    using tree_at[OF pids_differ[OF inv] j'(1,4)] other[OF j'(1,4,2)] j'(3) by (simp add: bury_def)
next
  fix k assume "bury (pid (proc_at s i)) (tree s) k \<noteq> None"
  then have k: "k \<noteq> pid (proc_at s i)" "tree s k \<noteq> None" by (simp_all add: bury_def split: if_splits)
  then obtain j where "j < nproc s" "committed (proc_at s j)" "pid (proc_at s j) = k" by (auto simp: tree_None)
  moreover have "j \<noteq> i" using calculation k(1) by auto
  ultimately show "\<exists>j<nproc t. committed (proc_at t j) \<and> pid (proc_at t j) = k"
    by (auto simp: t intro!: exI[of _ j])
qed

section \<open>The kernel refines the tree\<close>

lemma tree_fork_finish:
  assumes inv: "kinv s" and cur: "cur < nproc s" "live (proc_at s cur)" and np: "np < nproc s" "state (proc_at s np) = EMBRYO"
  shows "tree (snd (fork_finish K E cur np s)) = (if fst (fork_finish K E cur np s) = -1 then tree s
      else spawn (pid (proc_at s cur)) (fst (fork_finish K E cur np s)) (tree s))" (is ?tree)
    and "tree s (pid (proc_at s np)) = None"
    and "fst (fork_finish K E cur np s) = -1 \<or> fst (fork_finish K E cur np s) = pid (proc_at s np)"
proof -
  let ?t = "snd (fork_finish K E cur np s)"
  have ne: "cur \<noteq> np" using cur np by (auto simp: live_def)
  have nc: "\<not> committed (proc_at s np)" and an: "active (proc_at s np)" using np(2) by (simp_all add: committed_def active_def)
  have new: "pid (proc_at s i) \<noteq> pid (proc_at s np)" if "i < nproc s" "committed (proc_at s i)" for i
    using that nc pid_inj[OF inv that(1) np(1) committed_active[OF that(2)] an] by auto
  then show "tree s (pid (proc_at s np)) = None" by (simp add: tree_None)
  have pos: "pid (proc_at s np) \<noteq> -1" using pid_range[OF inv np(1) an] by simp
  obtain g where g: "ptable ?t = upd_at np g (ptable s)" "pid (g (proc_at s np)) = pid (proc_at s np)"
    "state (g (proc_at s np)) = UNUSED \<and> fst (fork_finish K E cur np s) = -1 \<or>
     state (g (proc_at s np)) = RUNNABLE \<and> parent (g (proc_at s np)) = Some cur \<and>
       fst (fork_finish K E cur np s) = pid (proc_at s np)"
    using fork_finish_effect[OF np(1) ne, of K E] by metis
  then show "fst (fork_finish K E cur np s) = -1 \<or> fst (fork_finish K E cur np s) = pid (proc_at s np)" by blast
  from g(3) show ?tree
  proof (elim disjE conjE)
    assume u: "state (g (proc_at s np)) = UNUSED" "fst (fork_finish K E cur np s) = -1"
    have "tree ?t = tree s"
      by (rule tree_entry[OF inv g(1)]) (use u nc in \<open>simp_all add: committed_def\<close>)
    with u show ?tree by simp
  next
    assume r: "state (g (proc_at s np)) = RUNNABLE" "parent (g (proc_at s np)) = Some cur"
      "fst (fork_finish K E cur np s) = pid (proc_at s np)"
    show ?tree
      using tree_spawn[OF inv cur np(1) nc g(1) r(1,2)] new pos by (simp add: g(2) r(3))
  qed
qed

text \<open>A pass of \<open>wait\<close>, whether it is the first or one after a \<open>sleep\<close>.\<close>

lemma tree_wait_iter:
  assumes inv: "kinv s" and cur: "cur < nproc s" "live (proc_at s cur)" "wait_iter E cur s = (r, t)"
  shows "(r = None \<or> r = Some (-1)) \<and> tree t = tree s \<or>
    (\<exists>k a. r = Some k \<and> tree s k = Some (Node (Some (pid (proc_at s cur))) True) \<and>
       tree s (pid (proc_at s cur)) = Some (Node a False) \<and> tree t = bury k (tree s))"
proof (cases rule: wait_iter_cases[where s = s and cur = cur and E = E])
  case (reap i w)
  have ci: "committed (proc_at s i)" "committed (proc_at s cur)" using reap(3) cur(2) by (auto simp: committed_iff)
  have "state (proc_at s cur) \<noteq> ZOMBIE" using cur(2) by (auto simp: live_def)
  then have "tree s (pid (proc_at s i)) = Some (Node (Some (pid (proc_at s cur))) True)"
    "\<exists>a. tree s (pid (proc_at s cur)) = Some (Node a False)"
    using tree_at[OF pids_differ[OF inv] reap(1) ci(1)] tree_at[OF pids_differ[OF inv] cur(1) ci(2)] reap(2,3)
    by (simp_all add: node_of_def)
  moreover have "tree t = bury (pid (proc_at s i)) (tree s)"
    using cur(3) reap(6) by (intro tree_bury[OF inv reap(1,3)]) auto
  moreover have "r = Some (pid (proc_at s i))" using cur(3) reap(6) by simp
  ultimately show ?thesis by blast
next
  case fail
  then show ?thesis using cur(3) by simp
next
  case asleep
  have "tree (sleep_enter cur (ProcChan cur) s) = tree s"
    using cur(2) by (intro tree_entry[OF inv, where cur = cur and f = "\<lambda>p. p\<lparr>chan := ProcChan cur, state := SLEEPING\<rparr>"])
      (auto simp: sleep_enter_def committed_def live_def)
  then show ?thesis using cur(3) asleep(4) by simp
qed

text \<open>Reading the tree looks at \<open>pid\<close>, \<open>parent\<close> and \<open>state\<close> alone.\<close>

lemma tree_pointwise:
  fixes s t :: "'w kstate"
  assumes "nproc t = nproc s"
    and "\<And>i. pid (proc_at t i) = pid (proc_at s i) \<and> parent (proc_at t i) = parent (proc_at s i) \<and>
      state (proc_at t i) = state (proc_at s i)"
  shows "tree t = tree s"
proof -
  have "tree u = map_of (map (\<lambda>i. (pid (proc_at u i), node_of u (proc_at u i)))
      (filter (\<lambda>i. committed (proc_at u i)) [0..<nproc u]))" for u :: "'w kstate"
  proof -
    have "ptable u = map (proc_at u) [0..<nproc u]" by (simp add: map_nth)
    then have "filter committed (ptable u) = map (proc_at u) (filter (committed \<circ> proc_at u) [0..<nproc u])"
      by (metis filter_map)
    then show ?thesis by (simp add: tree_def comp_def)
  qed
  then show ?thesis by (simp add: assms node_of_def committed_def)
qed

lemma tree_kpos [simp]: "tree (set_kpos cur k s) = tree s"
proof (rule tree_pointwise)
  show "nproc (set_kpos cur k s) = nproc s" by simp
  show "pid (proc_at (set_kpos cur k s) i) = pid (proc_at s i) \<and> parent (proc_at (set_kpos cur k s) i) = parent (proc_at s i) \<and>
      state (proc_at (set_kpos cur k s) i) = state (proc_at s i)" for i
    by (cases "cur < nproc s"; cases "i = cur") (simp_all add: upd_at_def list_update_beyond)
qed

lemma tree_ptable: "ptable (t :: 'w kstate) = ptable (s :: 'w kstate) \<Longrightarrow> tree t = tree s"
  by (rule tree_pointwise) simp_all

lemma tree_sched_return [simp]: "tree (sched_return E c s) = tree s"
  by (rule tree_ptable) simp

text \<open>Which steps change the tree, and how.\<close>

lemma tree_kstep_cases:
  assumes "kinv s" "kstep K E s t"
  shows "tree t = tree s \<or>
    (\<exists>p a c. tree s p = Some (Node a False) \<and> tree s c = None \<and> p < c \<and> tree t = spawn p c (tree s)) \<or>
    (\<exists>cur a. cur < nproc s \<and> live (proc_at s cur) \<and> kpos (proc_at s cur) = KExit \<and> pid (proc_at s cur) \<noteq> 1 \<and>
       tree s (pid (proc_at s cur)) = Some (Node a False) \<and> tree t = finish (pid (proc_at s cur)) (tree s)) \<or>
    (\<exists>c p a. tree s c = Some (Node (Some p) True) \<and> tree s p = Some (Node a False) \<and> tree t = bury c (tree s))"
  using assms(2)
proof (cases rule: kstep.cases)
  case (k_schedule c)
  have "tree (scheduler_step E c s) = tree s"
    by (rule tree_cong[OF assms(1)]) (auto simp: scheduler_step_def nth_upd_at committed_def
      dest: first_index_from_SomeD split: option.splits)
  then show ?thesis by (simp add: k_schedule)
next
  case (k_fork_begin c cur np t')
  note c = alloc_claim_SomeD[OF k_fork_begin(5)]
  have "tree t' = tree s"
    by (rule tree_cong[OF assms(1)]) (auto simp: c nth_upd_at committed_def)
  then show ?thesis by (simp add: k_fork_begin(1))
next
  case (k_fork_end c cur np)
  then have r: "cur < nproc s" "state (proc_at s cur) = RUNNING" using running_cpu[OF assms(1)] by blast+
  then have l: "live (proc_at s cur)" "committed (proc_at s cur)" by (simp_all add: live_def committed_def)
  note fo = fork_owner[OF assms(1) r(1) k_fork_end(3)]
  have "tree s (pid (proc_at s cur)) = Some (Node (above (node_of s (proc_at s cur))) False)"
    using tree_at[OF pids_differ[OF assms(1)] r(1) l(2)] r(2) by (simp add: node_of_def)
  then show ?thesis
    using tree_fork_finish(1,3)[OF assms(1) r(1) l(1) fo(2,3), of K E] tree_fork_finish(2)[OF assms(1) r(1) l(1) fo(2,3)] fo(4)
    by (cases "fst (fork_finish K E cur np s) = -1") (simp add: k_fork_end(1), simp add: k_fork_end(1), blast)
next
  case (k_forkret c cur)
  have "tree (forkret K E s) = tree s" by (rule tree_ptable) (simp add: forkret_def)
  then show ?thesis by (simp add: k_forkret)
next
  case (k_exit_begin c cur t')
  obtain fs w where t': "t' = upd_proc cur (\<lambda>p. p\<lparr>ofile := fs, cwd := 0\<rparr>) (s\<lparr>world := w\<rparr>)"
    using exit_files_InrD[OF k_exit_begin(4)] by metis
  have "tree t' = tree s"
    by (rule tree_entry[OF assms(1), where cur = cur and f = "\<lambda>p. p\<lparr>ofile := fs, cwd := 0\<rparr>"])
      (simp_all add: t' committed_def)
  then show ?thesis by (simp add: k_exit_begin(1))
next
  case (k_exit_end c cur)
  then have r: "cur < nproc s" "state (proc_at s cur) = RUNNING" using running_cpu[OF assms(1)] by blast+
  then have l: "live (proc_at s cur)" "committed (proc_at s cur)" by (simp_all add: live_def committed_def)
  have "tree s (pid (proc_at s cur)) = Some (Node (above (node_of s (proc_at s cur))) False)"
    using tree_at[OF pids_differ[OF assms(1)] r(1) l(2)] r(2) by (simp add: node_of_def)
  moreover have "pid (proc_at s cur) \<noteq> 1"
    using non_init_pid[OF assms(1) r(1) live_active[OF l(1)] k_exit_end(4)] by simp
  ultimately show ?thesis
    using tree_finish[OF assms(1) r(1) l(1) k_exit_end(4)] r(1) l(1) k_exit_end(3) by (simp add: k_exit_end(1)) blast
next
  case (k_wait c cur)
  let ?s = "if kpos (proc_at s cur) = KWait then sleep_resume cur s else s"
  have r: "cur < nproc s" "state (proc_at s cur) = RUNNING" using running_cpu[OF assms(1)] k_wait by blast+
  have inv: "kinv ?s"
    using k_wait(2) by (auto intro!: assms(1) kinv_upd_running[OF assms(1), where c = c and cur = cur and f = "\<lambda>p. p\<lparr>chan := NullChan\<rparr>"]
      simp: sleep_resume_def)
  have l: "cur < nproc ?s" "live (proc_at ?s cur)" using r by (simp_all add: sleep_resume_def live_def)
  have "tree (sleep_resume cur s) = tree s"
    by (rule tree_entry[OF assms(1), where cur = cur and f = "\<lambda>p. p\<lparr>chan := NullChan\<rparr>"])
      (simp_all add: sleep_resume_def committed_def)
  then have ts: "tree ?s = tree s" by simp
  obtain rr u where u: "wait_iter E cur ?s = (rr, u)" by fastforce
  have "tree (wait_run E c cur s) = tree u"
    unfolding wait_run_def u by (cases rr) simp_all
  then show ?thesis
    using tree_wait_iter[OF inv l u] unfolding k_wait(1) ts by metis
next
  case (k_yield c cur)
  then have r: "state (proc_at s cur) = RUNNING" using running_cpu[OF assms(1)] by blast
  have "tree (yield_enter cur s) = tree s"
    by (rule tree_entry[OF assms(1), where cur = cur and f = "\<lambda>p. p\<lparr>state := RUNNABLE\<rparr>"])
      (simp_all add: yield_enter_def committed_def r)
  then show ?thesis by (simp add: k_yield)
next
  case (k_sleep c cur k ch)
  then have r: "state (proc_at s cur) = RUNNING" using running_cpu[OF assms(1)] by blast
  have "tree (sleep_enter cur ch s) = tree s"
    by (rule tree_entry[OF assms(1), where cur = cur and f = "\<lambda>p. p\<lparr>chan := ch, state := SLEEPING\<rparr>"])
      (simp_all add: sleep_enter_def committed_def r)
  then show ?thesis by (simp add: k_sleep)
next
  case (k_sleep_resume c cur k)
  have "tree (sleep_resume cur s) = tree s"
    by (rule tree_entry[OF assms(1), where cur = cur and f = "\<lambda>p. p\<lparr>chan := NullChan\<rparr>"])
      (simp_all add: sleep_resume_def committed_def)
  then show ?thesis by (simp add: k_sleep_resume)
next
  case (k_wakeup ch)
  show ?thesis using tree_woken[OF assms(1) woken_wakeup1[of s ch]] by (simp add: k_wakeup wakeup_def)
next
  case (k_kill n)
  show ?thesis using tree_woken[OF assms(1) woken_kill[of s n]] by (simp add: k_kill)
next
  case (k_sbrk c cur n)
  show ?thesis using tree_woken[OF assms(1) woken_growproc[of s E cur n]] by (simp add: k_sbrk)
next
  case (k_process c cur p' w)
  show ?thesis using tree_woken[OF assms(1) woken_same_control[OF k_process(3)]] by (simp add: k_process(1))
next
  case (k_device w)
  show ?thesis using tree_ptable[of t s] by (simp add: k_device)
qed

lemma tree_kstep:
  assumes "kinv s" "kstep K E s t"
  shows "tree t = tree s \<or> tree_step (tree s) (tree t)"
  using tree_kstep_cases[OF assms] by (elim disjE exE conjE) (simp_all add: t_fork t_exit t_wait)

lemma tree_kstart:
  assumes "kstart K E s"
  shows "tree s = [1 \<mapsto> Node None False]"
proof -
  obtain n nofile cs f where f: "ptable s = upd_at 0 f (replicate (Suc n) (zero_proc nofile))"
    "nextpid s = 2" "initproc s = Some 0" "cpus s = map scheduler_start cs"
    "state (f (zero_proc nofile)) = RUNNABLE" "pid (f (zero_proc nofile)) = 1"
    "parent (f (zero_proc nofile)) = None" "kpos (f (zero_proc nofile)) = KForkret"
    using assms by (rule kstart_table)
  have p: "ptable s = f (zero_proc nofile) # replicate n (zero_proc nofile)" by (simp add: f(1) upd_at_def)
  have "\<not> committed (zero_proc nofile)" "committed (f (zero_proc nofile))"
    using f(5) by (simp_all add: committed_def) (simp add: zero_proc_def)
  then have "filter committed (ptable s) = [f (zero_proc nofile)]" by (simp add: p)
  then show ?thesis using f(5-7) by (simp add: tree_def node_of_def)
qed

interpretation ptree: simulation "kstart K E" "kstep K E" kinv tree_start tree_step tree for K E
  by unfold_locales (simp add: tree_start_def tree_kstart, rule tree_kstep)

end
