(* ===== verification/Xv6_TreeProps.thy ===== *)
theory Xv6_TreeProps
  imports Xv6_Tree Xv6_Demo
begin

text \<open>
  The kernel against the tree of pids of \<open>Xv6_Tree\<close>: each reachable state has a tree the abstract
  machine can reach, and \<open>fork\<close>, \<open>exit\<close> and \<open>wait\<close> are the three operations on it.
\<close>

lemma tree_children:
  assumes "kinv s" "cur < nproc s" "live (proc_at s cur)"
  shows "(\<exists>k. tree s k = Some (Node (Some (pid (proc_at s cur))) z)) \<longleftrightarrow>
    (\<exists>j<nproc s. parent (proc_at s j) = Some cur \<and> (state (proc_at s j) = ZOMBIE) = z)" (is "?T \<longleftrightarrow> ?P")
proof
  assume ?T
  then obtain j where j: "j < nproc s" "node_of s (proc_at s j) = Node (Some (pid (proc_at s cur))) z"
    using tree_Some by metis
  then obtain q where q: "parent (proc_at s j) = Some q" "pid (proc_at s q) = pid (proc_at s cur)" "(state (proc_at s j) = ZOMBIE) = z"
    by (auto simp: node_of_def)
  note c = childless_unless_live(1,2)[OF assms(1) j(1) q(1)]
  have "q = cur" using pid_inj[OF assms(1) c(1) assms(2)] c(2) assms(3) q(2) live_active by blast
  with j q show ?P by blast
next
  assume ?P
  then obtain j where j: "j < nproc s" "parent (proc_at s j) = Some cur" "(state (proc_at s j) = ZOMBIE) = z" by blast
  have "committed (proc_at s j)" using childless_unless_live(5)[OF assms(1) j(1,2)] by (simp add: committed_iff)
  from tree_at[OF pids_differ[OF assms(1)] j(1) this] j(2,3) show ?T by (auto simp: node_of_def)
qed

lemma tree_fork:
  assumes inv: "kinv s" and cur: "cur < nproc s" "state (proc_at s cur) = RUNNING" and f: "fork K E cur s = (r, t)"
  shows "if r = -1 then tree t = tree s
    else tree s r = None \<and> pid (proc_at s cur) < r \<and> tree t = spawn (pid (proc_at s cur)) r (tree s)"
proof (cases "alloc_claim s")
  case (Pair o' s1)
  show ?thesis
  proof (cases o')
    case None
    then have "first_index (\<lambda>p. state p = UNUSED) (ptable s) = None"
      using Pair by (simp add: alloc_claim_def split: option.splits)
    then show ?thesis using f by (simp add: fork_def alloc_claim_def)
  next
    case (Some np)
    note c = alloc_claim_SomeD[OF Pair[unfolded Some]]
    have l: "live (proc_at s cur)" "active (proc_at s cur)" using cur(2) by (simp_all add: live_def active_def)
    have nc: "\<not> committed (proc_at s np)" using c(2) by (simp add: committed_def)
    have ne: "cur \<noteq> np" using c(2) cur(2) by auto
    have ff: "r = fst (fork_finish K E cur np s1)" "t = snd (fork_finish K E cur np s1)"
      using f by (simp_all add: fork_def Pair Some)
    let ?a = "\<lambda>p. p\<lparr>state := EMBRYO, pid := nextpid s, nrswitch := 0\<rparr>"
    have s1: "np < nproc s1" "proc_at s1 np = ?a (proc_at s np)" using c(1) by (simp_all add: c(4))
    have p1: "pid (proc_at s1 np) = nextpid s" by (simp add: s1(2))
    obtain g where g: "ptable t = upd_at np g (ptable s1)" "pid (g (proc_at s1 np)) = nextpid s"
      "state (g (proc_at s1 np)) = UNUSED \<and> r = -1 \<or>
       state (g (proc_at s1 np)) = RUNNABLE \<and> parent (g (proc_at s1 np)) = Some cur \<and> r = nextpid s"
      using fork_finish_effect[OF s1(1) ne, of K E] p1 unfolding ff by metis
    have pt: "ptable t = upd_at np (\<lambda>p. g (?a p)) (ptable s)" using g(1) c(1) by (simp add: c(4))
    have range: "pid (proc_at s i) < nextpid s" if "i < nproc s" "active (proc_at s i)" for i
      using pid_range[OF inv that] by simp
    have pos: "nextpid s \<noteq> -1" using pid_range[OF inv cur(1) l(2)] by simp
    from g(3) show ?thesis
    proof (elim disjE conjE)
      assume u: "state (g (proc_at s1 np)) = UNUSED" "r = -1"
      have "tree t = tree s"
        by (rule tree_entry[OF inv pt]) (use u nc s1(2) in \<open>simp_all add: committed_def\<close>)
      with u show ?thesis by simp
    next
      assume u: "state (g (proc_at s1 np)) = RUNNABLE" "parent (g (proc_at s1 np)) = Some cur" "r = nextpid s"
      have new: "pid (proc_at s i) \<noteq> nextpid s" if "i < nproc s" "committed (proc_at s i)" for i
        using range[OF that(1) committed_active[OF that(2)]] by simp
      have "tree t = spawn (pid (proc_at s cur)) r (tree s)"
        using tree_spawn[OF inv cur(1) l(1) c(1) nc pt] u new g(2) s1(2) by simp
      moreover have "tree s r = None" using new by (simp add: tree_None u(3))
      ultimately show ?thesis using pos u(3) range[OF cur(1) l(2)] by simp
    qed
  qed
qed

text \<open>C1: The kernel refines the tree of pids. In every reachable state the tree read off the
  process table is one that the abstract machine reaches from init alone by its fork, exit and
  wait; it has pid 1 at its root, and every other process below a living parent with a smaller
  pid; and whatever step any CPU takes next, scheduling, sleeping, waking and killing included,
  changes nothing of the tree or is one abstract step.\<close>

theorem process_tree_refined:
  assumes "reachable (kstart K E) (kstep K E) s"
  shows "reachable tree_start tree_step (tree s) \<and> tree_ok (tree s) \<and>
    (\<forall>t. kstep K E s t \<longrightarrow> tree t = tree s \<or> tree_step (tree s) (tree t))"
  using ptree.reachable_abst[OF assms] forest.reachable_inv tree_kstep[OF kern.reachable_inv[OF assms]] by blast

theorem process_tree_refined_witness:
  "reachable tree_start tree_step (tree demo9) \<and> tree_ok (tree demo9)"
  using process_tree_refined[OF demo9_reach] by blast

text \<open>C2: The calls of a running process on the tree. A fork that succeeds adds a living leaf below
  the caller, with a pid that is in no other use and greater than the caller's, and one that
  fails leaves the tree as it was; exit marks the caller dead and moves all its children below
  init, and only init cannot; a pass of wait takes one dead child of the caller out of the tree
  and returns its pid, returns -1 with the tree unchanged when there is none and the caller was
  killed or has no children at all, and goes to sleep only if it has living children alone.\<close>

theorem process_tree_calls:
  assumes "reachable (kstart K E) (kstep K E) s" "runs s c cur"
  defines "me \<equiv> pid (proc_at s cur)"
  shows "(case fork K E cur s of (r, t) \<Rightarrow>
        if r = -1 then tree t = tree s
        else tree s r = None \<and> me < r \<and> tree t = spawn me r (tree s)) \<and>
    (case kexit E cur s of Inl _ \<Rightarrow> me = 1 | Inr t \<Rightarrow> me \<noteq> 1 \<and> tree t = finish me (tree s)) \<and>
    (case wait_iter E cur s of
       (Some r, t) \<Rightarrow>
         if r = -1 then tree t = tree s \<and> (\<nexists>k. tree s k = Some (Node (Some me) True)) \<and>
           (killed (proc_at s cur) \<noteq> 0 \<or> (\<nexists>k. tree s k = Some (Node (Some me) False)))
         else tree s r = Some (Node (Some me) True) \<and> tree t = bury r (tree s)
     | (None, t) \<Rightarrow> tree t = tree s \<and> (\<nexists>k. tree s k = Some (Node (Some me) True)) \<and>
         (\<exists>k. tree s k = Some (Node (Some me) False)))"
proof (intro conjI)
  have inv: "kinv s" using kern.reachable_inv[OF assms(1)] .
  have cur: "cur < nproc s" "state (proc_at s cur) = RUNNING" using running_cpu[OF inv] assms(2) by auto
  have l: "live (proc_at s cur)" "active (proc_at s cur)" using cur(2) by (simp_all add: live_def active_def)
  show "case fork K E cur s of (r, t) \<Rightarrow> if r = -1 then tree t = tree s
        else tree s r = None \<and> me < r \<and> tree t = spawn me r (tree s)"
    using tree_fork[OF inv cur] unfolding me_def by (cases "fork K E cur s") auto
  show "case kexit E cur s of Inl _ \<Rightarrow> me = 1 | Inr t \<Rightarrow> me \<noteq> 1 \<and> tree t = finish me (tree s)"
  proof (cases "initproc s = Some cur")
    case True
    then show ?thesis using init_procE[OF inv] by (auto simp: kexit_def exit_files_def me_def)
  next
    case ni: False
    then obtain u where u: "exit_files E cur s = Inr u"
      by (cases "close_files E (ofile (proc_at s cur)) (world s)") (auto simp: exit_files_def Let_def)
    then obtain fs w where ut: "u = upd_proc cur (\<lambda>p. p\<lparr>ofile := fs, cwd := 0\<rparr>) (s\<lparr>world := w\<rparr>)"
      using exit_files_InrD by metis
    have ku: "kinv u"
      using assms(2) by (intro kinv_upd_running[OF inv, where c = c and cur = cur and f = "\<lambda>p. p\<lparr>ofile := fs, cwd := 0\<rparr>"])
        (simp_all add: ut)
    have "tree u = tree s"
      by (rule tree_entry[OF inv, where cur = cur and f = "\<lambda>p. p\<lparr>ofile := fs, cwd := 0\<rparr>"]) (simp_all add: ut committed_def)
    moreover have "pid (proc_at u cur) = me" "cur < nproc u" "live (proc_at u cur)" "initproc u \<noteq> Some cur"
      using cur l ni by (simp_all add: ut me_def live_def)
    ultimately have "tree (exit_final cur u) = finish me (tree s)" using tree_finish[OF ku] by simp
    then show ?thesis using non_init_pid[OF inv cur(1) l(2) ni] by (simp add: kexit_def u me_def)
  qed
  note ch = tree_children[OF inv cur(1) l(1), folded me_def]
  have d: "(\<nexists>k. tree s k = Some (Node (Some me) True)) \<longleftrightarrow>
      (\<forall>j<nproc s. parent (proc_at s j) = Some cur \<longrightarrow> state (proc_at s j) \<noteq> ZOMBIE)" by (auto simp: ch)
  show "case wait_iter E cur s of
       (Some r, t) \<Rightarrow>
         if r = -1 then tree t = tree s \<and> (\<nexists>k. tree s k = Some (Node (Some me) True)) \<and>
           (killed (proc_at s cur) \<noteq> 0 \<or> (\<nexists>k. tree s k = Some (Node (Some me) False)))
         else tree s r = Some (Node (Some me) True) \<and> tree t = bury r (tree s)
     | (None, t) \<Rightarrow> tree t = tree s \<and> (\<nexists>k. tree s k = Some (Node (Some me) True)) \<and>
         (\<exists>k. tree s k = Some (Node (Some me) False))"
  proof (cases rule: wait_iter_cases[where s = s and cur = cur and E = E])
    case (reap i w)
    have "0 < pid (proc_at s i)" using pid_range[OF inv reap(1)] reap(3) by (simp add: active_def)
    then show ?thesis
      using tree_wait_iter[OF inv cur(1) l(1) reap(6)] by (auto simp: reap(6) me_def)
  next
    case fail
    have "\<nexists>k. tree s k = Some (Node (Some me) False)" if "\<forall>j<nproc s. parent (proc_at s j) \<noteq> Some cur"
      using that ch by blast
    then show ?thesis using fail(2) d fail(1) by (auto simp: fail(3))
  next
    case asleep
    have "\<exists>k. tree s k = Some (Node (Some me) False)" using asleep(1,2) unfolding ch by blast
    then show ?thesis
      using tree_wait_iter[OF inv cur(1) l(1) asleep(4)] d asleep(1) by (auto simp: asleep(4))
  qed
qed

theorem process_tree_calls_witness:
  "tree (snd (fork demo_K demo_E 0 demo2)) = spawn 1 2 (tree demo2) \<and>
   tree (snd (wait_iter demo_E 0 demo10)) = bury 2 (tree demo10) \<and>
   (\<exists>t. kexit demo_E 1 demo7 = Inr t \<and> tree t = finish 2 (tree demo7))"
proof -
  have h: "runs demo2 0 0" "runs demo10 0 0" "runs demo7 0 1" "pid (proc_at demo2 0) = 1"
    "pid (proc_at demo7 1) = 2" by code_simp+
  have r: "fst (fork demo_K demo_E 0 demo2) = 2" "fst (wait_iter demo_E 0 demo10) = Some 2" by code_simp+
  have 1: "tree (snd (fork demo_K demo_E 0 demo2)) = spawn 1 2 (tree demo2)"
    using process_tree_calls[OF demo2_reach h(1)] r(1) h(4) by (auto split: prod.splits)
  have 2: "tree (snd (wait_iter demo_E 0 demo10)) = bury 2 (tree demo10)"
    using process_tree_calls[OF demo10_reach h(2)] r(2) by (auto split: prod.splits)
  have 3: "\<exists>t. kexit demo_E 1 demo7 = Inr t \<and> tree t = finish 2 (tree demo7)"
    using process_tree_calls[OF demo7_reach h(3)] h(5) by (auto split: sum.splits)
  show ?thesis using 1 2 3 by blast
qed

end
