(* ===== verification/Xv6_Pids.thy ===== *)
theory Xv6_Pids
  imports Xv6_Info
begin

text \<open>
  The pids that free slots still carry: a second invariant of the kernel's steps
  (interpretation \<open>kern_free\<close>), needed for \<open>kill\<close>, which does not look at the state of a slot.
\<close>

section \<open>The pids of free slots\<close>

text \<open>
  A free slot keeps an old number in \<open>pid\<close> when a \<open>fork\<close> fails after claiming it, and \<open>kill\<close>
  compares the pids of free slots too. In reachable states that number is no one else's.
\<close>

definition free_ok :: "'w kstate \<Rightarrow> bool" where
  "free_ok s \<longleftrightarrow> (\<forall>i<nproc s. state (proc_at s i) = UNUSED \<longrightarrow>
     pid (proc_at s i) < nextpid s \<and> pid (proc_at s i) \<notin> pid_set s)"

lemma free_ok_step:
  assumes "kinv s" "free_ok s" "kstep K E s t" "kinv t" "nproc t = nproc s"
    and "\<And>i. i < nproc s \<Longrightarrow> state (proc_at t i) = UNUSED \<Longrightarrow>
      state (proc_at s i) = UNUSED \<and> pid (proc_at t i) = pid (proc_at s i) \<or> pid (proc_at t i) = 0 \<or>
      active (proc_at s i) \<and> pid (proc_at t i) = pid (proc_at s i) \<and>
        (\<forall>j<nproc s. j \<noteq> i \<longrightarrow> pid (proc_at t j) = pid (proc_at s j) \<and> active (proc_at t j) = active (proc_at s j))"
  shows "free_ok t"
  unfolding free_ok_def assms(5)
proof (intro allI impI)
  fix i assume i: "i < nproc s" "state (proc_at t i) = UNUSED"
  have np: "nextpid s \<le> nextpid t" "pid_set t \<subseteq> insert (nextpid s) (pid_set s)" "0 < nextpid t" "0 \<notin> pid_set t"
    using pids_kstep[OF assms(1,3)] pids_nextpid[OF assms(4)] one_in_pids[OF assms(4)] by fastforce+
  from assms(6)[OF i] show "pid (proc_at t i) < nextpid t \<and> pid (proc_at t i) \<notin> pid_set t"
  proof (elim disjE conjE)
    assume "state (proc_at s i) = UNUSED" "pid (proc_at t i) = pid (proc_at s i)"
    with assms(2) i(1) np show ?thesis unfolding free_ok_def by fastforce
  next
    assume "pid (proc_at t i) = 0"
    with np show ?thesis by simp
  next
    assume a: "active (proc_at s i)" "pid (proc_at t i) = pid (proc_at s i)"
      "\<forall>j<nproc s. j \<noteq> i \<longrightarrow> pid (proc_at t j) = pid (proc_at s j) \<and> active (proc_at t j) = active (proc_at s j)"
    have "pid (proc_at t j) \<noteq> pid (proc_at t i)" if "j < nproc s" "active (proc_at t j)" for j
      using that a i pid_inj[OF assms(1), of j i] by (metis active_def)
    then have "pid (proc_at t i) \<notin> pid_set t" unfolding pid_set_def assms(5) image_iff by force
    with a pid_range[OF assms(1) i(1)] np(1) show ?thesis by simp
  qed
qed

lemma free_ok_same:
  assumes "kinv s" "free_ok s" "kstep K E s t" "kinv t" "nproc t = nproc s"
    and "\<And>i. i < nproc s \<Longrightarrow> pid (proc_at t i) = pid (proc_at s i) \<and>
      (state (proc_at t i) = UNUSED \<longrightarrow> state (proc_at s i) = UNUSED)"
  shows "free_ok t"
  using assms(6) by (intro free_ok_step[OF assms(1-5)]) blast

lemma free_ok_woken: "kinv s \<Longrightarrow> free_ok s \<Longrightarrow> kstep K E s t \<Longrightarrow> kinv t \<Longrightarrow> woken_state s t \<Longrightarrow> free_ok t"
  by (erule (3) free_ok_same) (auto simp: woken_state_def woken_def)

lemma nproc_kstep:
  assumes "kinv s" "kstep K E s t"
  shows "nproc t = nproc s"
  using assms(2,1)
proof (induction rule: kstep.induct)
  case (k_schedule c s)
  then show ?case by (auto simp: scheduler_step_def split: option.splits)
next
  case (k_fork_begin s c cur np t)
  then show ?case using alloc_claim_SomeD(4)[OF k_fork_begin(4)] by simp
next
  case (k_fork_end s c cur np)
  then have r: "cur < nproc s" "state (proc_at s cur) = RUNNING" using running_cpu by blast+
  note fo = fork_owner[OF k_fork_end.prems r(1) k_fork_end(2)]
  have "cur \<noteq> np" using fo(3) r(2) by auto
  then show ?case using fork_finish_effect[OF fo(2), of cur K E] by (metis length_upd_at set_kpos_simps(1))
next
  case (k_exit_begin s c cur t)
  then show ?case by (auto elim!: exit_files_InrD)
next
  case (k_exit_end s c cur)
  then have "cur < nproc s" using running_cpu by blast
  then show ?case using exit_final_effect(1)[OF _ k_exit_end(3)] by simp
next
  case (k_wait s c cur)
  then show ?case
    by (cases rule: wait_iter_cases[where s = "if kpos (proc_at s cur) = KWait then sleep_resume cur s else s" and cur = cur and E = E])
      (auto simp: wait_run_def sleep_resume_def sleep_enter_def)
next
  case (k_sbrk s c cur n)
  then show ?case using woken_growproc[of s E cur n] by (simp add: woken_state_def)
next
  case (k_kill s n)
  then show ?case using woken_kill[of s n] by (simp add: woken_state_def)
qed (simp_all add: forkret_def yield_enter_def sleep_enter_def sleep_resume_def wakeup_def)

lemma free_ok_kstep:
  assumes "kinv s" "free_ok s" "kstep K E s t"
  shows "free_ok t"
proof -
  have it: "kinv t" using kinv_kstep[OF assms(1,3)] .
  note nt = nproc_kstep[OF assms(1,3)]
  note same = free_ok_same[OF assms it nt]
  show ?thesis
    using assms(3)
  proof (cases rule: kstep.cases)
    case (k_schedule c)
    show ?thesis
      by (rule same) (auto simp: k_schedule scheduler_step_def nth_upd_at split: option.splits)
  next
    case (k_fork_begin c cur np t')
    note c = alloc_claim_SomeD[OF k_fork_begin(5)]
    show ?thesis
    proof (rule free_ok_step[OF assms it nt], goal_cases)
      case (1 i)
      then show ?case by (auto simp: k_fork_begin(1) c(4) nth_upd_at split: if_splits)
    qed
  next
    case (k_fork_end c cur np)
    then have r: "cur < nproc s" "state (proc_at s cur) = RUNNING" using running_cpu[OF assms(1)] by blast+
    note fo = fork_owner[OF assms(1) r(1) k_fork_end(3)]
    have ne: "cur \<noteq> np" using fo(3) r(2) by auto
    obtain g where g: "ptable (snd (fork_finish K E cur np s)) = upd_at np g (ptable s)"
      "pid (g (proc_at s np)) = pid (proc_at s np)"
      using fork_finish_effect[OF fo(2) ne] by metis
    have tn: "pid (proc_at t j) = pid (proc_at s j) \<and> (j \<noteq> np \<longrightarrow> state (proc_at t j) = state (proc_at s j))"
      if "j < nproc s" for j
      using that g by (auto simp: k_fork_end(1) nth_upd_at)
    show ?thesis
    proof (rule free_ok_step[OF assms it nt], goal_cases)
      case (1 i)
      then show ?case using tn fo(3) by (cases "i = np") (auto simp: active_def)
    qed
  next
    case (k_forkret c cur)
    show ?thesis by (rule same) (simp add: k_forkret forkret_def nth_upd_at)
  next
    case (k_exit_begin c cur t')
    obtain fs w where "t' = upd_proc cur (\<lambda>p. p\<lparr>ofile := fs, cwd := 0\<rparr>) (s\<lparr>world := w\<rparr>)"
      using exit_files_InrD[OF k_exit_begin(4)] by metis
    then show ?thesis by (intro same) (simp add: k_exit_begin nth_upd_at)
  next
    case (k_exit_end c cur)
    then have r: "cur < nproc s" using running_cpu[OF assms(1)] by blast
    note ef = exit_final_effect[OF r k_exit_end(4)]
    show ?thesis
    proof (rule same, goal_cases)
      case (1 i)
      then show ?case using ef(6,7) ef(10)[of i]
        by (cases "i = cur") (auto simp: k_exit_end(1) handed_over_def)
    qed
  next
    case (k_wait c cur)
    let ?s = "if kpos (proc_at s cur) = KWait then sleep_resume cur s else s"
    have s: "proc_at ?s i = (proc_at s i)\<lparr>chan := chan (proc_at ?s i)\<rparr>" if "i < nproc s" for i
      using that by (auto simp: sleep_resume_def nth_upd_at)
    have n: "nproc ?s = nproc s" by (simp add: sleep_resume_def)
    have ps: "pid (proc_at ?s i) = pid (proc_at s i)" "state (proc_at ?s i) = state (proc_at s i)"
      if "i < nproc s" for i using s[OF that] by (metis proc.select_convs proc.update_convs(12) proc.surjective)+
    show ?thesis
    proof (cases rule: wait_iter_cases[where s = ?s and cur = cur and E = E])
      case (reap i w)
      show ?thesis
      proof (rule free_ok_step[OF assms it nt], goal_cases)
        case (1 j)
        then show ?case using reap(6) n ps
          by (cases "j = i") (auto simp: k_wait(1) wait_run_def nth_upd_at split: if_splits)
      qed
    next
      case fail
      show ?thesis by (rule same) (use fail(3) n ps in \<open>auto simp: k_wait(1) wait_run_def nth_upd_at\<close>)
    next
      case asleep
      show ?thesis
        by (rule same) (use asleep(4) n ps in \<open>auto simp: k_wait(1) wait_run_def nth_upd_at sleep_enter_def split: if_splits\<close>)
    qed
  next
    case (k_yield c cur)
    show ?thesis by (rule same) (auto simp: k_yield yield_enter_def nth_upd_at split: if_splits)
  next
    case (k_sleep c cur k ch)
    show ?thesis by (rule same) (auto simp: k_sleep sleep_enter_def nth_upd_at split: if_splits)
  next
    case (k_sleep_resume c cur k)
    show ?thesis by (rule same) (auto simp: k_sleep_resume sleep_resume_def nth_upd_at split: if_splits)
  next
    case (k_wakeup ch)
    show ?thesis
      by (rule free_ok_woken[OF assms it]) (simp add: k_wakeup wakeup_def woken_wakeup1)
  next
    case (k_kill n)
    show ?thesis by (rule free_ok_woken[OF assms it]) (simp add: k_kill woken_kill)
  next
    case (k_sbrk c cur n)
    show ?thesis by (rule free_ok_woken[OF assms it]) (simp add: k_sbrk woken_growproc)
  next
    case (k_process c cur p' w)
    show ?thesis by (rule free_ok_woken[OF assms it]) (use k_process in \<open>simp add: woken_same_control\<close>)
  next
    case (k_device w)
    show ?thesis by (rule same) (simp add: k_device)
  qed
qed

lemma free_ok_kstart:
  assumes "kstart K E s"
  shows "free_ok s"
proof -
  from assms obtain n nofile cs f where f: "ptable s = upd_at 0 f (replicate (Suc n) (zero_proc nofile))"
    "nextpid s = 2" "initproc s = Some 0" "cpus s = map scheduler_start cs"
    "state (f (zero_proc nofile)) = RUNNABLE" "pid (f (zero_proc nofile)) = 1"
    "parent (f (zero_proc nofile)) = None" "kpos (f (zero_proc nofile)) = KForkret"
    by (rule kstart_table)
  have "0 \<notin> pid_set s" using pids_nextpid[OF kinv_kstart[OF assms], of 0] by auto
  then show ?thesis
    using f by (auto simp: free_ok_def boot_def upd_at_def nth_Cons' zero_proc_def)
qed

interpretation kern_free: invariant_machine "kstart K E" "kstep K E" "\<lambda>s. kinv s \<and> free_ok s" for K E
  by unfold_locales (auto intro: kinv_kstart kinv_kstep free_ok_kstart free_ok_kstep)

end
