(* ===== verification/Xv6_OpProps.thy ===== *)
theory Xv6_OpProps
  imports Xv6_Demo Xv6_Pids
begin

text \<open>
  What \<open>exit\<close>, \<open>wait\<close> and \<open>kill\<close> do, branch by branch, in the states the kernel can reach.
\<close>

section \<open>exit\<close>

text \<open>The parts of an entry that neither \<open>wakeup1\<close> nor the loop of \<open>exit\<close> writes.\<close>

lemma wakeup1_frame:
  assumes "\<And>p x. f (p\<lparr>state := x\<rparr>) = f p"
  shows "map f (ptable (wakeup1 ch s)) = map f (ptable s)"
  by (simp add: wakeup1_def assms)

lemma reparent_one_field:
  assumes "\<And>p x. f (p\<lparr>state := x\<rparr>) = f p" "\<And>p x. f (p\<lparr>parent := x\<rparr>) = f p"
  shows "map f (ptable (reparent_one cur s k)) = map f (ptable s)"
  by (simp add: reparent_one_def Let_def wakeup1_frame[of f, OF assms(1)]
      upd_at_frame[of f "\<lambda>p. p\<lparr>parent := initproc s\<rparr>", OF assms(2)])

lemma exit_loop_frame:
  assumes "\<And>p x. f (p\<lparr>state := x\<rparr>) = f p" "\<And>p x. f (p\<lparr>parent := x\<rparr>) = f p"
  shows "map f (ptable (foldl (reparent_one cur) s ks)) = map f (ptable s)"
  by (induction ks arbitrary: s) (simp_all add: reparent_one_field[of f, OF assms])

lemma exit_final_frame:
  assumes "\<And>p x. f (p\<lparr>state := x\<rparr>) = f p" "\<And>p x. f (p\<lparr>parent := x\<rparr>) = f p" "i < nproc s"
  shows "f (proc_at (exit_final cur s) i) = f (proc_at s i)"
proof -
  have m: "map f (ptable (exit_final cur s)) = map f (ptable s)"
    by (simp add: exit_final_def Let_def wakeup1_frame[of f, OF assms(1)]
        upd_at_frame[of f "\<lambda>p. p\<lparr>state := ZOMBIE\<rparr>", OF assms(1)] exit_loop_frame[of f, OF assms(1,2)])
  then have "nproc (exit_final cur s) = nproc s" by (metis length_map)
  with m assms(3) show ?thesis by (metis nth_map)
qed

lemma close_files_all: "fst (close_files E fs w) = replicate (length fs) 0"
  by (induction fs arbitrary: w) (simp_all add: case_prod_beta)

text \<open>C8: exit, on every branch. For init it panics. For any other running process the result
  is a zombie with its pid, no open file and no directory; each of its children now has init
  as parent; its parent, if it slept in wait, is no longer asleep, and neither is init if a
  handed-over child was already a zombie.\<close>

theorem exit_outcome:
  assumes "reachable (kstart K E) (kstep K E) s" "runs s c cur" "kexit E cur s = r"
  shows "if initproc s = Some cur then r = Inl (Panic ''init exiting'')
    else (\<exists>t. r = Inr t \<and> state (proc_at t cur) = ZOMBIE \<and> pid (proc_at t cur) = pid (proc_at s cur) \<and>
      ofile (proc_at t cur) = replicate (length (ofile (proc_at s cur))) 0 \<and> cwd (proc_at t cur) = 0 \<and>
      (\<forall>j<nproc s. parent (proc_at s j) = Some cur \<longrightarrow> parent (proc_at t j) = initproc s) \<and>
      (\<forall>j<nproc s. parent (proc_at t j) \<noteq> Some cur) \<and>
      (\<forall>q<nproc s. parent (proc_at s cur) = Some q \<longrightarrow> chan (proc_at s q) = ProcChan q \<longrightarrow>
         state (proc_at t q) \<noteq> SLEEPING) \<and>
      (\<forall>j<nproc s. \<forall>k. parent (proc_at s j) = Some cur \<longrightarrow> state (proc_at s j) = ZOMBIE \<longrightarrow>
         initproc s = Some k \<longrightarrow> chan (proc_at s k) = ProcChan k \<longrightarrow> state (proc_at t k) \<noteq> SLEEPING))"
proof (cases "initproc s = Some cur")
  case True
  then show ?thesis using assms(3) by (auto simp: kexit_def exit_files_def)
next
  case ni: False
  have inv: "kinv s" using kern.reachable_inv[OF assms(1)] .
  have run: "cur < nproc s" "state (proc_at s cur) = RUNNING" using running_cpu[OF inv] assms(2) by auto
  obtain fs0 w0 where cf: "close_files E (ofile (proc_at s cur)) (world s) = (fs0, w0)" by fastforce
  obtain w where fl: "exit_files E cur s =
      Inr (upd_proc cur (\<lambda>p. p\<lparr>ofile := replicate (length (ofile (proc_at s cur))) 0, cwd := 0\<rparr>) (s\<lparr>world := w\<rparr>))"
    using ni close_files_all[of E "ofile (proc_at s cur)" "world s"]
    by (simp add: exit_files_def Let_def cf)
  define u where "u = upd_proc cur (\<lambda>p. p\<lparr>ofile := replicate (length (ofile (proc_at s cur))) 0, cwd := 0\<rparr>) (s\<lparr>world := w\<rparr>)"
  have r: "r = Inr (exit_final cur u)" using assms(3) fl by (auto simp: kexit_def u_def)
  have u: "nproc u = nproc s" "initproc u = initproc s"
    "\<And>i. i < nproc s \<Longrightarrow> parent (proc_at u i) = parent (proc_at s i) \<and> state (proc_at u i) = state (proc_at s i) \<and>
       chan (proc_at u i) = chan (proc_at s i) \<and> pid (proc_at u i) = pid (proc_at s i)"
    "ofile (proc_at u cur) = replicate (length (ofile (proc_at s cur))) 0" "cwd (proc_at u cur) = 0"
    using run(1) by (auto simp: u_def nth_upd_at)
  have cu: "cur < nproc u" "initproc u \<noteq> Some cur" using run ni u by auto
  note ef = exit_final_effect[OF cu]
  have notself: "parent (proc_at s cur) \<noteq> Some cur"
    using childless_unless_live(3)[OF inv run(1)] by force
  obtain k where k: "k < nproc s" "initproc s = Some k" using init_procE[OF inv] by metis
  have kc: "k \<noteq> cur" using k ni by auto
  have par: "parent (proc_at (exit_final cur u) j) =
      (if parent (proc_at s j) = Some cur then initproc s else parent (proc_at s j))" if "j < nproc s" for j
  proof (cases "j = cur")
    case True
    then show ?thesis using ef(9) notself u(3)[OF run(1)] by simp
  next
    case False
    then show ?thesis using ef(10)[of j] that u by (simp add: handed_over_def)
  qed
  have "state (proc_at (exit_final cur u) q) \<noteq> SLEEPING"
    if "q < nproc s" "parent (proc_at s cur) = Some q" "chan (proc_at s q) = ProcChan q" for q
  proof -
    have "q \<noteq> cur" using that(2) notself by auto
    then show ?thesis using ef(11)[of q] that u run(1) by simp
  qed
  moreover have "state (proc_at (exit_final cur u) k) \<noteq> SLEEPING"
    if "j < nproc s" "parent (proc_at s j) = Some cur" "state (proc_at s j) = ZOMBIE" "chan (proc_at s k) = ProcChan k" for j
    using ef(12)[of k j] that k kc u by simp
  moreover have "pid (proc_at (exit_final cur u) cur) = pid (proc_at s cur)" using ef(7) u(3)[OF run(1)] by simp
  moreover have "ofile (proc_at (exit_final cur u) cur) = ofile (proc_at u cur)"
    "cwd (proc_at (exit_final cur u) cur) = cwd (proc_at u cur)"
    using cu(1) by (intro exit_final_frame; simp)+
  moreover have "\<forall>j<nproc s. parent (proc_at (exit_final cur u) j) \<noteq> Some cur"
    using par k kc by auto
  ultimately show ?thesis using r ef(6) par u(4,5) k by (auto simp: ni)
qed

theorem exit_outcome_witness:
  "\<exists>t. kexit demo_E 1 demo7 = Inr t \<and> state (proc_at t 1) = ZOMBIE \<and> state (proc_at t 0) \<noteq> SLEEPING"
proof -
  have h: "runs demo7 0 1" "initproc demo7 \<noteq> Some 1" "parent (proc_at demo7 1) = Some 0"
    "chan (proc_at demo7 0) = ProcChan 0" "(0::nat) < nproc demo7" by code_simp+
  show ?thesis using exit_outcome[OF demo7_reach h(1) refl] h(2-5) by auto
qed

section \<open>wait\<close>

text \<open>One pass of wait over the table. If the caller has a zombie child, the one with the
  lowest index is reaped: its pid is returned, its stack and page table are freed, its slot is
  cleared and no other slot changes. Otherwise wait returns -1 with nothing changed if the
  caller has no children or was killed, and else goes to sleep on its own structure.\<close>

lemma wait_outcome:
  "case first_index (\<lambda>p. parent p = Some cur \<and> state p = ZOMBIE) (ptable s) of
     Some i \<Rightarrow> fst (wait_iter E cur s) = Some (pid (proc_at s i)) \<and>
       (let t = snd (wait_iter E cur s); p = proc_at t i in
          state p = UNUSED \<and> pid p = 0 \<and> parent p = None \<and> name p = [] \<and> killed p = 0 \<and> kstack p = 0 \<and>
          world t = freevm E (pgdir (proc_at s i)) (kfree E (kstack (proc_at s i)) (world s)) \<and>
          (\<forall>j. j \<noteq> i \<longrightarrow> proc_at t j = proc_at s j))
   | None \<Rightarrow>
       if (\<forall>j<nproc s. parent (proc_at s j) \<noteq> Some cur) \<or> killed (proc_at s cur) \<noteq> 0
       then wait_iter E cur s = (Some (-1), s)
       else wait_iter E cur s = (None, sleep_enter cur (ProcChan cur) s)"
proof (cases rule: wait_iter_cases[where s = s and cur = cur and E = E])
  case (reap i w)
  then have "first_index (\<lambda>p. parent p = Some cur \<and> state p = ZOMBIE) (ptable s) = Some i"
    by (simp add: first_index_Some_iff)
  with reap show ?thesis by (simp add: Let_def)
next
  case fail
  then have "first_index (\<lambda>p. parent p = Some cur \<and> state p = ZOMBIE) (ptable s) = None"
    by (auto simp: first_index_None in_set_conv_nth)
  with fail show ?thesis by auto
next
  case asleep
  then have "first_index (\<lambda>p. parent p = Some cur \<and> state p = ZOMBIE) (ptable s) = None"
    by (auto simp: first_index_None in_set_conv_nth)
  with asleep show ?thesis by auto
qed

lemma wait_outcome_witness:
  "fst (wait_iter demo_E 0 demo10) = Some 2 \<and> state (proc_at (snd (wait_iter demo_E 0 demo10)) 1) = UNUSED"
proof -
  have "first_index (\<lambda>p. parent p = Some 0 \<and> state p = ZOMBIE) (ptable demo10) = Some 1" by code_simp
  moreover have "pid (proc_at demo10 1) = 2" by code_simp
  ultimately show ?thesis using wait_outcome[where cur = 0 and s = demo10 and E = demo_E] by (simp add: Let_def)
qed

text \<open>When a running process's wait returns a pid, that pid was in use and is no longer,
  every other pid still is, the number of processes has gone down by one, and the pid belonged
  to a zombie child of the caller; -1 is never the pid of a process.\<close>

lemma wait_reaps:
  assumes "reachable (kstart K E) (kstep K E) s" "runs s c cur" "wait_iter E cur s = (Some k, t)" "k \<noteq> -1"
  shows "pid_set t = pid_set s - {k} \<and> k \<in> pid_set s \<and> getNumProc t = getNumProc s - 1 \<and>
    (\<exists>i<nproc s. pid (proc_at s i) = k \<and> parent (proc_at s i) = Some cur \<and> state (proc_at s i) = ZOMBIE)"
proof -
  have inv: "kinv s" using kern.reachable_inv[OF assms(1)] .
  obtain i w where i: "i < nproc s" "parent (proc_at s i) = Some cur" "state (proc_at s i) = ZOMBIE"
    "wait_iter E cur s = (Some (pid (proc_at s i)),
       upd_proc i (\<lambda>p. p\<lparr>kstack := 0, pid := 0, parent := None, name := [], killed := 0, state := UNUSED\<rparr>)
         (s\<lparr>world := w\<rparr>))"
    using assms(3,4) by (cases rule: wait_iter_cases[where s = s and cur = cur and E = E]) auto
  have k: "k = pid (proc_at s i)" using i(4) assms(3) by simp
  have t: "proc_at t j = (if j = i then (proc_at s i)\<lparr>kstack := 0, pid := 0, parent := None, name := [],
      killed := 0, state := UNUSED\<rparr> else proc_at s j)" "nproc t = nproc s" if "j < nproc s" for j
    using i(4) assms(3) that by (auto simp: nth_upd_at)
  have act: "active (proc_at t j) \<longleftrightarrow> j \<noteq> i \<and> active (proc_at s j)"
    "j \<noteq> i \<Longrightarrow> pid (proc_at t j) = pid (proc_at s j)" if "j < nproc s" for j
    using t(1)[OF that] by (auto simp: active_def)
  have ai: "active (proc_at s i)" using i(3) by (simp add: active_def)
  then have kin: "k \<in> pid_set s" using i(1) k by (auto simp: pid_set_def)
  have "pid_set t = pid_set s - {k}"
    unfolding pid_set_def t(2)[OF i(1)] k
    using act pid_inj[OF inv _ i(1) _ ai] by (auto simp: image_iff) metis+
  moreover have "{j. j < nproc s \<and> active (proc_at t j)} = {j. j < nproc s \<and> active (proc_at s j)} - {i}"
    using act by auto
  then have "card {j. j < nproc t \<and> active (proc_at t j)} = card {j. j < nproc s \<and> active (proc_at s j)} - 1"
    using i(1) ai t(2)[OF i(1)] by simp
  then have "getNumProc t = getNumProc s - 1"
    using numproc_pos[OF inv] by (simp add: getNumProc_card)
  ultimately show ?thesis using i k kin by blast
qed

lemma wait_reaps_witness:
  "pid_set (snd (wait_iter demo_E 0 demo10)) = pid_set demo10 - {2} \<and> 2 \<in> pid_set demo10"
proof -
  have r: "fst (wait_iter demo_E 0 demo10) = Some 2" and h: "runs demo10 0 0" by code_simp+
  from r have "wait_iter demo_E 0 demo10 = (Some 2, snd (wait_iter demo_E 0 demo10))" by (metis prod.collapse)
  from wait_reaps[OF demo10_reach h this] show ?thesis by simp
qed

section \<open>kill\<close>

text \<open>kill with the pid of a used slot returns 0, sets the killed flag of exactly that slot,
  makes the process runnable if it was asleep, and changes nothing else; free slots that still
  carry an old pid never get in the way. With a number that no slot carries it returns -1 and
  changes nothing.\<close>

lemma kill_outcome:
  assumes "reachable (kstart K E) (kstep K E) s"
  shows "(\<forall>i<nproc s. active (proc_at s i) \<longrightarrow>
      kill (pid (proc_at s i)) s = (0, upd_proc i (\<lambda>p. p\<lparr>killed := 1,
        state := (if state p = SLEEPING then RUNNABLE else state p)\<rparr>) s)) \<and>
    (\<forall>k. (\<forall>i<nproc s. pid (proc_at s i) \<noteq> k) \<longrightarrow> kill k s = (-1, s))"
proof (intro conjI allI impI)
  have inv: "kinv s" "free_ok s" using kern_free.reachable_inv[OF assms] by auto
  fix i assume i: "i < nproc s" "active (proc_at s i)"
  have "pid (proc_at s j) \<noteq> pid (proc_at s i)" if "j < i" for j
  proof (cases "active (proc_at s j)")
    case True
    then show ?thesis using pid_inj[OF inv(1), of j i] i that by auto
  next
    case False
    then have "pid (proc_at s j) \<notin> pid_set s" using inv(2) i that by (simp add: free_ok_def active_def)
    then show ?thesis using i by (auto simp: pid_set_def)
  qed
  then have "first_index (\<lambda>p. pid p = pid (proc_at s i)) (ptable s) = Some i"
    using i by (simp add: first_index_Some_iff)
  then show "kill (pid (proc_at s i)) s = (0, upd_proc i (\<lambda>p. p\<lparr>killed := 1,
        state := (if state p = SLEEPING then RUNNABLE else state p)\<rparr>) s)"
    by (simp add: kill_def)
next
  fix k assume "\<forall>i<nproc s. pid (proc_at s i) \<noteq> k"
  then have "first_index (\<lambda>p. pid p = k) (ptable s) = None" by (auto simp: first_index_None in_set_conv_nth)
  then show "kill k s = (-1, s)" by (simp add: kill_def)
qed

lemma kill_outcome_witness:
  "kill 1 demo5 = (0, upd_proc 0 (\<lambda>p. p\<lparr>killed := 1,
      state := (if state p = SLEEPING then RUNNABLE else state p)\<rparr>) demo5) \<and>
   kill 7 demo5 = (-1, demo5)"
proof -
  have h: "(0::nat) < nproc demo5" "active (proc_at demo5 0)" "pid (proc_at demo5 0) = 1"
    "\<forall>i \<in> set [0..<nproc demo5]. pid (proc_at demo5 i) \<noteq> 7" by code_simp+
  show ?thesis using kill_outcome[OF demo5_reach] h by auto
qed

text \<open>C15: A flaw of kill: it compares the pids of free slots too, so kill(0) succeeds although no
  process has pid 0. When the first free slot carries pid 0, kill(0) marks it, allocproc does
  not clear the mark, and the next process forked into the slot is born killed.\<close>

theorem kill_zero_poisons_fork:
  assumes "reachable (kstart K E) (kstep K E) s" "runs s c cur"
    and "first_index (\<lambda>p. state p = UNUSED) (ptable s) = Some np" "pid (proc_at s np) = 0"
    and "fork K E cur (snd (kill 0 s)) = (r, t)" "r \<noteq> -1"
  shows "0 \<notin> pid_set s \<and> fst (kill 0 s) = 0 \<and> pid (proc_at t np) = r \<and> killed (proc_at t np) = 1"
proof -
  have inv: "kinv s" using kern.reachable_inv[OF assms(1)] .
  have run: "cur < nproc s" "state (proc_at s cur) = RUNNING" using running_cpu[OF inv] assms(2) by auto
  have np: "np < nproc s" "state (proc_at s np) = UNUSED" "\<forall>j<np. state (proc_at s j) \<noteq> UNUSED"
    using first_index_SomeD[OF assms(3)] by auto
  have z: "0 \<notin> pid_set s" using pids_nextpid[OF inv, of 0] by auto
  have "pid (proc_at s j) \<noteq> 0" if "j < np" for j
    using np pid_range[OF inv, of j] that by (auto simp: active_def)
  then have "first_index (\<lambda>p. pid p = 0) (ptable s) = Some np"
    using np assms(4) by (simp add: first_index_Some_iff)
  then have k: "kill 0 s = (0, upd_proc np (\<lambda>p. p\<lparr>killed := 1,
      state := (if state p = SLEEPING then RUNNABLE else state p)\<rparr>) s)"
    by (simp add: kill_def)
  define s0 where "s0 = snd (kill 0 s)"
  have s0: "nproc s0 = nproc s" "proc_at s0 np = (proc_at s np)\<lparr>killed := 1\<rparr>"
    "\<And>j. j \<noteq> np \<Longrightarrow> proc_at s0 j = proc_at s j"
    using np by (simp_all add: s0_def k)
  have "first_index (\<lambda>p. state p = UNUSED) (ptable s0) = Some np"
    using s0 np by (auto simp: first_index_Some_iff)
  then obtain s1 where cl: "alloc_claim s0 = (Some np, s1)" by (simp add: alloc_claim_def)
  note c = alloc_claim_SomeD[OF cl]
  have s1: "np < nproc s1" "killed (proc_at s1 np) = 1" using np s0 by (simp_all add: c(4))
  have ne: "cur \<noteq> np" using np run by auto
  have t: "r = fst (fork_finish K E cur np s1)" "t = snd (fork_finish K E cur np s1)"
    using assms(5) by (simp_all add: fork_def cl flip: s0_def)
  have "pid (proc_at t np) = r \<and> killed (proc_at t np) = 1"
    by (rule fork_finish_detail[OF s1(1) ne, of E K]) (use assms(6) s1 t in auto)
  then show ?thesis using z k by simp
qed

theorem kill_zero_poisons_fork_witness:
  "fst (kill 0 demo2) = 0 \<and> killed (proc_at (snd (fork demo_K demo_E 0 (snd (kill 0 demo2)))) 1) = 1"
proof -
  have h: "runs demo2 0 0" "first_index (\<lambda>p. state p = UNUSED) (ptable demo2) = Some 1"
    "pid (proc_at demo2 1) = 0" "fst (fork demo_K demo_E 0 (snd (kill 0 demo2))) \<noteq> -1" by code_simp+
  show ?thesis
    using kill_zero_poisons_fork[OF demo2_reach h(1-3) surjective_pairing h(4)] by simp
qed

end
