(* ===== verification/Xv6_SchedProps.thy ===== *)
theory Xv6_SchedProps
  imports Xv6_Demo
begin

text \<open>
  The lock discipline of \<open>sleep\<close>, the choice of the scheduler, the current process of a CPU,
  and the size of a process under \<open>sbrk\<close>.
\<close>

section \<open>sleep\<close>

text \<open>
  The locks held after a sequence of lock operations; \<open>None\<close> if one takes a lock that is held
  or releases one that is not.
\<close>

fun locks_after :: "lockop list \<Rightarrow> klock set \<Rightarrow> klock set option" where
  "locks_after [] held = Some held"
| "locks_after (Acquire l # ops) held = (if l \<in> held then None else locks_after ops (insert l held))"
| "locks_after (Release l # ops) held = (if l \<in> held then locks_after ops (held - {l}) else None)"

text \<open>The lock discipline of sleep. Called by a process that holds exactly the lock it
  passes, sleep either panics (no process, or no lock) or takes and releases locks so that at
  least one of the two locks is held all the time, exactly ptable.lock when it enters sched,
  whose checks then pass, and exactly the lock passed when it returns; the process is then
  asleep on the channel, and after the wakeup its channel is cleared.\<close>

lemma sleep_discipline:
  "case sleep_before p lk ch s of
     Inl e \<Rightarrow> p = None \<and> e = Panic ''sleep'' \<or> p \<noteq> None \<and> lk = None \<and> e = Panic ''sleep without lk''
   | Inr (ops, t) \<Rightarrow> (\<exists>cur l. p = Some cur \<and> lk = Some l \<and>
       (\<forall>n. locks_after (take n ops) {l} \<noteq> None \<and> locks_after (take n ops) {l} \<noteq> Some {}) \<and>
       locks_after ops {l} = Some {PtableLock} \<and>
       sched_check (PtableLock \<in> {PtableLock}) (int (card {PtableLock})) SLEEPING False = None \<and>
       (cur < nproc s \<longrightarrow> state (proc_at t cur) = SLEEPING \<and> chan (proc_at t cur) = ch) \<and>
       (\<forall>u. locks_after (fst (sleep_after cur l u)) {PtableLock} = Some {l} \<and>
          (cur < nproc u \<longrightarrow> chan (proc_at (snd (sleep_after cur l u)) cur) = NullChan)))"
proof -
  have t: "locks_after (take n [Acquire PtableLock, Release l]) {l} \<noteq> None \<and>
      locks_after (take n [Acquire PtableLock, Release l]) {l} \<noteq> Some {}" if "l \<noteq> PtableLock" for n l
    using that by (cases n; cases "n - 1") (auto simp: numeral_2_eq_2)
  have e: "{PtableLock, l} - {l} = {PtableLock}" "{l, PtableLock} - {PtableLock} = {l}" if "l \<noteq> PtableLock" for l
    using that by auto
  show ?thesis
    using t e
    by (auto simp: sleep_before_def sleep_after_def sleep_enter_def sleep_resume_def sched_check_def
        split: option.splits)
qed

lemma sleep_discipline_witness:
  "\<exists>ops t. sleep_before (Some 0) (Some (OtherLock 5)) TicksChan demo2 = Inr (ops, t) \<and>
     locks_after ops {OtherLock 5} = Some {PtableLock} \<and> state (proc_at t 0) = SLEEPING"
proof -
  have n: "(0::nat) < nproc demo2" by code_simp
  have r: "\<exists>x. sleep_before (Some 0) (Some (OtherLock 5)) TicksChan demo2 = Inr x" by (simp add: sleep_before_def)
  then obtain ops t where "sleep_before (Some 0) (Some (OtherLock 5)) TicksChan demo2 = Inr (ops, t)" by fastforce
  with sleep_discipline[where p = "Some 0" and lk = "Some (OtherLock 5)" and ch = TicksChan and s = demo2] n show ?thesis by auto
qed

section \<open>sched\<close>

text \<open>
  \<open>sched\<close> on the CPU \<open>c\<close>, for the process \<open>cur\<close>: its checks, then the switch to the scheduler, and
  what it does when the process is switched to again. \<open>away\<close> stands for what happens between the
  two: the state then, and the CPU the process goes on on. \<open>intena\<close> is a local variable, on the
  process's own stack.
\<close>

definition sched ::
  "('w kstate \<Rightarrow> nat \<times> 'w kstate) \<Rightarrow> bool \<Rightarrow> bool \<Rightarrow> nat \<Rightarrow> nat \<Rightarrow> 'w kstate \<Rightarrow> kfault + nat \<times> 'w kstate" where
  "sched away holding_ptable_lock interrupts_on c cur s =
     (case sched_check holding_ptable_lock (ncli (cpus s ! c)) (state (proc_at s cur)) interrupts_on of
        Some e \<Rightarrow> Inl e
      | None \<Rightarrow>
          (let saved = intena (cpus s ! c); (d, t) = away s
           in Inr (d, upd_cpu d (\<lambda>k. k\<lparr>intena := saved\<rparr>) t)))"

text \<open>Whether interrupts are on again after the last \<open>popcli\<close> is a property of the process: it takes the value from
  the CPU it left to the one it goes on on. Nothing else of the state changes, and a process that
  is still RUNNING, or holds no lock or a second one, does not get as far.\<close>

lemma sched_keeps_intena:
  assumes "sched away h i c cur s = r" "away s = (d, t)" "d < length (cpus t)"
  shows "if h \<and> ncli (cpus s ! c) = 1 \<and> state (proc_at s cur) \<noteq> RUNNING \<and> \<not> i
    then (\<exists>u. r = Inr (d, u) \<and> intena (cpus u ! d) = intena (cpus s ! c) \<and> ptable u = ptable t \<and>
      map cproc (cpus u) = map cproc (cpus t) \<and> (kinv t \<longrightarrow> kinv u))
    else \<exists>m. r = Inl (Panic m)"
proof -
  let ?u = "upd_cpu d (\<lambda>k. k\<lparr>intena := intena (cpus s ! c)\<rparr>) t"
  have m: "map cproc (cpus ?u) = map cproc (cpus t)" by (simp add: upd_at_frame[of cproc])
  have "kinv ?u" if "kinv t"
    by (rule kinv_woken[OF that]) (use m in \<open>simp add: woken_state_def\<close>)
  then show ?thesis using assms m by (auto simp: sched_def sched_check_def Let_def)
qed

section \<open>The scheduler\<close>

text \<open>The scheduler's choice. An idle CPU whose loop stands at entry \<open>scan\<close> dispatches a
  runnable process at or after it, no later than any runnable entry from there on, so no
  runnable process is skipped within a round; the process becomes RUNNING on that CPU, with
  its switch count one higher (as a 32-bit int), and no other process changes. With no
  runnable entry left in the round, the CPU stays idle and starts the next round at entry 0.\<close>

lemma scheduler_choice:
  assumes "c < length (cpus s)" "cproc (cpus s ! c) = None" "t = scheduler_step E c s"
  shows "(\<forall>j. scan (cpus s ! c) \<le> j \<and> j < nproc s \<and> state (proc_at s j) = RUNNABLE \<longrightarrow>
      (\<exists>i. scan (cpus s ! c) \<le> i \<and> i \<le> j \<and> state (proc_at s i) = RUNNABLE \<and>
        cproc (cpus t ! c) = Some i \<and> scan (cpus t ! c) = i \<and> state (proc_at t i) = RUNNING \<and>
        nrswitch (proc_at t i) = to_cint (nrswitch (proc_at s i) + 1) \<and>
        (\<forall>k. k \<noteq> i \<longrightarrow> proc_at t k = proc_at s k))) \<and>
    ((\<forall>j<nproc s. scan (cpus s ! c) \<le> j \<longrightarrow> state (proc_at s j) \<noteq> RUNNABLE) \<longrightarrow>
      ptable t = ptable s \<and> cproc (cpus t ! c) = None \<and> scan (cpus t ! c) = 0)"
proof (cases "first_index_from (\<lambda>p. state p = RUNNABLE) (scan (cpus s ! c)) (ptable s)")
  case None
  then have "t = upd_cpu c (\<lambda>k. k\<lparr>scan := 0\<rparr>) s" using assms(3) by (simp add: scheduler_step_def)
  then show ?thesis using assms(1,2) None[unfolded first_index_from_None] by auto
next
  case (Some i)
  have i: "scan (cpus s ! c) \<le> i" "i < nproc s" "state (proc_at s i) = RUNNABLE"
    "\<And>k. scan (cpus s ! c) \<le> k \<Longrightarrow> k < i \<Longrightarrow> state (proc_at s k) \<noteq> RUNNABLE"
    using first_index_from_SomeD[OF Some] by auto
  have t: "ptable t = upd_at i (\<lambda>p. p\<lparr>state := RUNNING, nrswitch := to_cint (nrswitch p + 1)\<rparr>) (ptable s)"
    "cpus t = upd_at c (\<lambda>k. k\<lparr>cproc := Some i, scan := i\<rparr>) (cpus s)"
    using Some assms(3) by (simp_all add: scheduler_step_def)
  have "i \<le> j" if "scan (cpus s ! c) \<le> j" "state (proc_at s j) = RUNNABLE" for j
    using i(4)[of j] that by (meson not_less)
  then show ?thesis using i t assms(1) by (auto intro!: exI[of _ i])
qed

lemma scheduler_choice_witness:
  "cproc (cpus demo6 ! 0) = Some 1 \<and> state (proc_at demo6 1) = RUNNING"
proof -
  have h: "0 < length (cpus demo5)" "cproc (cpus demo5 ! 0) = None" "demo6 = scheduler_step demo_E 0 demo5"
    "scan (cpus demo5 ! 0) = 1" "(1::nat) < nproc demo5" "state (proc_at demo5 1) = RUNNABLE"
    by code_simp+
  from scheduler_choice[OF h(1-3)] h(4-6) obtain i where "1 \<le> i" "i \<le> 1" "cproc (cpus demo6 ! 0) = Some i"
    "state (proc_at demo6 i) = RUNNING" by auto
  then show ?thesis by simp
qed

text \<open>The current process. With distinct APIC ids, in every reachable state myproc on the CPU
  that runs a process is that process, which is in state RUNNING; mycpu panics with interrupts
  enabled and for an APIC id that no CPU has.\<close>

lemma myproc_current:
  assumes "reachable (kstart K E) (kstep K E) s" "distinct (map apicid (cpus s))" "runs s c cur"
  shows "myproc (apicid (cpus s ! c)) (cpus s) = Inr (Some cur) \<and> state (proc_at s cur) = RUNNING \<and>
    mycpu True (apicid (cpus s ! c)) (cpus s) = Inl (Panic (''mycpu called with interrupts enabled'' @ [newline])) \<and>
    (\<forall>a. a \<notin> apicid ` set (cpus s) \<longrightarrow> mycpu False a (cpus s) = Inl (Panic (''unknown apicid'' @ [newline])))"
proof -
  have "state (proc_at s cur) = RUNNING" using running_cpu[OF kern.reachable_inv[OF assms(1)]] assms(3) by auto
  moreover have "first_index (\<lambda>k. apicid k = a) (cpus s) = None" if "a \<notin> apicid ` set (cpus s)" for a
    using that by (auto simp: first_index_None)
  ultimately show ?thesis
    using mycpu_distinct[OF assms(2)] assms(3) by (auto simp: myproc_def mycpu_def)
qed

lemma myproc_current_witness: "myproc 0 (cpus demo2) = Inr (Some 0) \<and> state (proc_at demo2 0) = RUNNING"
proof -
  have h: "distinct (map apicid (cpus demo2))" "runs demo2 0 0" "apicid (cpus demo2 ! 0) = 0" by code_simp+
  show ?thesis using myproc_current[OF demo2_reach h(1,2)] h(3) by simp
qed

section \<open>sbrk\<close>

text \<open>
  The documented results of \<open>allocuvm\<close> (the new size, or 0 when memory runs out) and
  \<open>deallocuvm\<close> (the new size).
\<close>

definition vm_contract :: "'w kext \<Rightarrow> bool" where
  "vm_contract E \<longleftrightarrow>
     (\<forall>pg old new w. old \<le> new \<longrightarrow> fst (allocuvm E pg old new w) \<in> {0, new}) \<and>
     (\<forall>pg old new w. new < old \<longrightarrow> fst (deallocuvm E pg old new w) = new)"

lemma growproc_result:
  assumes "(if n > 0 then allocuvm E (pgdir (proc_at s cur)) (sz (proc_at s cur)) (sz (proc_at s cur) + word_of_int n) (world s)
      else if n < 0 then deallocuvm E (pgdir (proc_at s cur)) (sz (proc_at s cur)) (sz (proc_at s cur) + word_of_int n) (world s)
      else (sz (proc_at s cur), world s)) = (r, w)"
  shows "n \<noteq> 0 \<and> r = 0 \<Longrightarrow> growproc E cur n s = (-1, s\<lparr>world := w\<rparr>)"
    "\<not> (n \<noteq> 0 \<and> r = 0) \<Longrightarrow> fst (growproc E cur n s) = 0 \<and>
       ptable (snd (growproc E cur n s)) = upd_at cur (\<lambda>p. p\<lparr>sz := r\<rparr>) (ptable s)"
  unfolding growproc_def Let_def assms by auto

text \<open>C14: growproc for a process whose old and new sizes are below 2 GB, on documented results of
  the memory functions: growing either fails with -1 and no change to the table or succeeds
  with the new size; shrinking succeeds with the new size, except that a shrink to size 0
  reports failure and leaves the old size in place although the pages are gone.\<close>

theorem growproc_outcome:
  assumes "vm_contract E" "cur < nproc s" "old = uint (sz (proc_at s cur))"
    and "0 \<le> old + n" "old + n < 2147483648" "old < 2147483648" "growproc E cur n s = (r, t)"
  shows "(r = 0 \<or> r = -1) \<and>
    (r = 0 \<longrightarrow> uint (sz (proc_at t cur)) = old + n \<and> (\<forall>j. j \<noteq> cur \<longrightarrow> proc_at t j = proc_at s j)) \<and>
    (r = -1 \<longrightarrow> ptable t = ptable s) \<and>
    (n = 0 \<longrightarrow> r = 0) \<and>
    (n < 0 \<longrightarrow> (r = -1 \<longleftrightarrow> old + n = 0) \<and>
       (old + n = 0 \<longrightarrow> world t = snd (deallocuvm E (pgdir (proc_at s cur)) (sz (proc_at s cur)) 0 (world s))))"
proof -
  let ?o = "sz (proc_at s cur)" and ?n = "sz (proc_at s cur) + word_of_int n"
  have u: "uint ?n = old + n"
    using assms(3-6) by (simp add: uint_word_ariths uint_word_of_int mod_simps)
  have le: "?o \<le> ?n \<longleftrightarrow> 0 \<le> n" "?n < ?o \<longleftrightarrow> n < 0" using u assms(3) by (simp_all add: word_le_def word_less_def)
  have z: "?n = 0 \<longleftrightarrow> old + n = 0" using u by (metis uint_0_iff)
  obtain q w where q: "(if n > 0 then allocuvm E (pgdir (proc_at s cur)) ?o ?n (world s)
      else if n < 0 then deallocuvm E (pgdir (proc_at s cur)) ?o ?n (world s) else (?o, world s)) = (q, w)"
    by fastforce
  note g = growproc_result[OF q]
  have qv: "q = (if n > 0 \<and> q = 0 then 0 else ?n)"
  proof -
    consider "n > 0" | "n < 0" | "n = 0" by linarith
    then show ?thesis
    proof cases
      case 1
      then have "fst (allocuvm E (pgdir (proc_at s cur)) ?o ?n (world s)) \<in> {0, ?n}"
        using assms(1) le(1) unfolding vm_contract_def by (meson less_imp_le)
      with 1 q show ?thesis by auto
    next
      case 2
      then have "fst (deallocuvm E (pgdir (proc_at s cur)) ?o ?n (world s)) = ?n"
        using assms(1) le(2) unfolding vm_contract_def by blast
      with 2 q show ?thesis by auto
    next
      case 3
      with q show ?thesis by auto
    qed
  qed
  show ?thesis
  proof (cases "n \<noteq> 0 \<and> q = 0")
    case True
    then have r: "r = -1" "t = s\<lparr>world := w\<rparr>" using g(1) assms(7) by auto
    have "old + n = 0" "w = snd (deallocuvm E (pgdir (proc_at s cur)) ?o 0 (world s))" if "n < 0"
    proof -
      have "?n = 0" using that qv True by auto
      then show "old + n = 0" using z by blast
      show "w = snd (deallocuvm E (pgdir (proc_at s cur)) ?o 0 (world s))"
        using q that \<open>?n = 0\<close> by (metis not_less_iff_gr_or_eq snd_conv)
    qed
    then show ?thesis using r True by auto
  next
    case False
    then have r: "r = 0" "ptable t = upd_at cur (\<lambda>p. p\<lparr>sz := q\<rparr>) (ptable s)" using g(2) assms(7) by auto
    have qn: "q = ?n" using qv False by (auto split: if_splits)
    then have "\<not> (n < 0 \<and> old + n = 0)" using False z by auto
    then show ?thesis using r qn u assms(2) by auto
  qed
qed

theorem growproc_outcome_witness:
  "fst (growproc demo_E 0 (- 4096) demo2) = -1 \<and> ptable (snd (growproc demo_E 0 (- 4096) demo2)) = ptable demo2"
proof -
  have v: "vm_contract demo_E" by (simp add: vm_contract_def demo_E_def)
  have h: "(0::nat) < nproc demo2" "(4096::int) = uint (sz (proc_at demo2 0))" by code_simp+
  from growproc_outcome[OF v h(1,2) _ _ _ surjective_pairing, of "- 4096"] show ?thesis by simp
qed

end
