(* ===== verification/Xv6_User.thy ===== *)
theory Xv6_User
  imports Xv6_Syscall
begin

text \<open>
  A system call as a user program makes it: the call of one of the functions declared in
  \<open>user.h\<close>, its stub in \<open>usys.S\<close>, and \<open>syscall\<close>. While a process is in user mode its registers
  are the contents of \<open>tframe\<close>: the trap code, which is not in the repository, saves them there on
  \<open>int\<close> and loads them from there when \<open>syscall\<close> has returned. Calls follow the i386 C
  convention: arguments on the stack, the last one pushed first, then the return address.
\<close>

section \<open>The declarations of user.h\<close>

datatype ctype = CInt | CShort | CPtr

fun params :: "sysname \<Rightarrow> ctype list" where
  "params S_fork = []"
| "params S_exit = []"
| "params S_wait = []"
| "params S_pipe = [CPtr]"
| "params S_write = [CInt, CPtr, CInt]"
| "params S_read = [CInt, CPtr, CInt]"
| "params S_close = [CInt]"
| "params S_kill = [CInt]"
| "params S_exec = [CPtr, CPtr]"
| "params S_open = [CPtr, CInt]"
| "params S_mknod = [CPtr, CShort, CShort]"
| "params S_unlink = [CPtr]"
| "params S_fstat = [CInt, CPtr]"
| "params S_link = [CPtr, CPtr]"
| "params S_mkdir = [CPtr]"
| "params S_chdir = [CPtr]"
| "params S_dup = [CInt]"
| "params S_getpid = []"
| "params S_sbrk = [CInt]"
| "params S_sleep = [CInt]"
| "params S_uptime = []"
| "params S_getNumProc = []"
| "params S_getMaxPid = []"
| "params S_getProcInfo = [CInt, CPtr]"

section \<open>The stubs of usys.S\<close>

text \<open>The file's instances of the macro \<open>SYSCALL\<close>, in order.\<close>

definition stubs :: "sysname list" where
  "stubs = [S_fork, S_exit, S_wait, S_pipe, S_read, S_write, S_close, S_kill, S_exec, S_open,
     S_mknod, S_unlink, S_fstat, S_link, S_mkdir, S_chdir, S_dup, S_getpid, S_sbrk, S_sleep,
     S_uptime, S_getNumProc, S_getMaxPid, S_getProcInfo]"

definition user_regs :: "nat \<Rightarrow> (trapframe \<Rightarrow> trapframe) \<Rightarrow> 'w kstate \<Rightarrow> 'w kstate" where
  "user_regs cur f s = upd_proc cur (\<lambda>p. p\<lparr>tframe := f (tframe p)\<rparr>) s"

text \<open>The macro: load the number into \<open>eax\<close>, trap, and return to the address on the stack.\<close>

definition stub ::
  "kconf \<Rightarrow> 'w kext \<Rightarrow> uint32 \<Rightarrow> (sysname \<Rightarrow> 'w sysfun) \<Rightarrow> sysname \<Rightarrow> nat \<Rightarrow> 'w kstate \<Rightarrow> mem \<Rightarrow>
   outcome \<times> 'w kstate \<times> mem \<times> kout list" where
  "stub K E ticks others f cur s m =
     (case syscall K E ticks others cur (user_regs cur (\<lambda>x. x\<lparr>tf_eax := of_nat (SYS f)\<rparr>) s) m of
        (Returns r, t, m', out) \<Rightarrow>
          (Returns r, user_regs cur (\<lambda>x. x\<lparr>tf_eip := load32 m' (tf_esp x), tf_esp := tf_esp x + 4\<rparr>) t, m', out)
      | x \<Rightarrow> x)"

text \<open>The caller: push, call, and take the arguments off the stack again.\<close>

fun push32 :: "uint32 \<Rightarrow> uint32 \<times> mem \<Rightarrow> uint32 \<times> mem" where
  "push32 v (esp, m) = (esp - 4, store32 m (esp - 4) v)"

definition push_call :: "uint32 \<Rightarrow> uint32 list \<Rightarrow> uint32 \<times> mem \<Rightarrow> uint32 \<times> mem" where
  "push_call ret args st = push32 ret (foldr push32 args st)"

definition ccall ::
  "kconf \<Rightarrow> 'w kext \<Rightarrow> uint32 \<Rightarrow> (sysname \<Rightarrow> 'w sysfun) \<Rightarrow> sysname \<Rightarrow> uint32 list \<Rightarrow> uint32 \<Rightarrow>
   nat \<Rightarrow> 'w kstate \<Rightarrow> mem \<Rightarrow> outcome \<times> 'w kstate \<times> mem \<times> kout list" where
  "ccall K E ticks others f args ret cur s m =
     (case push_call ret args (tf_esp (tframe (ptable s ! cur)), m) of
        (esp, m1) \<Rightarrow>
          (case stub K E ticks others f cur (user_regs cur (\<lambda>x. x\<lparr>tf_esp := esp\<rparr>) s) m1 of
             (Returns r, t, m', out) \<Rightarrow>
               (Returns r, user_regs cur (\<lambda>x. x\<lparr>tf_esp := tf_esp x + 4 * of_nat (length args)\<rparr>) t, m', out)
           | x \<Rightarrow> x))"

section \<open>The stack of a call\<close>

text \<open>The bytes of a word, by their numbers.\<close>

lemma unat_bytes:
  assumes "unat (b :: uint32) + 4 \<le> 2 ^ 32"
  shows "unat (b + 1) = unat b + 1" "unat (b + 2) = unat b + 2" "unat (b + 3) = unat b + 3"
  using assms unat_add_less[of b 1] unat_add_less[of b 2] unat_add_less[of b 3] by simp_all

lemma store32_outside:
  assumes "unat b + 4 \<le> 2 ^ 32" "unat x < unat b \<or> unat b + 4 \<le> unat x"
  shows "store32 m b v x = m x"
  using assms(2) unat_bytes[OF assms(1)] by (intro store32_other) auto

lemma load32_cong:
  assumes "unat b + 4 \<le> 2 ^ 32" "\<And>x. unat b \<le> unat x \<Longrightarrow> unat x < unat b + 4 \<Longrightarrow> m x = m' x"
  shows "load32 m b = load32 m' b"
  using assms(2)[of b] assms(2)[of "b + 1"] assms(2)[of "b + 2"] assms(2)[of "b + 3"] unat_bytes[OF assms(1)]
  by (simp add: load32_def)

lemma unat_sub_4: "4 \<le> unat (e :: uint32) \<Longrightarrow> unat (e - 4) = unat e - 4"
  by (simp add: unat_sub word_le_nat_alt)

lemma unat_range: "unat (x :: uint32) < 2 ^ 32"
  using unsigned_less[of x] by simp

text \<open>After the pushes: the words on the stack, and the rest of memory as before.\<close>

lemma push_args:
  assumes "4 * length args \<le> unat esp" "foldr push32 args (esp, m) = (e', m')"
  shows "unat e' = unat esp - 4 * length args \<and>
    (\<forall>i<length args. \<forall>b. unat b = unat e' + 4 * i \<longrightarrow> load32 m' b = args ! i) \<and>
    (\<forall>x. unat x < unat e' \<or> unat esp \<le> unat x \<longrightarrow> m' x = m x)"
  using assms
proof (induction args arbitrary: e' m')
  case Nil
  then show ?case by simp
next
  case (Cons v vs)
  obtain e1 m1 where e1: "foldr push32 vs (esp, m) = (e1, m1)" by fastforce
  with Cons have IH: "unat e1 = unat esp - 4 * length vs"
    "\<And>i b. i < length vs \<Longrightarrow> unat b = unat e1 + 4 * i \<Longrightarrow> load32 m1 b = vs ! i"
    "\<And>x. unat x < unat e1 \<or> unat esp \<le> unat x \<Longrightarrow> m1 x = m x" by auto
  have e': "e' = e1 - 4" "m' = store32 m1 (e1 - 4) v" using Cons.prems(2) e1 by auto
  have "4 \<le> unat e1" using IH(1) Cons.prems(1) by simp
  then have u: "unat e' = unat e1 - 4" "unat e' + 4 = unat e1" using unat_sub_4 e'(1) by auto
  have top: "unat e' + 4 \<le> 2 ^ 32" using u(2) unat_range[of e1] by simp
  show ?case
  proof (intro conjI allI impI)
    show "unat e' = unat esp - 4 * length (v # vs)" using u IH(1) by simp
    fix i and b :: uint32 assume i: "i < length (v # vs)" "unat b = unat e' + 4 * i"
    show "load32 m' b = (v # vs) ! i"
    proof (cases i)
      case 0
      with i have "b = e'" by (simp add: word_unat_eq_iff)
      with 0 show ?thesis by (simp add: e')
    next
      case (Suc j)
      with i have b: "j < length vs" "unat b = unat e1 + 4 * j" using u by simp_all
      then have "unat b + 4 \<le> unat esp" using IH(1) Cons.prems(1) by simp
      then have "unat b + 4 \<le> 2 ^ 32" using unat_range[of esp] by simp
      then have "load32 m' b = load32 m1 b"
        using store32_outside[OF top] u b(2) unfolding e' by (intro load32_cong) auto
      with IH(2)[OF b] Suc show ?thesis by simp
    qed
  next
    fix x :: uint32 assume "unat x < unat e' \<or> unat esp \<le> unat x"
    moreover have "unat e1 \<le> unat esp" using IH(1) by simp
    ultimately have "m' x = m1 x" "m1 x = m x"
      using store32_outside[OF top, of x] IH(3)[of x] u unfolding e' by auto
    then show "m' x = m x" by simp
  qed
qed

lemma push_call_stack:
  assumes "4 * length args + 4 \<le> unat esp" "push_call ret args (esp, m) = (e', m')"
  shows "unat e' = unat esp - 4 * length args - 4" "load32 m' e' = ret"
    "i < length args \<Longrightarrow> unat b = unat e' + 4 + 4 * i \<Longrightarrow> load32 m' b = args ! i"
    "unat x < unat e' \<or> unat esp \<le> unat x \<Longrightarrow> m' x = m x"
proof -
  have p: "foldr push32 (ret # args) (esp, m) = (e', m')" "4 * length (ret # args) \<le> unat esp"
    using assms by (simp_all add: push_call_def)
  note q = push_args[OF p(2,1)]
  show "unat e' = unat esp - 4 * length args - 4" using q by simp
  show "load32 m' e' = ret" using q by auto
  show "load32 m' b = args ! i" if "i < length args" "unat b = unat e' + 4 + 4 * i"
    using q that by (elim conjE allE[of _ "Suc i"]) simp
  show "m' x = m x" if "unat x < unat e' \<or> unat esp \<le> unat x" using q that by blast
qed

lemma push_call_esp: "fst (push_call ret args (esp, m)) = esp - 4 * of_nat (length args) - 4"
proof -
  have p: "fst (push32 v st) = fst st - 4" for v st by (cases st) simp
  have "fst (foldr push32 args (esp, m)) = esp - 4 * of_nat (length args)"
    by (induction args) (simp_all add: p algebra_simps)
  then show ?thesis by (simp add: push_call_def p)
qed

section \<open>Registers and the rest of the kernel state\<close>

lemma user_regs_simps [simp]:
  "ptable (user_regs cur f s) = upd_at cur (\<lambda>p. p\<lparr>tframe := f (tframe p)\<rparr>) (ptable s)"
  "nextpid (user_regs cur f s) = nextpid s" "initproc (user_regs cur f s) = initproc s"
  "cpus (user_regs cur f s) = cpus s" "world (user_regs cur f s) = world s"
  by (simp_all add: user_regs_def)

lemma user_regs_regs [simp]:
  "cur < length (ptable s) \<Longrightarrow> user_regs cur g (user_regs cur f s) = user_regs cur (\<lambda>x. g (f x)) s"
  by (simp add: user_regs_def upd_proc_def)

lemma user_regs_cong:
  "f (tframe (ptable s ! cur)) = g (tframe (ptable s ! cur)) \<Longrightarrow> user_regs cur f s = user_regs cur g s"
  by (simp add: user_regs_def upd_proc_def upd_at_def)

lemma set_eax_regs: "set_eax cur r s = user_regs cur (\<lambda>x. x\<lparr>tf_eax := word_of_int r\<rparr>) s"
  by (simp add: set_eax_def user_regs_def)

text \<open>What a process's registers do not touch: the other fields of every entry.\<close>

lemma regs_view:
  assumes "\<And>p x. v (p\<lparr>tframe := x\<rparr>) = v p"
  shows "map v (ptable (user_regs cur f s)) = map v (ptable s)"
  by (simp add: upd_at_frame[of v, OF assms])

lemma regs_nth:
  assumes "\<And>p x. v (p\<lparr>tframe := x\<rparr>) = v p"
  shows "v (ptable (user_regs cur f s) ! i) = v (ptable s ! i)"
  by (cases "cur < length (ptable s)"; cases "i = cur") (simp_all add: upd_at_def list_update_beyond assms)

lemma regs_fields:
  "state (ptable (user_regs cur f s) ! i) = state (ptable s ! i)"
  "pid (ptable (user_regs cur f s) ! i) = pid (ptable s ! i)"
  "parent (ptable (user_regs cur f s) ! i) = parent (ptable s ! i)"
  "sz (ptable (user_regs cur f s) ! i) = sz (ptable s ! i)"
  "ofile (ptable (user_regs cur f s) ! i) = ofile (ptable s ! i)"
  "nrswitch (ptable (user_regs cur f s) ! i) = nrswitch (ptable s ! i)"
  by (rule regs_nth, simp)+

lemma foldl_map_view: "foldl (\<lambda>a p. h a (v p)) z ps = foldl h z (map v ps)"
  by (induction ps arbitrary: z) simp_all

lemma getNumProc_regs [simp]: "getNumProc (user_regs cur f s) = getNumProc s"
proof -
  have "getNumProc u = foldl (\<lambda>n st. if st \<noteq> UNUSED then n + 1 else n) 0 (map state (ptable u))" for u :: "'a kstate"
    unfolding getNumProc_def by (rule foldl_map_view)
  moreover have "map state (ptable (user_regs cur f s)) = map state (ptable s)" by (rule regs_view) simp
  ultimately show ?thesis by (simp only:)
qed

lemma getMaxPid_regs [simp]: "getMaxPid (user_regs cur f s) = getMaxPid s"
proof -
  let ?v = "\<lambda>p. (state p, pid p)"
  have "getMaxPid u = foldl (\<lambda>n (st, k). if st \<noteq> UNUSED then (if k > n then k else n) else n) 0 (map ?v (ptable u))"
    for u :: "'a kstate"
    unfolding getMaxPid_def by (subst foldl_map_view[symmetric]) simp
  moreover have "map ?v (ptable (user_regs cur f s)) = map ?v (ptable s)" by (rule regs_view) simp
  ultimately show ?thesis by (simp only:)
qed

lemma first_index_regs:
  assumes "\<And>p x. P (p\<lparr>tframe := x\<rparr>) = P p"
  shows "first_index P (ptable (user_regs cur f s)) = first_index P (ptable s)"
  using first_index_map[of "\<lambda>b. b" P "ptable (user_regs cur f s)"] first_index_map[of "\<lambda>b. b" P "ptable s"]
  by (simp only: regs_view[of P, OF assms])

lemma getProcInfo_regs [simp]: "getProcInfo k i (user_regs cur f s) = getProcInfo k i s"
proof -
  have "first_index (\<lambda>p. state p \<noteq> UNUSED \<and> pid p = k) (ptable (user_regs cur f s)) =
      first_index (\<lambda>p. state p \<noteq> UNUSED \<and> pid p = k) (ptable s)"
    by (rule first_index_regs) simp
  then show ?thesis
    unfolding getProcInfo_def Let_def by (simp only: regs_fields)
qed

lemma kill_regs:
  assumes "cur < length (ptable s)"
  shows "kill k (user_regs cur f s) = (fst (kill k s), user_regs cur f (snd (kill k s)))"
proof -
  have e: "first_index (\<lambda>p. pid p = k) (ptable (user_regs cur f s)) = first_index (\<lambda>p. pid p = k) (ptable s)"
    by (rule first_index_regs) simp
  show ?thesis
  proof (cases "first_index (\<lambda>p. pid p = k) (ptable s)")
    case None
    then show ?thesis using e by (simp only: kill_def option.case fst_conv snd_conv)
  next
    case (Some i)
    then have "i < length (ptable s)" using first_index_SomeD by blast
    have c: "p\<lparr>tframe := x, killed := 1, state := z\<rparr> = p\<lparr>killed := 1, state := z, tframe := x\<rparr>" for p x z
      by (rule proc.equality) simp_all
    then have "upd_proc i (\<lambda>p. p\<lparr>killed := 1, state := (if state p = SLEEPING then RUNNABLE else state p)\<rparr>) (user_regs cur f s) =
      user_regs cur f (upd_proc i (\<lambda>p. p\<lparr>killed := 1, state := (if state p = SLEEPING then RUNNABLE else state p)\<rparr>) s)"
      using assms by (cases "i = cur") (simp_all add: user_regs_def upd_proc_def upd_at_def list_update_swap c del: if_split)
    then show ?thesis using e Some by (simp only: kill_def option.case fst_conv snd_conv)
  qed
qed

section \<open>From the C call to the kernel function\<close>

text \<open>The number in \<open>eax\<close> selects the function.\<close>

lemma syscall_of_number:
  assumes "tf_eax (tframe (ptable s ! cur)) = of_nat (SYS f)"
  shows "syscall K E ticks others cur s m =
    (case sys_function K E ticks others f cur s m of
       (Returns r, t, m') \<Rightarrow> (Returns r, set_eax cur r t, m', []) | (out, t, m') \<Rightarrow> (out, t, m', []))"
proof -
  have "sint (of_nat (SYS f) :: uint32) = int (SYS f)" "0 < SYS f" "SYS f < length syscalls" "syscalls ! SYS f = Some f"
    by (cases f; simp add: syscalls_def)+
  then show ?thesis by (simp add: syscall_def Let_def assms)
qed

definition in_call :: "uint32 \<Rightarrow> sysname \<Rightarrow> trapframe \<Rightarrow> trapframe" where
  "in_call e f x = x\<lparr>tf_esp := e, tf_eax := of_nat (SYS f)\<rparr>"

definition after_call :: "cint \<Rightarrow> uint32 \<Rightarrow> trapframe \<Rightarrow> trapframe" where
  "after_call r ret x = x\<lparr>tf_eax := word_of_int r, tf_eip := ret\<rparr>"

lemma ccall_returns:
  assumes cur: "cur < length (ptable s)"
    and p: "push_call ret args (tf_esp (tframe (ptable s ! cur)), m) = (e, m1)"
    and h: "sys_function K E ticks others f cur (user_regs cur (in_call e f) s) m1 =
      (Returns r, user_regs cur (in_call e f) t, m')"
    and t: "tframe (ptable t ! cur) = tframe (ptable s ! cur)" "length (ptable t) = length (ptable s)"
    and ret: "load32 m' e = ret"
  shows "ccall K E ticks others f args ret cur s m = (Returns r, user_regs cur (after_call r ret) t, m', [])"
proof -
  have e: "e + 4 + 4 * of_nat (length args) = tf_esp (tframe (ptable s ! cur))"
    using push_call_esp[of ret args "tf_esp (tframe (ptable s ! cur))" m] p by simp
  have i: "(\<lambda>x. x\<lparr>tf_esp := e, tf_eax := of_nat (SYS f)\<rparr>) = in_call e f" by (simp add: in_call_def fun_eq_iff)
  have sc: "syscall K E ticks others cur (user_regs cur (in_call e f) s) m1 =
      (Returns r, set_eax cur r (user_regs cur (in_call e f) t), m', [])"
    using syscall_of_number[of "user_regs cur (in_call e f) s" cur f K E ticks others m1] cur h
    by (simp add: in_call_def)
  have "ccall K E ticks others f args ret cur s m = (Returns r,
      user_regs cur (\<lambda>x. (in_call e f x)\<lparr>tf_eax := word_of_int r, tf_eip := load32 m' e,
        tf_esp := e + 4 + 4 * of_nat (length args)\<rparr>) t, m', [])"
    using cur t(2) sc by (simp add: ccall_def p stub_def i set_eax_regs) (simp add: in_call_def)
  also have "\<dots> = (Returns r, user_regs cur (after_call r ret) t, m', [])"
    using e ret t(1) by (auto intro!: user_regs_cong simp: in_call_def after_call_def)
  finally show ?thesis .
qed

text \<open>
  What the declarations of \<open>user.h\<close> promise for the calls that need nothing but the process table: the
  kernel function on the arguments. A structure for \<open>getProcInfo\<close> must not lie in the stack frame
  of the call itself.
\<close>

fun promised :: "sysname \<Rightarrow> uint32 list \<Rightarrow> uint32 \<Rightarrow> nat \<Rightarrow> 'w kstate \<Rightarrow> mem \<Rightarrow> (cint \<times> 'w kstate \<times> mem) option" where
  "promised S_getNumProc [] ticks cur s m = Some (getNumProc s, s, m)"
| "promised S_getMaxPid [] ticks cur s m = Some (getMaxPid s, s, m)"
| "promised S_getpid [] ticks cur s m = Some (pid (ptable s ! cur), s, m)"
| "promised S_uptime [] ticks cur s m = Some (sint ticks, s, m)"
| "promised S_kill [n] ticks cur s m = Some (fst (kill (sint n) s), snd (kill (sint n) s), m)"
| "promised S_getProcInfo [n, a] ticks cur s m =
     (if unat a + 20 > unat (sz (ptable s ! cur)) then Some (-1, s, m)
      else if unat a + 20 \<le> unat (tf_esp (tframe (ptable s ! cur))) - 12 \<or> unat (tf_esp (tframe (ptable s ! cur))) \<le> unat a
      then (case getProcInfo (sint n) (load_pinfo m a) s of
              (r, i) \<Rightarrow> Some (r, s, if r = 0 then store_pinfo m a i else m))
      else None)"
| "promised _ _ ticks cur s m = None"

text \<open>The kernel reads off the stack what the caller pushed.\<close>

lemma args_seen:
  assumes cur: "cur < length (ptable s)" and lim: "sz (ptable s ! cur) \<le> 0x80000000"
    and esp: "4 * length args + 4 \<le> unat esp" "unat esp \<le> unat (sz (ptable s ! cur))"
    and p: "push_call ret args (esp, m) = (e, m1)" and i: "i < length args"
  shows "argint (ptable (user_regs cur (in_call e f) s) ! cur) m1 (int i) = Some (args ! i)"
proof -
  note st = push_call_stack[OF esp(1) p]
  have "unat (sz (ptable s ! cur)) \<le> 2147483648" using lim by (simp add: word_le_nat_alt)
  then have b: "unat e + (4 + 4 * i) < 2 ^ 32" "unat e + (4 + 4 * i) + 4 \<le> unat (sz (ptable s ! cur))"
    using st(1) esp i by simp_all
  let ?b = "e + of_nat (4 + 4 * i)"
  have u: "unat ?b = unat e + 4 + 4 * i" using unat_add_less[OF b(1)] by (simp only: add.assoc)
  have "fetchint (ptable (user_regs cur (in_call e f) s) ! cur) m1 ?b = Some (load32 m1 ?b)"
    using lim b(2) u cur by (intro fetchint_ok) simp_all
  moreover have "load32 m1 ?b = args ! i" by (rule st(3)[OF i u])
  moreover have "?b = e + 4 + 4 * word_of_int (int i)" by (simp add: add.assoc)
  ultimately show ?thesis using cur by (simp add: argint_def in_call_def add.assoc)
qed

lemma store_pinfo_cong: "m x = m' x \<Longrightarrow> store_pinfo m a i x = store_pinfo m' a i x"
  by (simp add: store_pinfo_def store32_def)

lemma load_pinfo_cong:
  assumes "unat a + 20 \<le> 2 ^ 32" "\<And>x. unat a \<le> unat x \<Longrightarrow> unat x < unat a + 20 \<Longrightarrow> m x = m' x"
  shows "load_pinfo m a = load_pinfo m' a"
proof -
  have "load32 m (a + of_nat k) = load32 m' (a + of_nat k)" if "k \<le> 16" for k
  proof -
    have "unat (a + of_nat k) = unat a + k" using that assms(1) by (intro unat_add_less) simp
    then show ?thesis using that assms by (intro load32_cong) auto
  qed
  from this[of 0] this[of 4] this[of 8] this[of 12] this[of 16] show ?thesis by (simp add: load_pinfo_def)
qed

lemma store_pinfo_outside:
  assumes "unat a + 20 \<le> 2 ^ 32" "unat x < unat a \<or> unat a + 20 \<le> unat x"
  shows "store_pinfo m a i x = m x"
proof (rule store_pinfo_other)
  fix k :: uint32 assume k: "k < 20"
  then have "unat k < 20" by (simp add: word_less_nat_alt)
  then have "unat (a + of_nat (unat k)) = unat a + unat k" using assms(1) by (intro unat_add_less) simp
  then show "x \<noteq> a + k" using assms(2) \<open>unat k < 20\<close> by auto
qed

text \<open>The structure the caller passed, read and written through the pointer the kernel fetched.\<close>

lemma call_getProcInfo:
  assumes cur: "cur < length (ptable s)" and lim: "sz (ptable s ! cur) \<le> 0x80000000"
    and esp: "12 \<le> unat esp" "unat esp \<le> unat (sz (ptable s ! cur))"
    and p: "push_call ret [n, a] (esp, m) = (e, m1)"
    and apart: "unat a + 20 \<le> unat (sz (ptable s ! cur))" "unat a + 20 \<le> unat esp - 12 \<or> unat esp \<le> unat a"
    and g: "getProcInfo (sint n) (load_pinfo m a) s = (r, i)"
  defines "m' \<equiv> if r = 0 then store_pinfo m1 a i else m1"
  shows "sys_getProcInfo cur (user_regs cur (in_call e S_getProcInfo) s) m1 =
      (Returns r, user_regs cur (in_call e S_getProcInfo) s, m')"
    and "load32 m' e = ret"
    and "unat x < unat esp - 12 \<or> unat esp \<le> unat x \<Longrightarrow> m' x = (if r = 0 then store_pinfo m a i else m) x"
proof -
  let ?u = "user_regs cur (in_call e S_getProcInfo) s"
  have len: "4 * length [n, a] + 4 \<le> unat esp" using esp(1) by simp
  note st = push_call_stack[OF len p]
  note see = args_seen[OF cur lim len esp(2) p, of _ S_getProcInfo]
  have "unat (sz (ptable s ! cur)) \<le> 2147483648" using lim by (simp add: word_le_nat_alt)
  then have a32: "unat a + 20 \<le> 2 ^ 32" and e32: "unat e + 4 \<le> 2 ^ 32" using apart(1) st(1) esp by simp_all
  have e: "unat e = unat esp - 12" using st(1) by simp
  have ap: "argptr (ptable ?u ! cur) m1 1 PINFO_SIZE = Some a"
    using see[of 1] cur lim apart(1) by (intro argptr_ok) (simp_all add: PINFO_SIZE_def)
  have "load_pinfo m1 a = load_pinfo m a"
    using st(4) e apart(2) by (intro load_pinfo_cong[OF a32]) auto
  then show "sys_getProcInfo cur ?u m1 = (Returns r, ?u, m')"
    using see[of 0] ap g by (simp add: sys_getProcInfo_def m'_def Let_def del: user_regs_simps)
  have "store_pinfo m1 a i x = m1 x" if "unat e \<le> unat x" "unat x < unat e + 4" for x
    by (rule store_pinfo_outside[OF a32]) (use that apart(2) e esp(1) in linarith)
  then have "load32 m' e = load32 m1 e" unfolding m'_def by (auto intro!: load32_cong[OF e32])
  then show "load32 m' e = ret" using st(2) by simp
  show "m' x = (if r = 0 then store_pinfo m a i else m) x" if "unat x < unat esp - 12 \<or> unat esp \<le> unat x"
    using st(4)[of x] that e store_pinfo_cong[of m1 x m a i] by (simp add: m'_def)
qed

lemma call_getProcInfo_bad:
  assumes cur: "cur < length (ptable s)" and lim: "sz (ptable s ! cur) \<le> 0x80000000"
    and esp: "12 \<le> unat esp" "unat esp \<le> unat (sz (ptable s ! cur))"
    and p: "push_call ret [n, a] (esp, m) = (e, m1)" and bad: "unat a + 20 > unat (sz (ptable s ! cur))"
  shows "sys_getProcInfo cur (user_regs cur (in_call e S_getProcInfo) s) m1 =
      (Returns (-1), user_regs cur (in_call e S_getProcInfo) s, m1)"
proof -
  let ?u = "user_regs cur (in_call e S_getProcInfo) s"
  have len: "4 * length [n, a] + 4 \<le> unat esp" using esp(1) by simp
  note see = args_seen[OF cur lim len esp(2) p, of _ S_getProcInfo]
  have "argptr (ptable ?u ! cur) m1 1 PINFO_SIZE = None"
  proof (cases "argptr (ptable ?u ! cur) m1 1 PINFO_SIZE")
    case (Some b)
    have "sz (ptable ?u ! cur) = sz (ptable s ! cur)" using cur by simp
    then have "argint (ptable ?u ! cur) m1 1 = Some b" "unat b + 20 \<le> unat (sz (ptable s ! cur))"
      using argptr_in_bounds[OF Some] lim by (simp_all add: PINFO_SIZE_def del: user_regs_simps)
    with see[of 1] bad show ?thesis by simp
  qed simp
  then show ?thesis using see[of 0] by (simp add: sys_getProcInfo_def del: user_regs_simps)
qed

end
