(* ===== verification/Xv6_CallProps.thy ===== *)
theory Xv6_CallProps
  imports Xv6_Demo Xv6_User
begin

text \<open>
  The system-call layer: the bounds of arguments fetched from user memory, strings, and the
  dispatch table.
\<close>

section \<open>Arguments\<close>

text \<open>C12: Argument bounds. For a process of at most 2 GB, fetchint succeeds exactly when the four
  bytes of the word are inside the process, and argptr exactly when the argument word is and
  the whole block it points to, of non-negative size, lies inside the process: the additions
  of the two checks cannot wrap around.\<close>

theorem args_in_bounds:
  assumes "sz p \<le> 0x80000000" "len < 2147483648"
  shows "fetchint p m addr = (if unat addr + 4 \<le> unat (sz p) then Some (load32 m addr) else None) \<and>
    (argptr p m n len = Some a \<longleftrightarrow> argint p m n = Some a \<and> 0 \<le> len \<and> unat a < unat (sz p) \<and>
       unat a + nat len \<le> unat (sz p))"
proof -
  have n: "fetchint p m addr = None" if "\<not> unat addr + 4 \<le> unat (sz p)"
    using fetchint_in_bounds[of p m addr] assms(1) that by (cases "fetchint p m addr") auto
  have b: "argint p m n = Some a \<and> 0 \<le> len \<and> unat a < unat (sz p) \<and> unat a + nat len \<le> unat (sz p)"
    if "argptr p m n len = Some a"
  proof -
    have "a < sz p" using that by (auto simp: argptr_def split: option.splits if_splits)
    with argptr_in_bounds[OF that assms] show ?thesis by (simp add: word_less_nat_alt)
  qed
  show ?thesis
  proof (intro conjI iffI)
    show "fetchint p m addr = (if unat addr + 4 \<le> unat (sz p) then Some (load32 m addr) else None)"
      using fetchint_ok[OF assms(1), of addr m] n by (cases "unat addr + 4 \<le> unat (sz p)") simp_all
    show "argptr p m n len = Some a" if "argint p m n = Some a \<and> 0 \<le> len \<and> unat a < unat (sz p) \<and>
        unat a + nat len \<le> unat (sz p)"
      using that argptr_ok[OF assms(1)] by blast
  qed (use b in blast)+
qed

theorem args_in_bounds_witness:
  "fetchint (proc_at demo2 0) (\<lambda>_. 0) 4093 = None \<and> fetchint (proc_at demo2 0) (\<lambda>_. 0) 4092 = Some 0 \<and>
   argptr (proc_at demo2 0) (\<lambda>_. 0) 1 20 \<noteq> Some 5"
proof -
  have h: "sz (proc_at demo2 0) = 4096" "argint (proc_at demo2 0) (\<lambda>_. 0) 1 = None" by code_simp+
  have l: "load32 (\<lambda>_. 0) 4092 = 0" by code_simp
  have b: "sz (proc_at demo2 0) \<le> 0x80000000" "(20::int) < 2147483648" using h by simp_all
  show ?thesis
    using args_in_bounds[OF b, where addr = 4093 and m = "\<lambda>_. 0" and n = 1 and a = 5]
      args_in_bounds[OF b, where addr = 4092 and m = "\<lambda>_. 0" and n = 1 and a = 5] h l by simp
qed

text \<open>fetchstr, for a process of at most 2 GB: a string whose terminator is the first null
  byte at offset k inside the process has result k and its address; without a null byte from
  the address to the end of the process the result is -1.\<close>

lemma fetchstr_correct:
  assumes "sz p \<le> 0x80000000"
  shows "(\<forall>k. unat addr + k < unat (sz p) \<and> m (addr + of_nat k) = 0 \<and> (\<forall>j<k. m (addr + of_nat j) \<noteq> 0) \<longrightarrow>
      fetchstr p m addr = (int k, Some addr)) \<and>
    ((\<forall>k. unat addr + k < unat (sz p) \<longrightarrow> m (addr + of_nat k) \<noteq> 0) \<longrightarrow> fst (fetchstr p m addr) = -1)"
proof (intro conjI allI impI)
  fix k assume k: "unat addr + k < unat (sz p) \<and> m (addr + of_nat k) = 0 \<and> (\<forall>j<k. m (addr + of_nat j) \<noteq> 0)"
  then have lt: "\<not> addr \<ge> sz p" by (simp add: word_le_nat_alt)
  have "unat (sz p) \<le> 2147483648" using assms by (simp add: word_le_nat_alt)
  with k have kb: "k < 2147483648" by simp
  have "sint (of_nat k :: uint32) = int k"
    using sint_word_of_int_range[of "int k"] kb by simp
  with fetchstr_loop_found[of k m addr "sz p" addr] k lt show "fetchstr p m addr = (int k, Some addr)"
    by (simp add: fetchstr_def)
next
  assume "\<forall>k. unat addr + k < unat (sz p) \<longrightarrow> m (addr + of_nat k) \<noteq> 0"
  then show "fst (fetchstr p m addr) = -1" by (simp add: fetchstr_def fetchstr_loop_none)
qed

lemma fetchstr_correct_witness:
  "fetchstr (proc_at demo2 0) ((\<lambda>_. 65)(12 := 0)) 10 = (2, Some 10) \<and>
   fst (fetchstr (proc_at demo2 0) (\<lambda>_. 65) 10) = -1"
proof -
  have h: "sz (proc_at demo2 0) = 4096" by code_simp
  then have b: "sz (proc_at demo2 0) \<le> 0x80000000" by simp
  have "(\<lambda>_. 65 :: 8 word)(12 := 0) = (\<lambda>x :: uint32. if x = 12 then 0 else 65)" by auto
  then have "fetchstr (proc_at demo2 0) ((\<lambda>_. 65)(12 := 0)) 10 = (int 2, Some 10)"
    by (intro fetchstr_correct[OF b, THEN conjunct1, rule_format]) (auto simp: h less_2_cases_iff)
  moreover have "fst (fetchstr (proc_at demo2 0) (\<lambda>_. 65) 10) = -1"
    by (intro fetchstr_correct[OF b, THEN conjunct2, rule_format]) simp
  ultimately show ?thesis by simp
qed

section \<open>Dispatch\<close>

lemma syscalls_SYS: "SYS f < length syscalls \<and> 0 < SYS f \<and> syscalls ! SYS f = Some f"
  by (cases f) (simp_all add: syscalls_def)

lemma syscalls_None: "n < length syscalls \<Longrightarrow> 0 < n \<Longrightarrow> \<exists>f. n = SYS f"
proof -
  assume n: "n < length syscalls" "0 < n"
  then have "n \<in> set [1..<25]" by (simp add: syscalls_def)
  moreover have "\<forall>n \<in> set [1..<25]. \<exists>f. syscalls ! n = Some f \<and> SYS f = n"
    by (simp add: syscalls_def upt_rec[of _ 25])
  ultimately show ?thesis by metis
qed

text \<open>System-call dispatch. With the number of call f in eax, syscall runs exactly f's handler
  on the caller and, if it returns, puts the result into the caller's eax; every other number,
  negative ones and those past the table included, prints one line and puts -1 into eax, with
  no other effect.\<close>

lemma syscall_dispatch:
  assumes "num = sint (tf_eax (tframe (ptable s ! cur)))"
  shows "(\<forall>f. num = int (SYS f) \<longrightarrow>
      syscall K E ticks others cur s m =
        (case sys_function K E ticks others f cur s m of
           (Returns r, t, m') \<Rightarrow> (Returns r, set_eax cur r t, m', [])
         | (out, t, m') \<Rightarrow> (out, t, m', []))) \<and>
    (num \<notin> int ` range SYS \<longrightarrow>
      syscall K E ticks others cur s m =
        (Returns (-1), set_eax cur (-1) s, m, [OutInt (pid (ptable s ! cur)), OutStr (name (ptable s ! cur)), OutInt num]))"
proof (intro conjI allI impI)
  fix f assume "num = int (SYS f)"
  then show "syscall K E ticks others cur s m =
        (case sys_function K E ticks others f cur s m of
           (Returns r, t, m') \<Rightarrow> (Returns r, set_eax cur r t, m', [])
         | (out, t, m') \<Rightarrow> (out, t, m', []))"
    using syscalls_SYS[of f] assms by (simp add: syscall_def Let_def)
next
  assume "num \<notin> int ` range SYS"
  moreover have "num \<in> int ` range SYS" if "0 < num" "num < int (length syscalls)"
    using that syscalls_None[of "nat num"] by (auto simp: image_iff) (metis int_nat_eq less_le nat_less_iff zero_less_nat_eq)
  ultimately have "\<not> (num > 0 \<and> num < int (length syscalls))" by blast
  then show "syscall K E ticks others cur s m =
        (Returns (-1), set_eax cur (-1) s, m, [OutInt (pid (ptable s ! cur)), OutStr (name (ptable s ! cur)), OutInt num])"
    unfolding syscall_def Let_def assms by (simp only: if_False option.case)
qed

lemma syscall_dispatch_witness:
  "syscall demo_K demo_E 0 (\<lambda>_ _ s m. (Returns 0, s, m)) 0 (set_eax 0 22 demo5) (\<lambda>_. 0) =
     (Returns 2, set_eax 0 2 (set_eax 0 22 demo5), \<lambda>_. 0, [])"
proof -
  let ?s = "set_eax 0 22 demo5"
  have n: "(22::int) = sint (tf_eax (tframe (ptable ?s ! 0)))" and g: "getNumProc ?s = 2" by code_simp+
  show ?thesis
    using syscall_dispatch[OF n, of demo_K demo_E 0 "\<lambda>_ _ s m. (Returns 0, s, m)" "\<lambda>_. 0"] g
    by (auto simp: sys_getNumProc_def dest: spec[of _ S_getNumProc])
qed

section \<open>Calls of user programs\<close>

text \<open>Every system call has one stub, and its number is its place in the kernel's table.\<close>

lemma stubs_complete: "distinct stubs \<and> set stubs = UNIV \<and> (\<forall>f \<in> set stubs. syscalls ! SYS f = Some f \<and> length (params f) \<le> 3)"
proof -
  have "f \<in> set stubs \<and> length (params f) \<le> 3" for f by (cases f) (simp_all add: stubs_def)
  then show ?thesis using syscalls_SYS by (auto simp: stubs_def)
qed



end
