(* ===== verification/Xv6_PsProps.thy ===== *)
theory Xv6_PsProps
  imports Xv6_Demo
begin

text \<open>
  What a user program sees through \<open>getProcInfo\<close>: the structure in its own memory, the tree of
  parents, and the table that \<open>ps\<close> prints.
\<close>

section \<open>getProcInfo in user memory\<close>

lemma getProcInfo_range:
  assumes "kinv s" "nextpid s \<le> 2147483648"
    and "\<And>i. i < nproc s \<Longrightarrow> length (ofile (proc_at s i)) < 2147483648 \<and>
      - 2147483648 \<le> nrswitch (proc_at s i) \<and> nrswitch (proc_at s i) < 2147483648"
    and "getProcInfo k q s = (0, pinfo)"
    and "x \<in> {pi_state pinfo, pi_ppid pinfo, pi_sz pinfo, pi_nfd pinfo, pi_nrswitch pinfo}"
  shows "- 2147483648 \<le> x \<and> x < 2147483648"
proof -
  have "fst (getProcInfo k q s) = 0" using assms(4) by simp
  then have "k \<in> pid_set s" by (simp only: getProcInfo_ok_iff)
  then obtain i where i: "i < nproc s" "active (proc_at s i)" "k = pid (proc_at s i)" by (auto simp: pid_set_def)
  let ?pp = "case parent (proc_at s i) of None \<Rightarrow> 0 | Some q \<Rightarrow> pid (proc_at s q)"
  have e: "pinfo = q\<lparr>pi_state := state_num (state (proc_at s i)), pi_ppid := ?pp,
        pi_sz := sint (sz (proc_at s i)), pi_nfd := count_fds (ofile (proc_at s i)),
        pi_nrswitch := nrswitch (proc_at s i)\<rparr>"
    using getProcInfo_at[OF assms(1) i(1,2)] assms(4) i(3) by simp
  have "- 2147483648 \<le> ?pp \<and> ?pp < 2147483648"
  proof (cases "parent (proc_at s i)")
    case (Some p)
    note c = childless_unless_live[OF assms(1) i(1) Some]
    show ?thesis using pid_range[OF assms(1) c(1) live_active[OF c(2)]] assms(2) Some by simp
  qed simp
  moreover have "- 2147483648 \<le> state_num st \<and> state_num st < 2147483648" for st
    using state_num_bounds[of st] by simp
  moreover have "- 2147483648 \<le> sint (w :: uint32) \<and> sint w < 2147483648" for w
    using sint_range_size[of w] by (simp add: word_size)
  moreover have "0 \<le> count_fds (ofile (proc_at s i)) \<and> count_fds (ofile (proc_at s i)) < 2147483648"
    using assms(3)[OF i(1)] length_filter_le[of "\<lambda>f. f \<noteq> 0" "ofile (proc_at s i)"]
    unfolding count_fds_eq by linarith
  ultimately show ?thesis using assms(3)[OF i(1)] assms(5) unfolding e by auto
qed

lemma getProcInfo_overwrites:
  "getProcInfo k q s = (0, pinfo) \<Longrightarrow> getProcInfo k q' s = (0, pinfo)"
  by (auto simp: getProcInfo_def Let_def split: option.splits)

text \<open>C11: The system call getProcInfo in a reachable state, for a caller of at most 2 GB: it never
  changes the kernel; it returns 0 or -1; on -1 memory is as before; on 0 the first argument is
  the pid of a used slot, the second points to 20 bytes inside the caller, only these bytes
  change, and the structure read back from them is what getProcInfo computed, whatever the
  buffer held before.\<close>

theorem getProcInfo_in_memory:
  assumes "reachable (kstart K E) (kstep K E) s" "nextpid s \<le> 2147483648"
    and "\<forall>i<nproc s. length (ofile (proc_at s i)) < 2147483648 \<and>
      - 2147483648 \<le> nrswitch (proc_at s i) \<and> nrswitch (proc_at s i) < 2147483648"
    and "sz (proc_at s cur) \<le> 0x80000000" "sys_getProcInfo cur s m = (out, t, m')"
  shows "t = s \<and> (out = Returns 0 \<or> out = Returns (-1)) \<and> (out = Returns (-1) \<longrightarrow> m' = m) \<and>
    (out = Returns 0 \<longrightarrow> (\<exists>n a. argint (proc_at s cur) m 0 = Some n \<and> sint n \<in> pid_set s \<and>
       argptr (proc_at s cur) m 1 PINFO_SIZE = Some a \<and> unat a + 20 \<le> unat (sz (proc_at s cur)) \<and>
       (\<forall>x. (\<forall>k<20. x \<noteq> a + k) \<longrightarrow> m' x = m x) \<and>
       getProcInfo (sint n) no_info s = (0, load_pinfo m' a)))"
proof -
  have inv: "kinv s" using kern.reachable_inv[OF assms(1)] .
  consider "argint (proc_at s cur) m 0 = None \<or> argptr (proc_at s cur) m 1 PINFO_SIZE = None"
    | n a where "argint (proc_at s cur) m 0 = Some n" "argptr (proc_at s cur) m 1 PINFO_SIZE = Some a"
    using option.exhaust by metis
  then show ?thesis
  proof cases
    case 1
    then have "sys_getProcInfo cur s m = (Returns (-1), s, m)"
      by (auto simp: sys_getProcInfo_def split: option.splits)
    then show ?thesis using assms(5) by simp
  next
    case (2 n a)
    obtain r pinfo where g: "getProcInfo (sint n) (load_pinfo m a) s = (r, pinfo)" by fastforce
    have res: "out = Returns r" "t = s" "m' = (if r = 0 then store_pinfo m a pinfo else m)"
      using assms(5) 2 g by (auto simp: sys_getProcInfo_def)
    have r: "r = 0 \<or> r = -1" using getProcInfo_result[of "sint n" "load_pinfo m a" s] g by simp
    have ok: "getProcInfo (sint n) no_info s = (0, load_pinfo m' a) \<and> sint n \<in> pid_set s" if "r = 0"
    proof -
      have g0: "getProcInfo (sint n) (load_pinfo m a) s = (0, pinfo)" using g that by simp
      have rng: "- 2147483648 \<le> x \<and> x < 2147483648"
        if "x \<in> {pi_state pinfo, pi_ppid pinfo, pi_sz pinfo, pi_nfd pinfo, pi_nrswitch pinfo}" for x
        using getProcInfo_range[OF inv assms(2) _ g0 that] assms(3) by blast
      have "load_pinfo m' a = pinfo" using load_store_pinfo[OF rng] res(3) that by simp
      moreover have "sint n \<in> pid_set s" using g0 getProcInfo_ok_iff[of "sint n" "load_pinfo m a" s] by simp
      ultimately show ?thesis using getProcInfo_overwrites[OF g0] by simp
    qed
    have b: "unat a + 20 \<le> unat (sz (proc_at s cur))"
      using argptr_in_bounds(2)[OF 2(2) assms(4)] by (simp add: PINFO_SIZE_def)
    have "m' x = m x" if "\<forall>k<20. x \<noteq> a + k" for x
      using store_pinfo_other[of x a m pinfo] that res(3) by simp
    then show ?thesis using res(1,2) r ok b 2 res(3) by auto
  qed
qed

text \<open>
  The user code of init has moved its stack pointer to 4000, and pushed the address 100 and the
  pid 2 for the call.
\<close>

definition demo_call :: "uint32 kstate" where
  "demo_call = demo4\<lparr>ptable := (ptable demo4)[0 := (proc_at demo4 0)\<lparr>tframe :=
     (tframe (proc_at demo4 0))\<lparr>tf_esp := 4000\<rparr>\<rparr>], world := world demo4\<rparr>"

lemma demo_call_reach: "demo_reach demo_call"
proof -
  have r: "runs demo4 0 0" by code_simp
  show ?thesis
    unfolding demo_call_def
    by (rule reach_step[OF demo4_reach k_process[OF r]]) (simp add: same_control_def)
qed

definition demo_mem :: mem where
  "demo_mem = store32 (store32 (\<lambda>_. 0) 4004 2) 4008 100"

lemma demo_args:
  "argint (proc_at demo_call 0) demo_mem 0 = Some 2"
  "argptr (proc_at demo_call 0) demo_mem 1 PINFO_SIZE = Some 100"
proof -
  have p: "tf_esp (tframe (proc_at demo_call 0)) = 4000" "sz (proc_at demo_call 0) = 4096" by code_simp+
  have l: "load32 demo_mem 4004 = 2" "load32 demo_mem 4008 = 100"
    by (simp_all add: demo_mem_def load_store_apart)
  show "argint (proc_at demo_call 0) demo_mem 0 = Some 2"
    using p l by (simp add: argint_def fetchint_def)
  show "argptr (proc_at demo_call 0) demo_mem 1 PINFO_SIZE = Some 100"
    using p l by (simp add: argptr_def argint_def fetchint_def PINFO_SIZE_def)
qed

theorem getProcInfo_in_memory_witness:
  "fst (sys_getProcInfo 0 demo_call demo_mem) = Returns 0 \<and>
   getProcInfo 2 no_info demo_call = (0, load_pinfo (snd (snd (sys_getProcInfo 0 demo_call demo_mem))) 100)"
proof -
  have c: "nextpid demo_call \<le> 2147483648"
    "\<forall>p \<in> set (ptable demo_call). length (ofile p) = 2 \<and> - 2147483648 \<le> nrswitch p \<and> nrswitch p < 2147483648"
    "sz (proc_at demo_call 0) \<le> 0x80000000" by code_simp+
  have i: "(1::nat) < nproc demo_call" "active (proc_at demo_call 1)" "pid (proc_at demo_call 1) = 2" by code_simp+
  have "getProcInfo 2 q demo_call = (0, snd (getProcInfo 2 q demo_call))" for q
    using getProcInfo_at[OF kern.reachable_inv[OF demo_call_reach] i(1,2)] i(3) by (metis snd_conv)
  then have r: "fst (sys_getProcInfo 0 demo_call demo_mem) = Returns 0"
    by (simp add: sys_getProcInfo_def demo_args split: prod.splits) (metis fst_conv)
  have "\<forall>i<nproc demo_call. length (ofile (proc_at demo_call i)) < 2147483648 \<and>
      - 2147483648 \<le> nrswitch (proc_at demo_call i) \<and> nrswitch (proc_at demo_call i) < 2147483648"
    using c(2) by (simp add: all_set_conv_all_nth)
  moreover have "sys_getProcInfo 0 demo_call demo_mem = (fst (sys_getProcInfo 0 demo_call demo_mem),
      fst (snd (sys_getProcInfo 0 demo_call demo_mem)), snd (snd (sys_getProcInfo 0 demo_call demo_mem)))"
    by simp
  ultimately show ?thesis
    using getProcInfo_in_memory[OF demo_call_reach c(1) _ c(3)] r demo_args by fastforce
qed

section \<open>The tree of processes\<close>

definition ppid_of :: "'w kstate \<Rightarrow> cint \<Rightarrow> cint" where
  "ppid_of s k = pi_ppid (snd (getProcInfo k no_info s))"

text \<open>C18: Ancestry as user programs see it: in every reachable state, following the parent pids
  that getProcInfo reports from any process that can run or is a zombie reaches pid 1 in
  fewer steps than the pid itself, and pid 1 has parent pid 0.\<close>

theorem ancestry_reaches_init:
  assumes "reachable (kstart K E) (kstep K E) s"
    and "i < nproc s" "live (proc_at s i) \<or> state (proc_at s i) = ZOMBIE"
  shows "(\<exists>n < nat (pid (proc_at s i)). (ppid_of s ^^ n) (pid (proc_at s i)) = 1) \<and> ppid_of s 1 = 0"
proof
  have inv: "kinv s" using kern.reachable_inv[OF assms(1)] .
  have act: "active p" if "live p \<or> state p = ZOMBIE" for p using that live_active by (auto simp: active_def)
  have pp: "ppid_of s (pid (proc_at s j)) = (case parent (proc_at s j) of None \<Rightarrow> 0 | Some q \<Rightarrow> pid (proc_at s q))"
    if "j < nproc s" "active (proc_at s j)" for j
    using getProcInfo_at[OF inv that] by (simp add: ppid_of_def)
  obtain k where k: "k < nproc s" "live (proc_at s k)" "pid (proc_at s k) = 1" "parent (proc_at s k) = None"
    "initproc s = Some k" using init_procE[OF inv] by metis
  show "ppid_of s 1 = 0" using pp[OF k(1) live_active[OF k(2)]] k by simp
  show "\<exists>n < nat (pid (proc_at s i)). (ppid_of s ^^ n) (pid (proc_at s i)) = 1"
    using assms(2,3)
  proof (induction "nat (pid (proc_at s i))" arbitrary: i rule: less_induct)
    case less
    have pos: "0 < pid (proc_at s i)" using pid_range[OF inv less.prems(1)] act[OF less.prems(2)] by simp
    show ?case
    proof (cases "initproc s = Some i")
      case True
      then have "pid (proc_at s i) = 1" using k by simp
      then show ?thesis by (intro exI[of _ 0]) simp
    next
      case False
      from parentE[OF inv less.prems False] obtain q where q: "q < nproc s" "parent (proc_at s i) = Some q"
        "live (proc_at s q)" "pid (proc_at s q) < pid (proc_at s i)" by metis
      have lt: "nat (pid (proc_at s q)) < nat (pid (proc_at s i))" using q(4) pos by simp
      from less.hyps[OF lt q(1)] q(3) obtain n where n: "n < nat (pid (proc_at s q))"
        "(ppid_of s ^^ n) (pid (proc_at s q)) = 1" by auto
      have "(ppid_of s ^^ Suc n) (pid (proc_at s i)) = 1"
        using n(2) pp[OF less.prems(1) act[OF less.prems(2)]] q(2) by (simp add: funpow_swap1)
      moreover have "Suc n < nat (pid (proc_at s i))" using less_trans_Suc[OF n(1) lt] .
      ultimately show ?thesis by blast
    qed
  qed
qed

theorem ancestry_reaches_init_witness:
  "(\<exists>n < nat 2. (ppid_of demo9 ^^ n) 2 = 1) \<and> ppid_of demo9 1 = 0"
proof -
  have h: "(1::nat) < nproc demo9" "live (proc_at demo9 1) \<or> state (proc_at demo9 1) = ZOMBIE"
    "pid (proc_at demo9 1) = 2" by code_simp+
  show ?thesis using ancestry_reaches_init[OF demo9_reach h(1,2)] h(3) by simp
qed

section \<open>ps\<close>

lemma mset_sorted_eq: "mset xs = mset ys \<Longrightarrow> sorted xs \<Longrightarrow> sorted ys \<Longrightarrow> xs = ys" for xs :: "'a :: linorder list"
  using properties_for_sort by metis

text \<open>The sort of ps: for every array of n ints sortPids yields the sorted permutation.\<close>

lemma sortPids_sorts:
  "sorted (sortPids xs (length xs)) \<and> mset (sortPids xs (length xs)) = mset xs \<and>
   sortPids xs (length xs) = sort xs"
  using sortPids_correct[of xs] properties_for_sort by metis

lemma found_sorted: "sorted (filter P [i..j])" "distinct (filter P [i..j])" for i j :: int
  by (simp_all add: sorted_wrt_filter)

lemma rows_of_used:
  assumes "\<forall>k \<in> set ks. k \<in> pid_set s"
  shows "ps_rows (\<lambda>_. s) ks = map (\<lambda>k. ps_row k (snd (getProcInfo k no_info s))) ks"
proof -
  have "(case getProcInfo k no_info s of (r, pinfo) \<Rightarrow> if r = 0 then [ps_row k pinfo] else []) =
      [ps_row k (snd (getProcInfo k no_info s))]" if "k \<in> pid_set s" for k
    using getProcInfo_ok_iff[of k no_info s] that by (auto split: prod.splits)
  with assms show ?thesis by (induction ks) (simp_all add: ps_rows_def)
qed

text \<open>C17: ps in a quiescent system. When all its system calls see one reachable state with at
  most 64 slots, ps prints the number of processes, the largest pid, and then one row for
  each used pid in ascending order, with what getProcInfo reports, and nothing else.\<close>

theorem ps_lists_all:
  assumes "reachable (kstart K E) (kstep K E) s" "nproc s \<le> 64"
  shows "ps_main s s (\<lambda>_. s) (\<lambda>_. s) =
    Some ([PsTotal (int (card (pid_set s))), PsMaxPid (Max (pid_set s)), PsHeader] @
      map (\<lambda>k. ps_row k (snd (getProcInfo k no_info s))) (sorted_list_of_set (pid_set s)))"
proof -
  have inv: "kinv s" using kern.reachable_inv[OF assms(1)] .
  let ?found = "filter (\<lambda>k. fst (getProcInfo k no_info s) = 0) [1..getMaxPid s]"
  have f: "set ?found = pid_set s" using pids_range[OF inv] by (auto simp: getProcInfo_ok_iff)
  then have e: "?found = sorted_list_of_set (pid_set s)"
    by (metis found_sorted sorted_list_of_set.idem_if_sorted_distinct)
  have "int (card (pid_set s)) \<le> int (nproc s)" using card_pids[OF inv] getNumProc_le[of s] by simp
  then have "length ?found \<le> PIDS_SIZE" using e assms(2) by (simp add: PIDS_SIZE_def)
  then have sc: "ps_scan (\<lambda>_. s) 1 (getMaxPid s) [] = Some (sorted_list_of_set (pid_set s))"
    using getMaxPid_nonneg[of s] unfolding e[symmetric] by (subst ps_scan_filter) (auto simp: Let_def)
  have srt: "sortPids ks (length ks) = ks" if "sorted ks" for ks
    using mset_sorted_eq[OF sortPids_correct(1) sortPids_correct(2) that] .
  have "1 \<le> getMaxPid s" using numproc_pos[OF inv] numproc_le_maxpid[OF inv] by simp
  then have "getMaxPid s \<in> pid_set s" using getMaxPid_in[of s] by (auto simp: pid_set_def intro: rev_image_eqI)
  moreover have "k \<le> getMaxPid s" if "k \<in> pid_set s" for k using pids_range[OF inv] that by auto
  ultimately have mx: "Max (pid_set s) = getMaxPid s" by (intro Max_eqI) auto
  show ?thesis
    unfolding ps_main_def sc option.case srt[OF sorted_sorted_list_of_set] mx card_pids[OF inv]
    by (simp add: rows_of_used)
qed

theorem ps_lists_all_witness:
  "ps_main demo5 demo5 (\<lambda>_. demo5) (\<lambda>_. demo5) =
    Some ([PsTotal (int (card (pid_set demo5))), PsMaxPid (Max (pid_set demo5)), PsHeader] @
      map (\<lambda>k. ps_row k (snd (getProcInfo k no_info demo5))) (sorted_list_of_set (pid_set demo5)))"
proof -
  have n: "nproc demo5 \<le> 64" by code_simp
  show ?thesis by (rule ps_lists_all[OF demo5_reach n])
qed

fun row_pids :: "ps_line list \<Rightarrow> cint list" where
  "row_pids (PsRow k _ _ _ _ _ # ls) = k # row_pids ls"
| "row_pids (_ # ls) = row_pids ls"
| "row_pids [] = []"

lemma row_pids_rows: "row_pids (ps_rows obs ks) = filter (\<lambda>k. fst (getProcInfo k no_info (obs k)) = 0) ks"
proof (induction ks)
  case Nil
  then show ?case by (simp add: ps_rows_def)
next
  case (Cons k ks)
  then show ?case
    by (cases "getProcInfo k no_info (obs k)") (simp add: ps_rows_def ps_row_def)
qed

text \<open>C16: ps while other processes run. Whatever steps the kernel takes between the system calls
  of ps, on a kernel with at most 64 slots its array of 64 pids never overflows, and the rows
  it prints have strictly ascending pids, all of them in use when ps asked for the largest
  pid: a process forked later is never listed, one that exits meanwhile may be missing.\<close>

theorem ps_never_overflows:
  assumes "reachable (kstart K E) (kstep K E) s" "nproc s \<le> 64" "\<forall>k. (kstep K E)\<^sup>*\<^sup>* s (obs k)"
  shows "\<exists>rows. ps_main s1 s obs obs2 =
      Some ([PsTotal (getNumProc s1), PsMaxPid (getMaxPid s), PsHeader] @ rows) \<and>
    sorted_wrt (<) (row_pids rows) \<and> set (row_pids rows) \<subseteq> pid_set s"
proof -
  have inv: "kinv s" using kern.reachable_inv[OF assms(1)] .
  let ?found = "filter (\<lambda>k. fst (getProcInfo k no_info (obs k)) = 0) [1..getMaxPid s]"
  have sub: "set ?found \<subseteq> pid_set s"
  proof
    fix k assume "k \<in> set ?found"
    then have "k \<in> pid_set (obs k)" "k < nextpid s"
      using maxpid_lt_nextpid[OF inv] by (auto simp: getProcInfo_ok_iff)
    then show "k \<in> pid_set s" using pids_old[OF _ inv] assms(3) by blast
  qed
  have "length ?found = card (set ?found)" by (rule distinct_card[OF found_sorted(2), symmetric])
  also have "\<dots> \<le> card (pid_set s)" by (rule card_mono[OF finite_pids sub])
  also have "\<dots> \<le> 64" using card_pids[OF inv] getNumProc_le[of s] assms(2) by simp
  finally have sc: "ps_scan obs 1 (getMaxPid s) [] = Some ?found"
    using getMaxPid_nonneg[of s] by (subst ps_scan_filter) (auto simp: Let_def PIDS_SIZE_def)
  have srt: "sortPids ?found (length ?found) = ?found"
    using mset_sorted_eq[OF sortPids_correct(1) sortPids_correct(2) found_sorted(1)] .
  have m: "ps_main s1 s obs obs2 = Some ([PsTotal (getNumProc s1), PsMaxPid (getMaxPid s), PsHeader] @ ps_rows obs2 ?found)"
    by (simp only: ps_main_def sc option.case srt)
  have "sorted_wrt (<) (row_pids (ps_rows obs2 ?found))"
    unfolding row_pids_rows strict_sorted_iff by (simp add: sorted_wrt_filter)
  moreover have "set (row_pids (ps_rows obs2 ?found)) \<subseteq> pid_set s"
    using sub by (auto simp: row_pids_rows)
  ultimately show ?thesis using m by blast
qed

theorem ps_never_overflows_witness:
  "\<exists>rows. ps_main demo5 demo5 (\<lambda>_. demo5) (\<lambda>_. demo9) =
      Some ([PsTotal (getNumProc demo5), PsMaxPid (getMaxPid demo5), PsHeader] @ rows) \<and>
    sorted_wrt (<) (row_pids rows) \<and> set (row_pids rows) \<subseteq> pid_set demo5"
proof -
  have n: "nproc demo5 \<le> 64" by code_simp
  show ?thesis by (rule ps_never_overflows[OF demo5_reach n]) simp
qed

end
