(* ===== verification/User_Prog.thy ===== *)
theory User_Prog
  imports Xv6_Pids
begin

text \<open>
  User programs of the kernel as data: a program is a tree of system calls, each continued by
  its result. \<open>uexec\<close> runs one in a process of the kernel while the scheduler, the other processes
  and the devices take steps of \<open>kstep\<close> in between (\<open>idle\<close>), as far as a condition on the
  environment allows. The calls on files (\<open>sysfile.c\<close> is not in the repository) are a parameter.
  \<open>always\<close> is what every execution guarantees, with one equation per construct; \<open>quiet_run\<close>
  computes an execution in which nothing else moves.
\<close>

section \<open>Programs\<close>

datatype ucall = GetNumProc | GetMaxPid | Getpid | Fork | Wait | Sleep cint | Sbrk cint
  | Open string cint | Close cint | Read cint cint | Write cint string

text \<open>
  \<open>GetProcInfo\<close> has the old content of the structure it is given, \<open>Pipe\<close> continues with the
  result and the two descriptors, and \<open>Printf\<close> writes to descriptor 1.
\<close>

datatype 'a uprog =
    Done 'a
  | Printf string "'a uprog"
  | Ask ucall "cint \<Rightarrow> 'a uprog"
  | GetProcInfo cint processInfo "cint \<Rightarrow> processInfo \<Rightarrow> 'a uprog"
  | Pipe "cint \<Rightarrow> cint \<Rightarrow> cint \<Rightarrow> 'a uprog"
  | Exit

primrec ubind :: "'a uprog \<Rightarrow> ('a \<Rightarrow> 'b uprog) \<Rightarrow> 'b uprog" where
  "ubind (Done x) f = f x"
| "ubind (Printf m p) f = Printf m (ubind p f)"
| "ubind (Ask c k) f = Ask c (\<lambda>v. ubind (k v) f)"
| "ubind (GetProcInfo n i k) f = GetProcInfo n i (\<lambda>v j. ubind (k v j) f)"
| "ubind (Pipe k) f = Pipe (\<lambda>v a b. ubind (k v a b) f)"
| "ubind Exit f = Exit"

section \<open>Executions\<close>

text \<open>
  What a program runs on: the kernel, the effect of calls on files on the descriptor table, and
  what the environment may do.
\<close>

record 'w machine =
  mK :: kconf
  mE :: "'w kext"
  file_op :: "ucall \<Rightarrow> uint32 list \<Rightarrow> cint \<Rightarrow> uint32 list \<Rightarrow> bool"
  pipe_op :: "uint32 list \<Rightarrow> cint \<Rightarrow> cint \<Rightarrow> cint \<Rightarrow> uint32 list \<Rightarrow> bool"
  rely :: "'w kstate \<Rightarrow> 'w kstate \<Rightarrow> bool"

definition in_user :: "nat \<Rightarrow> 'w kstate \<Rightarrow> bool" where
  "in_user cur s \<longleftrightarrow> Some cur \<in> cproc ` set (cpus s) \<and> kpos (proc_at s cur) = KUser"

text \<open>
  A kernel step that is not a call of process \<open>cur\<close>: it leaves alone what only \<open>cur\<close>'s own calls
  change, its descriptors, its size, where it resumes, and its zombie children, which only its
  own \<open>wait\<close> reaps. \<open>cur\<close> may lose its CPU or sleep in the kernel meanwhile.
\<close>

definition own_same :: "proc \<Rightarrow> proc \<Rightarrow> bool" where
  "own_same p p' \<longleftrightarrow> pid p' = pid p \<and> sz p' = sz p \<and> ofile p' = ofile p \<and>
     (kpos p' = kpos p \<or> {kpos p, kpos p'} \<subseteq> {KUser, KSleep KUser})"

definition idle :: "'w machine \<Rightarrow> nat \<Rightarrow> 'w kstate \<Rightarrow> 'w kstate \<Rightarrow> bool" where
  "idle M cur s t \<longleftrightarrow> kstep (mK M) (mE M) s t \<and> rely M s t \<and> own_same (proc_at s cur) (proc_at t cur) \<and>
     (\<forall>i<nproc s. parent (proc_at s i) = Some cur \<and> state (proc_at s i) = ZOMBIE \<longrightarrow>
        state (proc_at t i) = ZOMBIE)"

abbreviation idles :: "'w machine \<Rightarrow> nat \<Rightarrow> 'w kstate \<Rightarrow> 'w kstate \<Rightarrow> bool" where
  "idles M cur \<equiv> (idle M cur)\<^sup>*\<^sup>*"

text \<open>\<open>wait\<close>: passes over the table, with a sleep between two of them.\<close>

definition wait_pass :: "'w machine \<Rightarrow> nat \<Rightarrow> 'w kstate \<Rightarrow> cint option \<times> 'w kstate" where
  "wait_pass M cur s = wait_iter (mE M) cur (if kpos (proc_at s cur) = KWait then sleep_resume cur s else s)"

inductive uwait :: "'w machine \<Rightarrow> nat \<Rightarrow> 'w kstate \<Rightarrow> cint \<Rightarrow> 'w kstate \<Rightarrow> bool" for M cur where
  uw_return: "runs s c cur \<Longrightarrow> kpos (proc_at s cur) = KUser \<or> kpos (proc_at s cur) = KWait \<Longrightarrow>
     wait_pass M cur s = (Some r, t) \<Longrightarrow> uwait M cur s r (wait_run (mE M) c cur s)"
| uw_block: "runs s c cur \<Longrightarrow> kpos (proc_at s cur) = KUser \<or> kpos (proc_at s cur) = KWait \<Longrightarrow>
     wait_pass M cur s = (None, t) \<Longrightarrow> idles M cur (wait_run (mE M) c cur s) s1 \<Longrightarrow>
     kpos (proc_at s1 cur) = KWait \<Longrightarrow> uwait M cur s1 r u \<Longrightarrow> uwait M cur s r u"

text \<open>One call, from a state in which \<open>cur\<close> runs user code to the next one.\<close>

definition set_files :: "nat \<Rightarrow> uint32 list \<Rightarrow> 'w \<Rightarrow> 'w kstate \<Rightarrow> 'w kstate" where
  "set_files cur fs w s = s\<lparr>ptable := (ptable s)[cur := (proc_at s cur)\<lparr>ofile := fs\<rparr>], world := w\<rparr>"

fun on_files :: "ucall \<Rightarrow> bool" where
  "on_files (Open f m) = True" | "on_files (Close d) = True"
| "on_files (Read d n) = True" | "on_files (Write d b) = True" | "on_files c = False"

inductive ucalls :: "'w machine \<Rightarrow> nat \<Rightarrow> ucall \<Rightarrow> 'w kstate \<Rightarrow> cint \<Rightarrow> 'w kstate \<Rightarrow> bool" for M cur where
  u_numproc: "in_user cur s \<Longrightarrow> ucalls M cur GetNumProc s (getNumProc s) s"
| u_maxpid: "in_user cur s \<Longrightarrow> ucalls M cur GetMaxPid s (getMaxPid s) s"
| u_getpid: "in_user cur s \<Longrightarrow> ucalls M cur Getpid s (pid (proc_at s cur)) s"
| u_fork_full: "in_user cur s \<Longrightarrow> alloc_claim s = (None, t) \<Longrightarrow> ucalls M cur Fork s (-1) t"
| u_fork: "in_user cur s \<Longrightarrow> nextpid s < 2147483647 \<Longrightarrow> alloc_claim s = (Some np, s1) \<Longrightarrow>
     idles M cur (set_kpos cur (KFork np) s1) s2 \<Longrightarrow> runs s2 c cur \<Longrightarrow> kpos (proc_at s2 cur) = KFork np \<Longrightarrow>
     fork_finish (mK M) (mE M) cur np s2 = (r, t) \<Longrightarrow> ucalls M cur Fork s r (set_kpos cur KUser t)"
| u_wait: "in_user cur s \<Longrightarrow> uwait M cur s r t \<Longrightarrow> ucalls M cur Wait s r t"
| u_sleep: "in_user cur s \<Longrightarrow> idles M cur s t \<Longrightarrow> in_user cur t \<Longrightarrow> r = 0 \<or> r = -1 \<Longrightarrow>
     ucalls M cur (Sleep n) s r t"
| u_sbrk: "in_user cur s \<Longrightarrow> growproc (mE M) cur n s = (r, t) \<Longrightarrow>
     ucalls M cur (Sbrk n) s (if r < 0 then -1 else sint (sz (proc_at s cur))) t"
| u_file: "on_files c \<Longrightarrow> in_user cur s \<Longrightarrow> idles M cur s s1 \<Longrightarrow> in_user cur s1 \<Longrightarrow>
     file_op M c (ofile (proc_at s1 cur)) r fs \<Longrightarrow> ucalls M cur c s r (set_files cur fs w s1)"

inductive uexec :: "'w machine \<Rightarrow> nat \<Rightarrow> 'a uprog \<Rightarrow> 'w kstate \<Rightarrow> string list \<Rightarrow> 'a option \<Rightarrow> 'w kstate \<Rightarrow> bool"
  for M cur where
  ux_done: "uexec M cur (Done x) s [] (Some x) s"
| ux_printf: "uexec M cur p s out r t \<Longrightarrow> uexec M cur (Printf m p) s (m # out) r t"
| ux_ask: "idles M cur s s1 \<Longrightarrow> ucalls M cur c s1 v s2 \<Longrightarrow> uexec M cur (k v) s2 out r t \<Longrightarrow>
     uexec M cur (Ask c k) s out r t"
| ux_info: "idles M cur s s1 \<Longrightarrow> in_user cur s1 \<Longrightarrow> getProcInfo n i s1 = (v, j) \<Longrightarrow>
     uexec M cur (k v j) s1 out r t \<Longrightarrow> uexec M cur (GetProcInfo n i k) s out r t"
| ux_pipe: "idles M cur s s1 \<Longrightarrow> in_user cur s1 \<Longrightarrow> pipe_op M (ofile (proc_at s1 cur)) v a b fs \<Longrightarrow>
     uexec M cur (k v a b) (set_files cur fs w s1) out r t \<Longrightarrow> uexec M cur (Pipe k) s out r t"
| ux_exit: "idles M cur s t \<Longrightarrow> in_user cur t \<Longrightarrow> uexec M cur Exit s [] None t"

inductive_cases uexec_DoneE: "uexec M cur (Done x) s out r t"
inductive_cases uexec_PrintfE: "uexec M cur (Printf m p) s out r t"
inductive_cases uexec_AskE: "uexec M cur (Ask c k) s out r t"
inductive_cases uexec_InfoE: "uexec M cur (GetProcInfo n i k) s out r t"
inductive_cases uexec_PipeE: "uexec M cur (Pipe k) s out r t"
inductive_cases uexec_ExitE: "uexec M cur Exit s out r t"

inductive_cases ucalls_numprocE: "ucalls M cur GetNumProc s v t"
inductive_cases ucalls_maxpidE: "ucalls M cur GetMaxPid s v t"
inductive_cases ucalls_getpidE: "ucalls M cur Getpid s v t"
inductive_cases ucalls_forkE: "ucalls M cur Fork s v t"
inductive_cases ucalls_waitE: "ucalls M cur Wait s v t"
inductive_cases ucalls_sleepE: "ucalls M cur (Sleep n) s v t"
inductive_cases ucalls_sbrkE: "ucalls M cur (Sbrk n) s v t"
inductive_cases ucalls_openE: "ucalls M cur (Open f m) s v t"
inductive_cases ucalls_closeE: "ucalls M cur (Close d) s v t"

section \<open>What every execution guarantees\<close>

definition always :: "'w machine \<Rightarrow> nat \<Rightarrow> 'a uprog \<Rightarrow> 'w kstate \<Rightarrow>
    (string list \<Rightarrow> 'a option \<Rightarrow> 'w kstate \<Rightarrow> bool) \<Rightarrow> bool" where
  "always M cur p s Q \<longleftrightarrow> (\<forall>out r t. uexec M cur p s out r t \<longrightarrow> Q out r t)"

lemma alwaysD: "always M cur p s Q \<Longrightarrow> uexec M cur p s out r t \<Longrightarrow> Q out r t"
  by (simp add: always_def)

lemma always_Done [simp]: "always M cur (Done x) s Q \<longleftrightarrow> Q [] (Some x) s"
  unfolding always_def by (auto intro: ux_done elim: uexec_DoneE)

lemma always_Printf [simp]: "always M cur (Printf m p) s Q \<longleftrightarrow> always M cur p s (\<lambda>out. Q (m # out))"
  unfolding always_def by (auto intro: ux_printf elim: uexec_PrintfE)

lemma always_Ask:
  "always M cur (Ask c k) s Q \<longleftrightarrow>
   (\<forall>s1 v s2. idles M cur s s1 \<longrightarrow> ucalls M cur c s1 v s2 \<longrightarrow> always M cur (k v) s2 Q)"
  unfolding always_def by (blast intro: ux_ask elim: uexec_AskE)

lemma always_GetProcInfo:
  "always M cur (GetProcInfo n i k) s Q \<longleftrightarrow>
   (\<forall>s1. idles M cur s s1 \<longrightarrow> in_user cur s1 \<longrightarrow>
      always M cur (k (fst (getProcInfo n i s1)) (snd (getProcInfo n i s1))) s1 Q)"
  (is "?l \<longleftrightarrow> ?r")
proof
  assume ?l
  then show ?r unfolding always_def using ux_info[of M cur s _ n i, OF _ _ surjective_pairing] by blast
next
  assume r: ?r
  show ?l
    unfolding always_def
  proof (intro allI impI)
    fix out x t assume "uexec M cur (GetProcInfo n i k) s out x t"
    then obtain s1 v j where "idles M cur s s1" "in_user cur s1" "getProcInfo n i s1 = (v, j)"
      "uexec M cur (k v j) s1 out x t" by (rule uexec_InfoE)
    then show "Q out x t" using r by (auto simp: always_def)
  qed
qed

lemma always_Exit:
  "always M cur Exit s Q \<longleftrightarrow> (\<forall>t. idles M cur s t \<longrightarrow> in_user cur t \<longrightarrow> Q [] None t)"
  unfolding always_def by (blast intro: ux_exit elim: uexec_ExitE)

lemma always_mono: "always M cur p s P \<Longrightarrow> (\<And>out r t. P out r t \<Longrightarrow> Q out r t) \<Longrightarrow> always M cur p s Q"
  by (auto simp: always_def)

lemmas always_simps = always_Ask always_GetProcInfo always_Exit

text \<open>An execution of one program after another.\<close>

lemma uexec_ubind:
  assumes "uexec M cur (ubind p f) s out r t"
  obtains (ends) "r = None" "uexec M cur p s out None t"
  | (goes_on) out1 x s1 out2 where "uexec M cur p s out1 (Some x) s1" "uexec M cur (f x) s1 out2 r t"
      "out = out1 @ out2"
  using assms
proof (induction p arbitrary: s out thesis)
  case (Done x)
  show ?case by (rule Done.prems(2)[OF ux_done]) (use Done.prems(3) in auto)
next
  case (Printf m p)
  from Printf.prems(3) obtain o' where o: "out = m # o'" "uexec M cur (ubind p f) s o' r t"
    by (auto elim: uexec_PrintfE)
  show ?case
    by (rule Printf.IH[OF _ _ o(2)]) (use Printf.prems(1,2) o(1) ux_printf in \<open>fastforce+\<close>)
next
  case (Ask c k)
  from Ask.prems(3) obtain s1 v s2 where o: "idles M cur s s1" "ucalls M cur c s1 v s2"
    "uexec M cur (ubind (k v) f) s2 out r t" by (auto elim: uexec_AskE)
  show ?case
    by (rule Ask.IH[OF rangeI _ _ o(3)]) (use Ask.prems(1,2) o(1,2) ux_ask in \<open>blast+\<close>)
next
  case (GetProcInfo n i k)
  from GetProcInfo.prems(3) obtain s1 v j where o: "idles M cur s s1" "in_user cur s1" "getProcInfo n i s1 = (v, j)"
    "uexec M cur (ubind (k v j) f) s1 out r t" by (auto elim: uexec_InfoE)
  show ?case
    by (rule GetProcInfo.IH[OF rangeI rangeI _ _ o(4)]) (use GetProcInfo.prems(1,2) o(1-3) ux_info in \<open>blast+\<close>)
next
  case (Pipe k)
  from Pipe.prems(3) obtain s1 v a b fs w where o: "idles M cur s s1" "in_user cur s1"
    "pipe_op M (ofile (proc_at s1 cur)) v a b fs" "uexec M cur (ubind (k v a b) f) (set_files cur fs w s1) out r t"
    by (auto elim: uexec_PipeE)
  show ?case
    by (rule Pipe.IH[OF rangeI rangeI rangeI _ _ o(4)]) (use Pipe.prems(1,2) ux_pipe[OF o(1-3)] in \<open>blast+\<close>)
next
  case Exit
  have e: "uexec M cur Exit s out r t" using Exit.prems(3) by simp
  then have "r = None" "out = []" "idles M cur s t" "in_user cur t" by (auto elim: uexec_ExitE)
  then show ?case using Exit.prems(1) ux_exit[of M cur s t] by simp
qed

section \<open>Executions are runs of the kernel\<close>

lemma idles_steps: "idles M cur s t \<Longrightarrow> (kstep (mK M) (mE M))\<^sup>*\<^sup>* s t"
  by (rule rtranclp_mono[THEN predicate2D]) (auto simp: idle_def)

lemma in_user_runs: "in_user cur s \<Longrightarrow> \<exists>c. runs s c cur \<and> kpos (proc_at s cur) = KUser"
  by (auto simp: in_user_def in_set_conv_nth)

lemma uwait_steps: "uwait M cur s r t \<Longrightarrow> (kstep (mK M) (mE M))\<^sup>*\<^sup>* s t"
proof (induction rule: uwait.induct)
  case (uw_return s c r t)
  then show ?case by (intro r_into_rtranclp k_wait) auto
next
  case (uw_block s c t s1 r u)
  have "kstep (mK M) (mE M) s (wait_run (mE M) c cur s)" using uw_block(1,2) by (intro k_wait) auto
  then show ?case using idles_steps[OF uw_block(4)] uw_block(7)
    by (meson converse_rtranclp_into_rtranclp rtranclp_trans)
qed

lemma set_files_step: "in_user cur s \<Longrightarrow> kstep K E s (set_files cur fs w s)"
  using in_user_runs[of cur s] unfolding set_files_def by (auto intro!: k_process simp: same_control_def)

lemma ucalls_steps: "ucalls M cur c s v t \<Longrightarrow> (kstep (mK M) (mE M))\<^sup>*\<^sup>* s t"
proof (induction rule: ucalls.induct)
  case (u_fork_full s t)
  then show ?case by (auto simp: alloc_claim_def split: option.splits)
next
  case (u_fork s np s1 s2 c r t)
  obtain d where "runs s d cur" "kpos (proc_at s cur) = KUser" using in_user_runs[OF u_fork(1)] by blast
  then have "kstep (mK M) (mE M) s (set_kpos cur (KFork np) s1)" using u_fork(2,3) by (intro k_fork_begin) auto
  moreover have "kstep (mK M) (mE M) s2 (set_kpos cur KUser t)"
    using k_fork_end[OF u_fork(5,6), of "mK M" "mE M"] u_fork(7) by simp
  ultimately show ?case using idles_steps[OF u_fork(4)]
    by (meson converse_rtranclp_into_rtranclp rtranclp.rtrancl_into_rtrancl)
next
  case (u_sbrk s n r t)
  then show ?case using in_user_runs[OF u_sbrk(1)] k_sbrk[where K = "mK M" and E = "mE M" and n = n and cur = cur and s = s] by (metis r_into_rtranclp snd_conv)
next
  case (u_file c s s1 r fs w)
  then show ?case using idles_steps set_files_step by (meson rtranclp.rtrancl_into_rtrancl)
qed (auto intro: uwait_steps idles_steps)

lemma uexec_steps: "uexec M cur p s out r t \<Longrightarrow> (kstep (mK M) (mE M))\<^sup>*\<^sup>* s t"
proof (induction rule: uexec.induct)
  case (ux_ask s s1 c v s2 k out r t)
  then show ?case using idles_steps ucalls_steps by (meson rtranclp_trans)
next
  case (ux_info s s1 n i v j k out r t)
  then show ?case using idles_steps by (meson rtranclp_trans)
next
  case (ux_pipe s s1 v a b fs k w out r t)
  then show ?case using idles_steps set_files_step by (meson converse_rtranclp_into_rtranclp rtranclp_trans)
qed (auto intro: idles_steps)

section \<open>Executions in which nothing else moves\<close>

fun quiet_answer :: "nat \<Rightarrow> 'w kstate \<Rightarrow> ucall \<Rightarrow> cint option" where
  "quiet_answer cur s GetNumProc = Some (getNumProc s)"
| "quiet_answer cur s GetMaxPid = Some (getMaxPid s)"
| "quiet_answer cur s Getpid = Some (pid (proc_at s cur))"
| "quiet_answer cur s c = None"

primrec quiet_run :: "nat \<Rightarrow> 'w kstate \<Rightarrow> 'a uprog \<Rightarrow> (string list \<times> 'a) option" where
  "quiet_run cur s (Done x) = Some ([], x)"
| "quiet_run cur s (Printf m p) = map_option (\<lambda>(out, x). (m # out, x)) (quiet_run cur s p)"
| "quiet_run cur s (Ask c k) = (case quiet_answer cur s c of None \<Rightarrow> None | Some v \<Rightarrow> quiet_run cur s (k v))"
| "quiet_run cur s (GetProcInfo n i k) =
     quiet_run cur s (k (fst (getProcInfo n i s)) (snd (getProcInfo n i s)))"
| "quiet_run cur s (Pipe k) = None"
| "quiet_run cur s Exit = None"

lemma quiet_run_uexec:
  assumes "in_user cur s" "quiet_run cur s p = Some (out, x)"
  shows "uexec M cur p s out (Some x) s"
  using assms(2)
proof (induction p arbitrary: out)
  case (Ask c k)
  then obtain v where v: "quiet_answer cur s c = Some v" "quiet_run cur s (k v) = Some (out, x)"
    by (auto split: option.splits)
  then have "ucalls M cur c s v s"
    using assms(1) by (cases c) (auto intro: u_numproc u_maxpid u_getpid)
  then show ?case using Ask.IH[OF rangeI v(2)] by (blast intro: ux_ask)
next
  case (GetProcInfo n i k)
  have "uexec M cur (k (fst (getProcInfo n i s)) (snd (getProcInfo n i s))) s out (Some x) s"
    by (rule GetProcInfo.IH[OF rangeI rangeI]) (use GetProcInfo.prems in simp)
  then show ?case using ux_info[of M cur s s n i, OF _ assms(1) surjective_pairing] by blast
qed (auto intro: ux_done ux_printf)

end
