(* ===== verification/C_Text.thy ===== *)
theory C_Text
  imports OS_Prelude
begin

text \<open>
  The parts of the C library that the user programs call on text: \<open>isspace\<close>, \<open>strtok_r\<close>,
  \<open>strncmp\<close> against a fixed prefix, decimal input (\<open>atoi\<close>, \<open>sscanf\<close> with \<open>%d\<close> and \<open>%lld\<close>) and
  decimal output. A C string is the list of its characters before the terminating null byte.
  Numbers out of range are read as the GNU library reads them: clamped to 64 bits, and then,
  for an \<open>int\<close>, cut to 32. The locale \<open>number_text\<close> is what the counter files rely on.
\<close>

section \<open>Characters and strings\<close>

abbreviation nul :: char where
  "nul \<equiv> CHR 0x00"

definition c_str :: "string \<Rightarrow> string" where
  "c_str bytes = takeWhile (\<lambda>c. c \<noteq> nul) bytes"

definition isspace :: "char \<Rightarrow> bool" where
  "isspace c \<longleftrightarrow> c \<in> {CHR '' '', CHR 0x09, CHR 0x0A, CHR 0x0B, CHR 0x0C, CHR 0x0D}"

definition skip_space :: "string \<Rightarrow> string" where
  "skip_space s = dropWhile isspace s"

definition blank :: "char \<Rightarrow> bool" where
  "blank c \<longleftrightarrow> c = CHR '' '' \<or> c = CHR 0x09"

text \<open>\<open>strncmp(s, pre, strlen(pre)) == 0\<close>\<close>

definition has_prefix :: "string \<Rightarrow> string \<Rightarrow> bool" where
  "has_prefix pre s \<longleftrightarrow> take (length pre) s = pre"

lemma has_prefix_iff: "has_prefix pre s \<longleftrightarrow> (\<exists>r. s = pre @ r)"
  by (metis append_eq_conv_conj append_take_drop_id has_prefix_def)

lemma c_str_id: "nul \<notin> set s \<Longrightarrow> c_str s = s"
  by (simp add: c_str_def takeWhile_eq_all_conv) metis

lemma c_str_no_nul: "nul \<notin> set (c_str s)"
  unfolding c_str_def by (metis set_takeWhileD)

lemma length_c_str: "length (c_str s) \<le> length s"
  by (simp add: c_str_def length_takeWhile_le)

text \<open>
  \<open>strtok_r\<close>: skip delimiters, take the token up to the next delimiter, and resume behind it.
\<close>

definition strtok :: "(char \<Rightarrow> bool) \<Rightarrow> string \<Rightarrow> string option \<times> string" where
  "strtok delim s =
     (let t = dropWhile delim s
      in if t = [] then (None, [])
         else (Some (takeWhile (\<lambda>c. \<not> delim c) t), drop 1 (dropWhile (\<lambda>c. \<not> delim c) t)))"

lemma strtok_rest_shorter: "strtok delim s = (Some t, r) \<Longrightarrow> length r < length s"
proof -
  assume a: "strtok delim s = (Some t, r)"
  then have ne: "dropWhile delim s \<noteq> []" and r: "r = drop 1 (dropWhile (\<lambda>c. \<not> delim c) (dropWhile delim s))"
    by (auto simp: strtok_def Let_def split: if_splits)
  have "length (dropWhile (\<lambda>c. \<not> delim c) (dropWhile delim s)) \<le> length (dropWhile delim s)"
    by (rule length_dropWhile_le)
  also have "\<dots> \<le> length s" by (rule length_dropWhile_le)
  finally show "length r < length s" using ne r by (cases s) auto
qed

section \<open>Decimal numbers\<close>

definition digit :: "char \<Rightarrow> bool" where
  "digit c \<longleftrightarrow> 48 \<le> (of_char c :: nat) \<and> (of_char c :: nat) \<le> 57"

definition digit_val :: "char \<Rightarrow> int" where
  "digit_val c = int (of_char c) - 48"

definition digit_char :: "nat \<Rightarrow> char" where
  "digit_char n = char_of (48 + n)"

lemma digit_char [simp]: "n < 10 \<Longrightarrow> digit (digit_char n)" "n < 10 \<Longrightarrow> digit_val (digit_char n) = int n"
  by (simp_all add: digit_def digit_val_def digit_char_def of_char_of)

definition digits_val :: "string \<Rightarrow> int" where
  "digits_val ds = foldl (\<lambda>n c. 10 * n + digit_val c) 0 ds"

fun nat_digits :: "nat \<Rightarrow> string" where
  "nat_digits n = (if n < 10 then [digit_char n] else nat_digits (n div 10) @ [digit_char (n mod 10)])"

declare nat_digits.simps [simp del]

text \<open>\<open>%d\<close> and \<open>%lld\<close>, and \<open>%02d\<close> for a number that is not negative.\<close>

definition dec :: "int \<Rightarrow> string" where
  "dec x = (if x < 0 then CHR ''-'' # nat_digits (nat (- x)) else nat_digits (nat x))"

definition dec02 :: "nat \<Rightarrow> string" where
  "dec02 n = (if n < 10 then CHR ''0'' # nat_digits n else nat_digits n)"

text \<open>\<open>strtoll\<close>: white space, a sign, digits; \<open>None\<close> when there are no digits.\<close>

definition to_ll :: "int \<Rightarrow> int" where
  "to_ll x = (x + 9223372036854775808) mod 18446744073709551616 - 9223372036854775808"

definition clamp_ll :: "int \<Rightarrow> int" where
  "clamp_ll x = max (- 9223372036854775808) (min 9223372036854775807 x)"

definition scan_ll :: "string \<Rightarrow> int option" where
  "scan_ll s =
     (let t = skip_space s;
          (neg, u) = (case t of [] \<Rightarrow> (False, [])
                      | c # r \<Rightarrow> if c = CHR ''-'' then (True, r) else if c = CHR ''+'' then (False, r)
                                 else (False, t));
          ds = takeWhile digit u
      in if ds = [] then None else Some (clamp_ll (if neg then - digits_val ds else digits_val ds)))"

definition scan_int :: "string \<Rightarrow> cint option" where
  "scan_int s = map_option to_cint (scan_ll s)"

definition atoi :: "string \<Rightarrow> cint" where
  "atoi s = (case scan_int s of None \<Rightarrow> 0 | Some n \<Rightarrow> n)"

lemma digits_val_snoc: "digits_val (ds @ [c]) = 10 * digits_val ds + digit_val c"
  by (simp add: digits_val_def)

lemma nat_digits_correct: "digits_val (nat_digits n) = int n \<and> nat_digits n \<noteq> [] \<and> (\<forall>c \<in> set (nat_digits n). digit c)"
proof (induction n rule: nat_digits.induct)
  case (1 n)
  show ?case
  proof (cases "n < 10")
    case True
    then show ?thesis by (simp add: nat_digits.simps[of n] digits_val_def)
  next
    case False
    with 1 have "digits_val (nat_digits (n div 10)) = int (n div 10)" "\<forall>c \<in> set (nat_digits (n div 10)). digit c"
      by auto
    with False show ?thesis
      by (simp add: nat_digits.simps[of n] digits_val_snoc zmod_int zdiv_int)
  qed
qed

lemma digit_not_space: "digit c \<Longrightarrow> \<not> isspace c \<and> c \<noteq> CHR ''-'' \<and> c \<noteq> CHR ''+''"
  by (auto simp: digit_def isspace_def)

lemma takeWhile_digits:
  "\<forall>c \<in> set ds. digit c \<Longrightarrow> (rest = [] \<or> \<not> digit (hd rest)) \<Longrightarrow> takeWhile digit (ds @ rest) = ds"
  by (induction ds) (cases rest; auto)+

lemma scan_dec:
  assumes "- 9223372036854775808 \<le> x" "x < 9223372036854775808" "rest = [] \<or> \<not> digit (hd rest)"
  shows "scan_ll (dec x @ rest) = Some x"
proof -
  have cl: "clamp_ll x = x" using assms(1,2) by (simp add: clamp_ll_def)
  define n where "n = nat \<bar>x\<bar>"
  note nd = nat_digits_correct[of n]
  note tw = takeWhile_digits[OF _ assms(3), of "nat_digits n"]
  show ?thesis
  proof (cases "x < 0")
    case True
    then have d: "dec x = CHR ''-'' # nat_digits n" by (simp add: dec_def n_def)
    have "skip_space (dec x @ rest) = dec x @ rest" by (simp add: d skip_space_def isspace_def)
    with nd tw True cl show ?thesis by (simp add: scan_ll_def d n_def)
  next
    case False
    then have d: "dec x = nat_digits n" by (simp add: dec_def n_def)
    obtain c cs where c: "nat_digits n = c # cs" "digit c" using nd by (cases "nat_digits n") auto
    have "skip_space (dec x @ rest) = dec x @ rest" using digit_not_space[OF c(2)] by (simp add: d c(1) skip_space_def)
    with nd tw False cl c digit_not_space[OF c(2)] show ?thesis by (simp add: scan_ll_def d n_def)
  qed
qed

lemma to_ll_id: "- 9223372036854775808 \<le> x \<Longrightarrow> x < 9223372036854775808 \<Longrightarrow> to_ll x = x"
  by (simp add: to_ll_def)

section \<open>Text that holds a number\<close>

locale number_text =
  fixes put :: "int \<Rightarrow> string"
    and get :: "string \<Rightarrow> int"
    and lo hi :: int
  assumes get_put: "lo \<le> x \<Longrightarrow> x < hi \<Longrightarrow> get (put x) = x"
begin

text \<open>Reading, adding and writing back in turn accumulates, while no sum leaves the range.\<close>

lemma accumulate:
  assumes "\<forall>k\<le>length ds. lo \<le> x + sum_list (take k ds) \<and> x + sum_list (take k ds) < hi"
  shows "foldl (\<lambda>t d. put (get t + d)) (put x) ds = put (x + sum_list ds)"
  using assms
proof (induction ds arbitrary: x)
  case Nil
  then show ?case by simp
next
  case (Cons d ds)
  have "lo \<le> x" "x < hi" using Cons.prems[rule_format, of 0] by auto
  moreover have "\<forall>k\<le>length ds. lo \<le> (x + d) + sum_list (take k ds) \<and> (x + d) + sum_list (take k ds) < hi"
  proof (intro allI impI)
    fix k assume "k \<le> length ds"
    then show "lo \<le> (x + d) + sum_list (take k ds) \<and> (x + d) + sum_list (take k ds) < hi"
      using Cons.prems[rule_format, of "Suc k"] by (simp add: add.assoc)
  qed
  ultimately show ?case using Cons.IH[of "x + d"] by (simp add: get_put add.assoc)
qed

end

definition get_ll :: "string \<Rightarrow> int" where
  "get_ll s = (case scan_ll s of None \<Rightarrow> 0 | Some v \<Rightarrow> v)"

interpretation ll: number_text dec get_ll "- 9223372036854775808" "9223372036854775808"
  by unfold_locales (use scan_dec[where rest = "[]"] in \<open>simp add: get_ll_def\<close>)

end
