(* ===== verification/Test_Ps.thy ===== *)
theory Test_Ps
  imports User_Prog C_Text
begin

text \<open>
  \<open>hw4/testps.c\<close>, test by test, as user programs. The globals \<open>passed\<close>, \<open>failed\<close> and
  \<open>rand_state\<close> are threaded through; \<open>stack\<close> gives the content of the uninitialised structures of a
  test. A child runs the branch of \<open>fork\<close> with result 0, on its own copy of the globals. A call
  of \<open>exit\<close> ends the program; what the child does is another execution, of another process.
\<close>

section \<open>Globals and verdicts\<close>

record tglobals =
  passed :: cint
  failed :: cint
  rand_state :: uint32

definition test_globals :: tglobals where
  "test_globals = \<lparr>passed = 0, failed = 0, rand_state = 1\<rparr>"

type_synonym test = "(nat \<Rightarrow> processInfo) \<Rightarrow> tglobals \<Rightarrow> tglobals uprog"

definition test_pass :: "string \<Rightarrow> tglobals \<Rightarrow> tglobals uprog" where
  "test_pass nm g = Printf (''[PASS] '' @ nm @ [newline]) (Done (g\<lparr>passed := passed g + 1\<rparr>))"

definition test_fail :: "string \<Rightarrow> string \<Rightarrow> tglobals \<Rightarrow> tglobals uprog" where
  "test_fail nm reason g =
     Printf (''[FAIL] '' @ nm @ '': '' @ reason @ [newline]) (Done (g\<lparr>failed := failed g + 1\<rparr>))"

section \<open>Basic tests\<close>

definition test_numproc_positive :: test where
  "test_numproc_positive stack g =
     Ask GetNumProc (\<lambda>n.
       if n > 0 then test_pass ''getNumProc returns positive'' g
       else test_fail ''getNumProc returns positive'' ''returned <= 0'' g)"

definition test_maxpid_positive :: test where
  "test_maxpid_positive stack g =
     Ask GetMaxPid (\<lambda>m.
       if m > 0 then test_pass ''getMaxPid returns positive'' g
       else test_fail ''getMaxPid returns positive'' ''returned <= 0'' g)"

definition test_maxpid_ge_numproc :: test where
  "test_maxpid_ge_numproc stack g =
     Ask GetNumProc (\<lambda>n. Ask GetMaxPid (\<lambda>m.
       if m \<ge> n then test_pass ''getMaxPid >= getNumProc'' g
       else test_fail ''getMaxPid >= getNumProc'' ''maxpid < numproc'' g))"

definition test_procinfo_self :: test where
  "test_procinfo_self stack g =
     Ask Getpid (\<lambda>pid. GetProcInfo pid (stack 0) (\<lambda>ret pinfo.
       if ret = 0 then test_pass ''getProcInfo for self succeeds'' g
       else test_fail ''getProcInfo for self succeeds'' ''returned error'' g))"

definition test_procinfo_invalid :: test where
  "test_procinfo_invalid stack g =
     GetProcInfo 99999 (stack 0) (\<lambda>ret pinfo.
       if ret < 0 then test_pass ''getProcInfo for invalid PID fails'' g
       else test_fail ''getProcInfo for invalid PID fails'' ''should return negative'' g)"

definition test_procinfo_zero :: test where
  "test_procinfo_zero stack g =
     GetProcInfo 0 (stack 0) (\<lambda>ret pinfo.
       if ret < 0 then test_pass ''getProcInfo for PID 0 fails'' g
       else test_fail ''getProcInfo for PID 0 fails'' ''should return negative'' g)"

definition test_procinfo_negative :: test where
  "test_procinfo_negative stack g =
     GetProcInfo (-1) (stack 0) (\<lambda>ret pinfo.
       if ret < 0 then test_pass ''getProcInfo for negative PID fails'' g
       else test_fail ''getProcInfo for negative PID fails'' ''should return negative'' g)"

section \<open>Tests of the process itself\<close>

definition test_self_state_running :: test where
  "test_self_state_running stack g =
     Ask Getpid (\<lambda>pid. GetProcInfo pid (stack 0) (\<lambda>ret pinfo.
       if pi_state pinfo = 4 then test_pass ''Self process state is RUNNING'' g
       else test_fail ''Self process state is RUNNING'' ''state != 4'' g))"

definition test_self_size_positive :: test where
  "test_self_size_positive stack g =
     Ask Getpid (\<lambda>pid. GetProcInfo pid (stack 0) (\<lambda>ret pinfo.
       if pi_sz pinfo > 0 then test_pass ''Self process size is positive'' g
       else test_fail ''Self process size is positive'' ''sz <= 0'' g))"

definition test_self_nfd_positive :: test where
  "test_self_nfd_positive stack g =
     Ask Getpid (\<lambda>pid. GetProcInfo pid (stack 0) (\<lambda>ret pinfo.
       if pi_nfd pinfo \<ge> 3 then test_pass ''Self process has >= 3 open fds'' g
       else test_fail ''Self process has >= 3 open fds'' ''nfd < 3'' g))"

definition test_self_nrswitch_nonneg :: test where
  "test_self_nrswitch_nonneg stack g =
     Ask Getpid (\<lambda>pid. GetProcInfo pid (stack 0) (\<lambda>ret pinfo.
       if pi_nrswitch pinfo \<ge> 0 then test_pass ''Self process nrswitch >= 0'' g
       else test_fail ''Self process nrswitch >= 0'' ''nrswitch < 0'' g))"

definition test_procinfo_init :: test where
  "test_procinfo_init stack g =
     GetProcInfo 1 (stack 0) (\<lambda>ret pinfo.
       if ret = 0 then test_pass ''getProcInfo for init (PID 1) succeeds'' g
       else test_fail ''getProcInfo for init (PID 1) succeeds'' ''returned error'' g)"

definition test_init_ppid_zero :: test where
  "test_init_ppid_zero stack g =
     GetProcInfo 1 (stack 0) (\<lambda>ret pinfo.
       if pi_ppid pinfo = 0 then test_pass ''Init process ppid is 0'' g
       else test_fail ''Init process ppid is 0'' ''ppid != 0'' g)"

definition test_self_ppid_positive :: test where
  "test_self_ppid_positive stack g =
     Ask Getpid (\<lambda>pid. GetProcInfo pid (stack 0) (\<lambda>ret pinfo.
       if pi_ppid pinfo > 0 then test_pass ''Self process ppid > 0'' g
       else test_fail ''Self process ppid > 0'' ''ppid <= 0'' g))"

section \<open>fork and wait\<close>

definition test_fork_increases_numproc :: test where
  "test_fork_increases_numproc stack g =
     Ask GetNumProc (\<lambda>n1. Ask Fork (\<lambda>pid.
       if pid = 0 then Exit
       else Ask GetNumProc (\<lambda>n2. Ask Wait (\<lambda>_.
         if n2 > n1 then test_pass ''Fork increases numProc'' g
         else test_fail ''Fork increases numProc'' ''numproc did not increase'' g))))"

definition test_wait_decreases_numproc :: test where
  "test_wait_decreases_numproc stack g =
     Ask Fork (\<lambda>pid.
       if pid = 0 then Exit
       else Ask (Sleep 1) (\<lambda>_. Ask GetNumProc (\<lambda>n1. Ask Wait (\<lambda>_. Ask GetNumProc (\<lambda>n2.
         if n2 < n1 then test_pass ''Wait decreases numProc'' g
         else test_fail ''Wait decreases numProc'' ''numproc did not decrease'' g)))))"

text \<open>What the child does, which then exits; the parent's pid is a variable on its stack.\<close>

definition child_ppid :: "(nat \<Rightarrow> processInfo) \<Rightarrow> cint \<Rightarrow> 'a uprog" where
  "child_ppid stack parent_pid =
     Ask Getpid (\<lambda>mypid. GetProcInfo mypid (stack 0) (\<lambda>ret pinfo.
       if pi_ppid pinfo = parent_pid
       then Printf (''[PASS] Child ppid matches parent pid'' @ [newline]) Exit
       else Printf (''[FAIL] Child ppid matches parent pid'' @ [newline]) Exit))"

definition test_child_ppid :: test where
  "test_child_ppid stack g =
     Ask Getpid (\<lambda>parent_pid. Ask Fork (\<lambda>pid.
       if pid = 0 then child_ppid stack parent_pid else Ask Wait (\<lambda>_. Done g)))"

definition test_state_valid_range :: test where
  "test_state_valid_range stack g =
     Ask Getpid (\<lambda>pid. GetProcInfo pid (stack 0) (\<lambda>ret pinfo.
       if pi_state pinfo \<ge> 1 \<and> pi_state pinfo \<le> 5 then test_pass ''State is in valid range (1-5)'' g
       else test_fail ''State is in valid range (1-5)'' ''state out of range'' g))"

section \<open>Consistency\<close>

definition test_numproc_consistent :: test where
  "test_numproc_consistent stack g =
     Ask GetNumProc (\<lambda>n1. Ask GetNumProc (\<lambda>n2. Ask GetNumProc (\<lambda>n3.
       if n1 = n2 \<and> n2 = n3 then test_pass ''getNumProc is consistent'' g
       else test_fail ''getNumProc is consistent'' ''values differ'' g)))"

definition test_maxpid_consistent :: test where
  "test_maxpid_consistent stack g =
     Ask GetMaxPid (\<lambda>m1. Ask GetMaxPid (\<lambda>m2. Ask GetMaxPid (\<lambda>m3.
       if m1 = m2 \<and> m2 = m3 then test_pass ''getMaxPid is consistent'' g
       else test_fail ''getMaxPid is consistent'' ''values differ'' g)))"

text \<open>The loop over all pids; the structure keeps what the last successful call wrote.\<close>

function query_all_loop :: "cint \<Rightarrow> cint \<Rightarrow> processInfo \<Rightarrow> cint \<Rightarrow> cint \<Rightarrow> (cint \<Rightarrow> cint \<Rightarrow> 'a uprog) \<Rightarrow> 'a uprog" where
  "query_all_loop maxPid n pinfo foundCount errorCount k =
     (if n \<le> maxPid
      then GetProcInfo n pinfo (\<lambda>ret pinfo.
        if ret = 0
        then query_all_loop maxPid (n + 1) pinfo (foundCount + 1)
               (errorCount + (if pi_state pinfo < 1 \<or> pi_state pinfo > 5 then 1 else 0) +
                (if pi_sz pinfo \<le> 0 then 1 else 0) + (if pi_nfd pinfo < 0 then 1 else 0) +
                (if pi_nrswitch pinfo < 0 then 1 else 0)) k
        else query_all_loop maxPid (n + 1) pinfo foundCount errorCount k)
      else k foundCount errorCount)"
  by pat_completeness auto
termination
  by (relation "measure (\<lambda>(m, p, i, f, e, k). nat (m + 1 - p))") auto

declare query_all_loop.simps [simp del]

definition test_query_all_pids :: test where
  "test_query_all_pids stack g =
     Ask GetMaxPid (\<lambda>maxPid. query_all_loop maxPid 1 (stack 0) 0 0 (\<lambda>foundCount errorCount.
       if foundCount > 0 \<and> errorCount = 0 then test_pass ''All found PIDs have valid fields'' g
       else test_fail ''All found PIDs have valid fields'' ''invalid fields found'' g))"

definition test_nrswitch_increases :: test where
  "test_nrswitch_increases stack g =
     Ask Getpid (\<lambda>pid. GetProcInfo pid (stack 0) (\<lambda>_ pinfo1. Ask (Sleep 1) (\<lambda>_. Ask (Sleep 1) (\<lambda>_.
       GetProcInfo pid (stack 1) (\<lambda>_ pinfo2.
         if pi_nrswitch pinfo2 \<ge> pi_nrswitch pinfo1
         then test_pass ''nrswitch increases or stays same after sleep'' g
         else test_fail ''nrswitch increases or stays same after sleep'' ''nrswitch decreased'' g)))))"

section \<open>Files\<close>

definition test_open_increases_nfd :: test where
  "test_open_increases_nfd stack g =
     Ask Getpid (\<lambda>pid. GetProcInfo pid (stack 0) (\<lambda>_ pinfo1. Ask (Open ''README'' 0) (\<lambda>fd.
       if fd < 0 then test_fail ''Open file increases nfd'' ''could not open file'' g
       else GetProcInfo pid (stack 1) (\<lambda>_ pinfo2. Ask (Close fd) (\<lambda>_.
         if pi_nfd pinfo2 = pi_nfd pinfo1 + 1 then test_pass ''Open file increases nfd by 1'' g
         else test_fail ''Open file increases nfd by 1'' ''nfd not increased correctly'' g)))))"

definition test_close_decreases_nfd :: test where
  "test_close_decreases_nfd stack g =
     Ask Getpid (\<lambda>pid. Ask (Open ''README'' 0) (\<lambda>fd.
       if fd < 0 then test_fail ''Close file decreases nfd'' ''could not open file'' g
       else GetProcInfo pid (stack 0) (\<lambda>_ pinfo1. Ask (Close fd) (\<lambda>_. GetProcInfo pid (stack 1) (\<lambda>_ pinfo2.
         if pi_nfd pinfo2 = pi_nfd pinfo1 - 1 then test_pass ''Close file decreases nfd by 1'' g
         else test_fail ''Close file decreases nfd by 1'' ''nfd not decreased correctly'' g)))))"

section \<open>Children\<close>

fun fork_children :: "nat \<Rightarrow> 'a uprog \<Rightarrow> 'a uprog" where
  "fork_children 0 k = k"
| "fork_children (Suc n) k =
     Ask Fork (\<lambda>pid. if pid = 0 then Ask (Sleep 10) (\<lambda>_. Exit) else fork_children n k)"

fun wait_children :: "nat \<Rightarrow> 'a uprog \<Rightarrow> 'a uprog" where
  "wait_children 0 k = k"
| "wait_children (Suc n) k = Ask Wait (\<lambda>_. wait_children n k)"

definition test_multiple_children :: test where
  "test_multiple_children stack g =
     Ask GetNumProc (\<lambda>n1. fork_children 5 (Ask GetNumProc (\<lambda>n2. wait_children 5 (
       if n2 \<ge> n1 + 5 then test_pass ''Creating 5 children increases numProc by >= 5'' g
       else test_fail ''Creating 5 children increases numProc by >= 5'' ''incorrect count'' g))))"

definition test_maxpid_after_fork :: test where
  "test_maxpid_after_fork stack g =
     Ask GetMaxPid (\<lambda>m1. Ask Fork (\<lambda>pid.
       if pid = 0 then Exit
       else Ask GetMaxPid (\<lambda>m2. Ask Wait (\<lambda>_.
         if m2 \<ge> m1 then test_pass ''MaxPid >= original after fork'' g
         else test_fail ''MaxPid >= original after fork'' ''maxpid decreased'' g))))"

definition child_size :: "(nat \<Rightarrow> processInfo) \<Rightarrow> 'a uprog" where
  "child_size stack =
     Ask Getpid (\<lambda>mypid. GetProcInfo mypid (stack 1) (\<lambda>_ pi.
       if pi_sz pi > 0 then Printf (''[PASS] Child has positive memory size'' @ [newline]) Exit
       else Printf (''[FAIL] Child has positive memory size'' @ [newline]) Exit))"

definition test_child_size :: test where
  "test_child_size stack g =
     Ask Getpid (\<lambda>parent_pid. GetProcInfo parent_pid (stack 0) (\<lambda>_ pinfo_parent. Ask Fork (\<lambda>pid.
       if pid = 0 then child_size stack else Ask Wait (\<lambda>_. Done g))))"

function count_pids_loop :: "cint \<Rightarrow> cint \<Rightarrow> processInfo \<Rightarrow> cint \<Rightarrow> (cint \<Rightarrow> 'a uprog) \<Rightarrow> 'a uprog" where
  "count_pids_loop maxPid n pinfo actualCount k =
     (if n \<le> maxPid
      then GetProcInfo n pinfo (\<lambda>ret pinfo.
        count_pids_loop maxPid (n + 1) pinfo (if ret = 0 then actualCount + 1 else actualCount) k)
      else k actualCount)"
  by pat_completeness auto
termination
  by (relation "measure (\<lambda>(m, p, i, a, k). nat (m + 1 - p))") auto

declare count_pids_loop.simps [simp del]

definition test_numproc_matches_count :: test where
  "test_numproc_matches_count stack g =
     Ask GetMaxPid (\<lambda>maxPid. count_pids_loop maxPid 1 (stack 0) 0 (\<lambda>actualCount. Ask GetNumProc (\<lambda>reportedCount.
       if actualCount = reportedCount \<or> actualCount = reportedCount - 1 \<or> actualCount = reportedCount + 1
       then test_pass ''numProc approximately matches actual count'' g
       else test_fail ''numProc approximately matches actual count'' ''counts differ significantly'' g)))"

section \<open>Process states\<close>

definition test_zombie_state :: test where
  "test_zombie_state stack g =
     Ask Fork (\<lambda>pid.
       if pid = 0 then Exit
       else Ask (Sleep 2) (\<lambda>_. GetProcInfo pid (stack 0) (\<lambda>ret pinfo.
         let wasZombie = (ret = 0 \<and> pi_state pinfo = 5)
         in Ask Wait (\<lambda>_.
              if wasZombie then test_pass ''Detected zombie state'' g
              else test_pass ''Child exited (zombie test timing dependent)'' g))))"

definition test_sleeping_state :: test where
  "test_sleeping_state stack g =
     Pipe (\<lambda>_ fd0 fd1. Ask Fork (\<lambda>pid.
       if pid = 0
       then Ask (Close fd1) (\<lambda>_. Ask (Read fd0 1) (\<lambda>_. Ask (Close fd0) (\<lambda>_. Exit)))
       else Ask (Close fd0) (\<lambda>_. Ask (Sleep 2) (\<lambda>_. GetProcInfo pid (stack 0) (\<lambda>ret pinfo.
         Ask (Write fd1 ''x'') (\<lambda>_. Ask (Close fd1) (\<lambda>_. Ask Wait (\<lambda>_.
           if ret = 0 \<and> pi_state pinfo = 2 then test_pass ''Detected sleeping state'' g
           else test_pass ''Sleep state test (timing dependent)'' g))))))))"

definition test_procinfo_consistency :: test where
  "test_procinfo_consistency stack g =
     Ask Getpid (\<lambda>pid. GetProcInfo pid (stack 0) (\<lambda>_ p1. GetProcInfo pid (stack 1) (\<lambda>_ p2.
       GetProcInfo pid (stack 2) (\<lambda>_ p3.
         if pi_ppid p1 = pi_ppid p2 \<and> pi_ppid p2 = pi_ppid p3 \<and> pi_sz p1 = pi_sz p2 \<and> pi_sz p2 = pi_sz p3
         then test_pass ''getProcInfo returns consistent ppid and sz'' g
         else test_fail ''getProcInfo returns consistent ppid and sz'' ''values differ'' g))))"

definition test_sbrk_changes_size :: test where
  "test_sbrk_changes_size stack g =
     Ask Getpid (\<lambda>pid. GetProcInfo pid (stack 0) (\<lambda>_ pinfo1. Ask (Sbrk 4096) (\<lambda>_.
       GetProcInfo pid (stack 1) (\<lambda>_ pinfo2.
         if pi_sz pinfo2 > pi_sz pinfo1 then test_pass ''sbrk increases process size'' g
         else test_fail ''sbrk increases process size'' ''size did not increase'' g))))"

text \<open>The loop along the parents; its first argument is \<open>10 - chain_length\<close>.\<close>

fun chain_loop :: "nat \<Rightarrow> cint \<Rightarrow> processInfo \<Rightarrow> (bool \<Rightarrow> cint \<Rightarrow> 'a uprog) \<Rightarrow> 'a uprog" where
  "chain_loop 0 n pinfo k = k True n"
| "chain_loop (Suc m) n pinfo k =
     (if n > 1
      then GetProcInfo n pinfo (\<lambda>ret pinfo.
        if ret < 0 then k False n else chain_loop m (pi_ppid pinfo) pinfo k)
      else k True n)"

definition test_ppid_chain :: test where
  "test_ppid_chain stack g =
     Ask Getpid (\<lambda>pid. chain_loop 10 pid (stack 0) (\<lambda>valid pid.
       if valid \<and> (pid = 1 \<or> pid = 0) then test_pass ''PPID chain leads to init'' g
       else test_fail ''PPID chain leads to init'' ''chain broken'' g))"

fun rapid_loop :: "nat \<Rightarrow> (bool \<Rightarrow> 'a uprog) \<Rightarrow> 'a uprog" where
  "rapid_loop 0 k = k True"
| "rapid_loop (Suc n) k =
     Ask Fork (\<lambda>pid. if pid = 0 then Exit else if pid < 0 then k False else Ask Wait (\<lambda>_. rapid_loop n k))"

definition test_rapid_fork_exit :: test where
  "test_rapid_fork_exit stack g =
     rapid_loop 10 (\<lambda>success. Ask GetNumProc (\<lambda>n. Ask GetMaxPid (\<lambda>m.
       if success \<and> n > 0 \<and> m > 0 then test_pass ''System stable after rapid fork/exit'' g
       else test_fail ''System stable after rapid fork/exit'' ''inconsistent state'' g)))"

section \<open>Random tests\<close>

text \<open>\<open>unsigned long\<close> has 32 bits on the machine xv6 runs on.\<close>

definition rand_step :: "uint32 \<Rightarrow> uint32" where
  "rand_step r = r * 1664525 + 1013904223"

definition rand :: "tglobals \<Rightarrow> cint \<times> tglobals" where
  "rand g = (let r = rand_step (rand_state g)
             in (sint (and (drop_bit 16 r) 0x7FFF), g\<lparr>rand_state := r\<rparr>))"

fun random_loop :: "nat \<Rightarrow> (nat \<Rightarrow> processInfo) \<Rightarrow> tglobals \<Rightarrow> cint \<Rightarrow> (tglobals \<Rightarrow> cint \<Rightarrow> 'a uprog) \<Rightarrow> 'a uprog" where
  "random_loop 0 stack g success_count k = k g success_count"
| "random_loop (Suc n) stack g success_count k =
     (let (r, g) = rand g; pid = r mod 64 + 1
      in GetProcInfo pid (stack 0) (\<lambda>ret pinfo.
        if ret = 0
        then (if pi_ppid pinfo \<ge> 0 \<and> pi_sz pinfo > 0 \<and> pi_state pinfo \<ge> 0 \<and> pi_state pinfo \<le> 5
              then random_loop n stack g (success_count + 1) k
              else Printf (''Failed sanity check for PID '' @ dec pid @ [newline]) (random_loop n stack g success_count k))
        else if ret = -1 then random_loop n stack g (success_count + 1) k
        else Printf (''Failed error code check for PID '' @ dec pid @ [newline]) (random_loop n stack g success_count k)))"

definition test_random_100 :: test where
  "test_random_100 stack g =
     Printf (''Running 100 random tests...'' @ [newline])
       (random_loop 100 stack g 0 (\<lambda>g success_count.
         if success_count = 100 then test_pass ''100 Random PID checks passed'' g
         else test_fail ''100 Random PID checks'' ''Some checks failed'' g))"

section \<open>main\<close>

text \<open>The parts of \<open>main\<close>: a heading and the tests under it.\<close>

definition test_sections :: "(string \<times> test list) list" where
  "test_sections =
    [(''Basic Tests'', [test_numproc_positive, test_maxpid_positive, test_maxpid_ge_numproc,
        test_procinfo_self, test_procinfo_invalid, test_procinfo_zero, test_procinfo_negative]),
     (''Self Process Tests'', [test_self_state_running, test_self_size_positive, test_self_nfd_positive,
        test_self_nrswitch_nonneg, test_self_ppid_positive, test_state_valid_range]),
     (''Init Process Tests'', [test_procinfo_init, test_init_ppid_zero]),
     (''Consistency Tests'', [test_numproc_consistent, test_maxpid_consistent, test_procinfo_consistency]),
     (''Fork/Wait Tests'', [test_fork_increases_numproc, test_wait_decreases_numproc, test_child_ppid,
        test_maxpid_after_fork, test_child_size]),
     (''File Descriptor Tests'', [test_open_increases_nfd, test_close_decreases_nfd]),
     (''Memory Tests'', [test_sbrk_changes_size]),
     (''Context Switch Tests'', [test_nrswitch_increases]),
     (''Process State Tests'', [test_zombie_state, test_sleeping_state]),
     (''Comprehensive Tests'', [test_query_all_pids, test_numproc_matches_count, test_ppid_chain]),
     (''Stress Tests'', [test_multiple_children, test_rapid_fork_exit]),
     (''Random Tests'', [test_random_100])]"

fun run_tests :: "(nat \<Rightarrow> processInfo) \<Rightarrow> test list \<Rightarrow> tglobals \<Rightarrow> tglobals uprog" where
  "run_tests stack [] g = Done g"
| "run_tests stack (f # fs) g = ubind (f stack g) (run_tests stack fs)"

text \<open>Each heading but the first has an empty line in front of it.\<close>

fun run_sections :: "(nat \<Rightarrow> processInfo) \<Rightarrow> bool \<Rightarrow> (string \<times> test list) list \<Rightarrow> tglobals \<Rightarrow> tglobals uprog" where
  "run_sections stack gap [] g = Done g"
| "run_sections stack gap ((h, fs) # ss) g =
     Printf ((if gap then [newline] else []) @ ''--- '' @ h @ '' ---'' @ [newline])
       (ubind (run_tests stack fs g) (run_sections stack True ss))"

definition all_passed :: string where
  "all_passed = newline # ''ALL TESTS PASSED!'' @ [newline]"

definition some_failed :: string where
  "some_failed = newline # ''SOME TESTS FAILED!'' @ [newline]"

definition test_summary :: "tglobals \<Rightarrow> 'a uprog" where
  "test_summary g =
     Printf (newline # ''=== TEST SUMMARY ==='' @ [newline])
     (Printf (''Passed: '' @ dec (passed g) @ [newline])
     (Printf (''Failed: '' @ dec (failed g) @ [newline])
     (Printf (''Total:  '' @ dec (passed g + failed g) @ [newline])
     (Printf (if failed g = 0 then all_passed else some_failed) Exit))))"

definition testps_main :: "(nat \<Rightarrow> processInfo) \<Rightarrow> unit uprog" where
  "testps_main stack =
     Printf (newline # ''=== HW4 System Call Tests ==='' @ [newline, newline])
       (ubind (run_sections stack False test_sections test_globals) test_summary)"

end
