(* ===== verification/Test_Runs.thy ===== *)
theory Test_Runs
  imports Test_Ps
begin

text \<open>
  What a process can rely on while it runs the tests: the kernel's invariant, its own fields,
  and, in a quiet system, one state for all its calls. The counting of verdicts (\<open>adds\<close>).
\<close>

section \<open>Between two calls\<close>

lemma idle_own:
  assumes "kinv s" "idle M cur s t"
  shows "kinv t \<and> nproc t = nproc s \<and> pid (proc_at t cur) = pid (proc_at s cur) \<and>
    sz (proc_at t cur) = sz (proc_at s cur) \<and> ofile (proc_at t cur) = ofile (proc_at s cur)"
  using assms kinv_kstep[OF assms(1)] nproc_kstep[OF assms(1)] by (auto simp: idle_def own_same_def)

lemma idles_own:
  assumes "idles M cur s t" "kinv s"
  shows "kinv t \<and> nproc t = nproc s \<and> pid (proc_at t cur) = pid (proc_at s cur) \<and>
    sz (proc_at t cur) = sz (proc_at s cur) \<and> ofile (proc_at t cur) = ofile (proc_at s cur)"
  using assms(1)
proof (induction rule: rtranclp_induct)
  case (step t u)
  then show ?case using idle_own[of t M cur u] by simp
qed (simp add: assms(2))

lemma in_user_running:
  assumes "kinv s" "in_user cur s"
  shows "cur < nproc s \<and> state (proc_at s cur) = RUNNING \<and> active (proc_at s cur) \<and> live (proc_at s cur)"
  using in_user_runs[OF assms(2)] running_cpu[OF assms(1)] by (auto simp: active_def live_def)

lemma kinv_steps: "(kstep K E)\<^sup>*\<^sup>* s t \<Longrightarrow> kinv s \<Longrightarrow> kinv t"
  by (induction rule: rtranclp_induct) (auto intro: kinv_kstep)

text \<open>What \<open>getProcInfo\<close> tells a process about itself.\<close>

definition self_info :: "nat \<Rightarrow> 'w kstate \<Rightarrow> processInfo \<Rightarrow> processInfo" where
  "self_info cur s i = i\<lparr>pi_state := 4,
     pi_ppid := (case parent (proc_at s cur) of None \<Rightarrow> 0 | Some q \<Rightarrow> pid (proc_at s q)),
     pi_sz := sint (sz (proc_at s cur)), pi_nfd := count_fds (ofile (proc_at s cur)),
     pi_nrswitch := nrswitch (proc_at s cur)\<rparr>"

lemma getProcInfo_self:
  "kinv s \<Longrightarrow> in_user cur s \<Longrightarrow> getProcInfo (pid (proc_at s cur)) i s = (0, self_info cur s i)"
  using in_user_running[of s cur] getProcInfo_at[of s cur i] by (simp add: self_info_def)

lemma always_getpid_info:
  assumes "kinv s"
    and "\<And>s1 s2. idles M cur s s1 \<Longrightarrow> idles M cur s1 s2 \<Longrightarrow> in_user cur s1 \<Longrightarrow> in_user cur s2 \<Longrightarrow> kinv s2 \<Longrightarrow>
      pid (proc_at s1 cur) = pid (proc_at s cur) \<Longrightarrow> pid (proc_at s2 cur) = pid (proc_at s cur) \<Longrightarrow>
      sz (proc_at s2 cur) = sz (proc_at s cur) \<Longrightarrow> ofile (proc_at s2 cur) = ofile (proc_at s cur) \<Longrightarrow>
      always M cur (k (pid (proc_at s cur)) 0 (self_info cur s2 i)) s2 Q"
  shows "always M cur (Ask Getpid (\<lambda>p. GetProcInfo p i (k p))) s Q"
proof -
  have "always M cur (k v (fst (getProcInfo v i s2)) (snd (getProcInfo v i s2))) s2 Q"
    if "idles M cur s s1" "in_user cur s1" "v = pid (proc_at s1 cur)" "idles M cur s1 s2" "in_user cur s2" for s1 v s2
  proof -
    note o1 = idles_own[OF that(1) assms(1)]
    note o2 = idles_own[OF that(4), of] o1
    have "getProcInfo v i s2 = (0, self_info cur s2 i)"
      using getProcInfo_self[of s2 cur i] o2 that(3,5) by simp
    then show ?thesis using assms(2)[OF that(1,4,2,5)] o1 o2 that(3) by simp
  qed
  then show ?thesis by (auto simp: always_simps elim!: ucalls_getpidE)
qed

lemma always_numproc:
  "(\<And>s1. idles M cur s s1 \<Longrightarrow> in_user cur s1 \<Longrightarrow> always M cur (k (getNumProc s1)) s1 Q) \<Longrightarrow>
   always M cur (Ask GetNumProc k) s Q"
  by (auto simp: always_Ask elim!: ucalls_numprocE)

lemma always_maxpid:
  "(\<And>s1. idles M cur s s1 \<Longrightarrow> in_user cur s1 \<Longrightarrow> always M cur (k (getMaxPid s1)) s1 Q) \<Longrightarrow>
   always M cur (Ask GetMaxPid k) s Q"
  by (auto simp: always_Ask elim!: ucalls_maxpidE)

text \<open>The process with pid 1, and a process that is not it.\<close>

lemma getProcInfo_init:
  assumes "kinv s"
  obtains j where "getProcInfo 1 i s = (0, j)" "pi_ppid j = 0"
proof -
  obtain k where "k < nproc s" "live (proc_at s k)" "pid (proc_at s k) = 1" "parent (proc_at s k) = None"
    using init_procE[OF assms] by metis
  then show ?thesis using getProcInfo_at[OF assms, of k i] live_active that by fastforce
qed

lemma ppid_positive:
  assumes "kinv s" "in_user cur s" "pid (proc_at s cur) \<noteq> 1"
  shows "pi_ppid (self_info cur s i) > 0"
proof -
  note r = in_user_running[OF assms(1,2)]
  have "initproc s \<noteq> Some cur" using init_procE[OF assms(1)] assms(3) by force
  then obtain q where "q < nproc s" "parent (proc_at s cur) = Some q" "live (proc_at s q)"
    using parentE[OF assms(1)] r by blast
  then show ?thesis using pid_range[OF assms(1), of q] live_active by (simp add: self_info_def)
qed

section \<open>Nothing else moves\<close>

lemma idles_still: "(\<And>s t. \<not> rely M s t) \<Longrightarrow> idles M cur s t \<Longrightarrow> t = s"
  by (auto simp: idle_def elim: converse_rtranclpE)

lemma quiet_run_unique:
  assumes "\<And>s t. \<not> rely M s t" "quiet_run cur s p = Some (o', x)" "uexec M cur p s out r t"
  shows "out = o' \<and> r = Some x \<and> t = s"
  using assms(2,3)
proof (induction p arbitrary: o' out)
  case (Done y)
  then show ?case by (auto elim: uexec_DoneE)
next
  case (Printf m p)
  then show ?case by (fastforce elim: uexec_PrintfE)
next
  case (Ask c k)
  from Ask.prems(2) obtain s1 v s2 where o: "idles M cur s s1" "ucalls M cur c s1 v s2"
    "uexec M cur (k v) s2 out r t" by (auto elim: uexec_AskE)
  have "s1 = s" using idles_still assms(1) o(1) by blast
  then have "quiet_answer cur s c = Some v \<and> s2 = s"
    using Ask.prems(1) o(2) by (cases c) (auto elim: ucalls_numprocE ucalls_maxpidE ucalls_getpidE)
  then show ?case using Ask.IH[OF rangeI] Ask.prems(1) o(3) by simp
next
  case (GetProcInfo n i k)
  from GetProcInfo.prems(2) obtain s1 v j where o: "idles M cur s s1" "getProcInfo n i s1 = (v, j)"
    "uexec M cur (k v j) s1 out r t" by (auto elim: uexec_InfoE)
  have "s1 = s" using idles_still assms(1) o(1) by blast
  then show ?case using GetProcInfo.IH[OF rangeI rangeI] GetProcInfo.prems(1) o(2,3) by simp
qed simp_all

end
