(* ===== verification/Test_Forks.thy ===== *)
theory Test_Forks
  imports Test_Runs
begin

text \<open>
  \<open>fork\<close> and \<open>wait\<close> as a program sees them in a system in which no other process comes or goes
  (\<open>still\<close>): \<open>fork\<close> adds exactly one process, a child of the caller, and \<open>wait\<close> of an unkilled
  caller with a child takes exactly one child away.
\<close>

section \<open>A system in which no other process comes or goes\<close>

definition still :: "'w kstate \<Rightarrow> 'w kstate \<Rightarrow> bool" where
  "still s t \<longleftrightarrow> nproc t = nproc s \<and>
     (\<forall>i<nproc s. active (proc_at t i) = active (proc_at s i) \<and> parent (proc_at t i) = parent (proc_at s i) \<and>
        killed (proc_at t i) = killed (proc_at s i) \<and>
        (active (proc_at s i) \<longrightarrow> pid (proc_at t i) = pid (proc_at s i)))"

text \<open>The same, but for entry \<open>k\<close>.\<close>

definition still_but :: "nat \<Rightarrow> 'w kstate \<Rightarrow> 'w kstate \<Rightarrow> bool" where
  "still_but k s t \<longleftrightarrow> nproc t = nproc s \<and>
     (\<forall>i<nproc s. i \<noteq> k \<longrightarrow> active (proc_at t i) = active (proc_at s i) \<and> parent (proc_at t i) = parent (proc_at s i) \<and>
        killed (proc_at t i) = killed (proc_at s i) \<and>
        (active (proc_at s i) \<longrightarrow> pid (proc_at t i) = pid (proc_at s i)))"

lemma still_refl [simp]: "still s s"
  by (simp add: still_def)

lemma still_trans: "still s t \<Longrightarrow> still t u \<Longrightarrow> still s u"
  by (auto simp: still_def)

lemma still_still_but: "still s t \<Longrightarrow> still_but k t u \<Longrightarrow> still_but k s u"
  by (auto simp: still_def still_but_def)

lemma still_but_still: "still_but k s t \<Longrightarrow> still t u \<Longrightarrow> still_but k s u"
  by (auto simp: still_def still_but_def)

lemma still_but_trans: "still_but k s t \<Longrightarrow> still_but k t u \<Longrightarrow> still_but k s u"
  by (auto simp: still_but_def)

text \<open>Memory does not run out, and the other processes leave the table still.\<close>

definition fork_machine :: "'w machine \<Rightarrow> bool" where
  "fork_machine M \<longleftrightarrow> (\<forall>w. fst (kalloc (mE M) w) \<noteq> 0) \<and> (\<forall>d n w. fst (copyuvm (mE M) d n w) \<noteq> 0) \<and>
     (\<forall>s t. rely M s t \<longrightarrow> still s t)"

lemma idles_still_sys:
  assumes "idles M cur s t" "fork_machine M"
  shows "still s t"
  using assms(1)
proof (induction rule: rtranclp_induct)
  case (step t u)
  have "still t u" using step.hyps(2) assms(2) by (simp add: idle_def fork_machine_def)
  with step.IH show ?case by (rule still_trans)
qed simp

text \<open>What the test programs count.\<close>

lemma still_numproc: "still s t \<Longrightarrow> getNumProc t = getNumProc s"
proof -
  assume "still s t"
  then have "{i. i < nproc t \<and> active (proc_at t i)} = {i. i < nproc s \<and> active (proc_at s i)}" by (auto simp: still_def)
  then show ?thesis by (simp add: getNumProc_card)
qed

lemma numproc_add:
  assumes "still_but k s t" "k < nproc s" "\<not> active (proc_at s k)" "active (proc_at t k)"
  shows "getNumProc t = getNumProc s + 1"
proof -
  have "{i. i < nproc t \<and> active (proc_at t i)} = insert k {i. i < nproc s \<and> active (proc_at s i)}"
    using assms by (auto simp: still_but_def)
  then show ?thesis using assms(3) by (simp add: getNumProc_card)
qed

lemma numproc_drop:
  assumes "still_but k s t" "k < nproc s" "active (proc_at s k)" "\<not> active (proc_at t k)"
  shows "getNumProc t = getNumProc s - 1"
proof -
  have "still_but k t s" using assms(1) by (auto simp: still_but_def)
  moreover have "nproc t = nproc s" using assms(1) by (simp add: still_but_def)
  ultimately show ?thesis using numproc_add[of k t s] assms(2-4) by simp
qed

lemma getMaxPid_pids: "getMaxPid s = Max (insert 0 (pid_set s))"
proof -
  have "pid ` {p \<in> set (ptable s). active p} = pid_set s"
    by (auto simp: pid_set_def in_set_conv_nth image_iff)
  then show ?thesis by (simp add: getMaxPid_Max)
qed

lemma still_maxpid: "still s t \<Longrightarrow> getMaxPid t = getMaxPid s"
  using pids_cong[of t s] by (simp add: getMaxPid_pids still_def)

lemma maxpid_grows:
  assumes "still_but k s t" "\<not> active (proc_at s k)"
  shows "getMaxPid s \<le> getMaxPid t"
proof -
  have "pid_set s \<subseteq> pid_set t"
  proof
    fix p assume "p \<in> pid_set s"
    then obtain i where i: "i < nproc s" "active (proc_at s i)" "pid (proc_at s i) = p" by (auto simp: pid_set_def)
    then have "i \<noteq> k" using assms(2) by auto
    then have "i < nproc t" "active (proc_at t i)" "pid (proc_at t i) = p" using assms(1) i by (auto simp: still_but_def)
    then show "p \<in> pid_set t" by (auto simp: pid_set_def)
  qed
  then show ?thesis unfolding getMaxPid_pids by (intro Max_mono) auto
qed

section \<open>fork\<close>

lemma free_slot:
  assumes "getNumProc s < int (nproc s)"
  obtains i where "i < nproc s" "state (proc_at s i) = UNUSED"
proof -
  have "\<exists>i<nproc s. \<not> active (proc_at s i)"
  proof (rule ccontr)
    assume "\<not> ?thesis"
    then have e: "{i. i < nproc s \<and> active (proc_at s i)} = {..<nproc s}" by auto
    show False using assms unfolding getNumProc_card e by simp
  qed
  then show ?thesis using that unfolding active_def by blast
qed

lemma alloc_claim_full: "alloc_claim s = (None, t) \<Longrightarrow> i < nproc s \<Longrightarrow> state (proc_at s i) \<noteq> UNUSED"
  by (auto simp: alloc_claim_def first_index_None split: option.splits)

lemma fork_adds_child:
  assumes "kinv s" "ucalls M cur Fork s v t" "fork_machine M" "getNumProc s < int (nproc s)"
  obtains k where "k < nproc s" "k \<noteq> cur" "\<not> active (proc_at s k)" "active (proc_at t k)" "parent (proc_at t k) = Some cur"
    "still_but k s t" "v > 0"
  using assms(2)
proof (cases rule: ucalls_forkE[consumes 1])
  case 1
  obtain i where "i < nproc s" "state (proc_at s i) = UNUSED" using free_slot[OF assms(4)] .
  moreover have "alloc_claim s = (None, t)" using 1 by simp
  ultimately show ?thesis using alloc_claim_full[of s t i] by blast
next
  case u_fork: (2 k s1 s2 c t1)
  note c = alloc_claim_SomeD[OF u_fork(4)]
  note run = in_user_running[OF assms(1) u_fork(2)]
  have ne: "k \<noteq> cur" using c(2) run by auto
  let ?s1 = "set_kpos cur (KFork k) s1"
  obtain d where d: "runs s d cur" "kpos (proc_at s cur) = KUser" using in_user_runs[OF u_fork(2)] by blast
  then have st: "kstep (mK M) (mE M) s ?s1" using u_fork(3,4) by (intro k_fork_begin) auto
  have i1: "kinv ?s1" using kinv_kstep[OF assms(1) st] .
  have s1: "still_but k s ?s1" using c by (auto simp: still_but_def nth_upd_at active_def)
  have k1: "pid (proc_at ?s1 k) = nextpid s" "active (proc_at ?s1 k)" using c ne by (auto simp: nth_upd_at active_def)
  have s2: "still ?s1 s2" using idles_still_sys[OF u_fork(5) assms(3)] .
  have i2: "kinv s2" using idles_own[OF u_fork(5) i1] by blast
  have n2: "nproc s2 = nproc s" using s1 s2 by (simp add: still_def still_but_def)
  have cur2: "cur < nproc s2" using run n2 by simp
  note fo = fork_owner[OF i2 cur2 u_fork(6)]
  have p2: "pid (proc_at s2 k) = nextpid s" using s2 k1 c(1) s1 by (auto simp: still_def still_but_def)
  have pos: "0 < nextpid s" using pid_range[OF assms(1), of cur] run by simp
  have t1: "t1 = snd (fork_finish (mK M) (mE M) cur k s2)" "v = fst (fork_finish (mK M) (mE M) cur k s2)"
    using u_fork(7) by simp_all
  show ?thesis
  proof (rule fork_finish_detail[OF fo(2) ne[symmetric], where K = "mK M" and E = "mE M"], goal_cases)
    case 1
    then show ?case using assms(3) by (auto simp: fork_machine_def)
  next
    case 2
    then show ?case using assms(3) by (auto simp: fork_machine_def)
  next
    case (3 x w fs dir)
    have "nproc t1 = nproc s2"
      using fork_finish_effect[OF fo(2) ne[symmetric], where K = "mK M" and E = "mE M"] by (metis t1(1) length_upd_at)
    then have sb: "still_but k s2 (set_kpos cur KUser t1)"
      using 3(5) by (auto simp: still_but_def nth_upd_at t1(1) active_def)
    have e: "t = set_kpos cur KUser t1" by (rule u_fork(1))
    show ?thesis
    proof (rule that)
      show "still_but k s t" unfolding e by (rule still_but_trans[OF still_but_still[OF s1 s2] sb])
      show "active (proc_at t k)" "parent (proc_at t k) = Some cur"
        using 3(6) ne unfolding e by (simp_all add: t1(1)[symmetric] active_def)
    qed (use c ne pos p2 3(4) t1(2) in \<open>auto simp: active_def\<close>)
  qed
qed

section \<open>wait\<close>

lemma wait_pass_effect:
  assumes "kinv s" "runs s c cur" "killed (proc_at s cur) = 0" "\<exists>j<nproc s. parent (proc_at s j) = Some cur"
  obtains (reaps) k r t where "wait_pass M cur s = (Some r, t)" "k < nproc s" "k \<noteq> cur" "parent (proc_at s k) = Some cur"
      "active (proc_at s k)" "\<not> active (proc_at (wait_run (mE M) c cur s) k)" "still_but k s (wait_run (mE M) c cur s)"
  | (sleeps) t where "wait_pass M cur s = (None, t)" "still s (wait_run (mE M) c cur s)"
proof -
  let ?s = "if kpos (proc_at s cur) = KWait then sleep_resume cur s else s"
  have cur: "cur < nproc s" "state (proc_at s cur) = RUNNING" using running_cpu[OF assms(1)] assms(2) by blast+
  have q: "still s ?s" "killed (proc_at ?s cur) = 0" "\<And>i. i < nproc s \<Longrightarrow> state (proc_at ?s i) = state (proc_at s i)"
    "\<And>i. i < nproc s \<Longrightarrow> parent (proc_at ?s i) = parent (proc_at s i)" "nproc ?s = nproc s"
    using assms(3) cur by (auto simp: still_def sleep_resume_def nth_upd_at active_def)
  have wr: "wait_run (mE M) c cur s = (case wait_pass M cur s of (Some r, t) \<Rightarrow> set_kpos cur KUser t
      | (None, t) \<Rightarrow> sched_return (mE M) c (set_kpos cur KWait t))"
    by (simp add: wait_run_def wait_pass_def)
  show ?thesis
  proof (cases rule: wait_iter_cases[where s = ?s and cur = cur and E = "mE M"])
    case (reap i w)
    let ?t = "snd (wait_pass M cur s)"
    have p: "wait_pass M cur s = (Some (pid (proc_at ?s i)), ?t)" using reap(6) by (simp add: wait_pass_def)
    have i: "i < nproc s" "parent (proc_at s i) = Some cur" "state (proc_at s i) = ZOMBIE" using reap(1-3) q by auto
    have ne: "i \<noteq> cur" using i(3) cur(2) by auto
    have t: "?t = upd_proc i (\<lambda>p. p\<lparr>kstack := 0, pid := 0, parent := None, name := [], killed := 0, state := UNUSED\<rparr>)
           (?s\<lparr>world := w\<rparr>)" using reap(6) by (simp add: wait_pass_def)
    have "still_but i ?s (set_kpos cur KUser ?t)"
      unfolding t using ne by (auto simp: still_but_def nth_upd_at active_def)
    then have sb: "still_but i s (wait_run (mE M) c cur s)"
      unfolding wr by (subst p) (simp add: still_still_but[OF q(1)])
    have "\<not> active (proc_at (set_kpos cur KUser ?t) i)"
      unfolding t using ne i(1) q(5) by (simp add: nth_upd_at active_def)
    then have "\<not> active (proc_at (wait_run (mE M) c cur s) i)" unfolding wr by (subst p) simp
    then show ?thesis using reaps[OF p i(1) ne i(2) _ _ sb] i(3) by (simp add: active_def)
  next
    case fail
    then show ?thesis using assms(4) q by metis
  next
    case asleep
    have p: "wait_pass M cur s = (None, sleep_enter cur (ProcChan cur) ?s)" using asleep(4) by (simp add: wait_pass_def)
    have "state (proc_at ?s cur) = RUNNING" using q(3)[OF cur(1)] cur(2) by (simp only:)
    then have "still ?s (sched_return (mE M) c (set_kpos cur KWait (sleep_enter cur (ProcChan cur) ?s)))"
      by (auto simp: still_def sleep_enter_def nth_upd_at active_def)
    then have "still s (wait_run (mE M) c cur s)" unfolding wr p by (simp add: still_trans[OF q(1)])
    then show ?thesis by (rule sleeps[OF p])
  qed
qed

lemma wait_takes_child:
  assumes "uwait M cur s r t" "fork_machine M" "kinv s" "killed (proc_at s cur) = 0" "\<exists>j<nproc s. parent (proc_at s j) = Some cur"
  shows "kinv t \<and> (\<exists>k<nproc s. k \<noteq> cur \<and> parent (proc_at s k) = Some cur \<and> active (proc_at s k) \<and> \<not> active (proc_at t k) \<and>
    still_but k s t)"
  using assms(1,3-5)
proof (induction rule: uwait.induct)
  case (uw_return s c r t)
  have "kinv (wait_run (mE M) c cur s)"
    using uw_return.prems(1) kinv_kstep k_wait[OF uw_return(1,2)] by metis
  then show ?case
    by (cases rule: wait_pass_effect[OF uw_return.prems(1) uw_return(1) uw_return.prems(2,3), where M = M]) (use uw_return(3) in auto)
next
  case (uw_block s c t s1 r u)
  have i1: "kinv (wait_run (mE M) c cur s)"
    using uw_block.prems(1) kinv_kstep k_wait[OF uw_block(1,2)] by metis
  have "still s (wait_run (mE M) c cur s)"
    by (cases rule: wait_pass_effect[OF uw_block.prems(1) uw_block(1) uw_block.prems(2,3), where M = M]) (use uw_block(3) in auto)
  then have st: "still s s1" using idles_still_sys[OF uw_block(4) assms(2)] still_trans by blast
  have c: "cur < nproc s" using running_cpu[OF uw_block.prems(1)] uw_block(1) by blast
  have "kinv s1" "killed (proc_at s1 cur) = 0" "\<exists>j<nproc s1. parent (proc_at s1 j) = Some cur"
    using idles_own[OF uw_block(4) i1] st c uw_block.prems(2,3) unfolding still_def by auto
  then obtain k where k: "kinv u" "k < nproc s1" "k \<noteq> cur" "parent (proc_at s1 k) = Some cur" "active (proc_at s1 k)"
    "\<not> active (proc_at u k)" "still_but k s1 u" using uw_block.IH by blast
  have "still_but k s u" using still_still_but[OF st k(7)] .
  then show ?case using k st unfolding still_def by auto
qed

section \<open>The rules for a program that forks and waits\<close>

text \<open>\<open>P\<close> slots, \<open>N\<close> of them taken, \<open>c\<close> by children of \<open>cur\<close>, which no one has killed.\<close>

abbreviation children :: "nat \<Rightarrow> 'w kstate \<Rightarrow> nat set" where
  "children cur s \<equiv> {j. j < nproc s \<and> active (proc_at s j) \<and> parent (proc_at s j) = Some cur}"

definition ready :: "nat \<Rightarrow> nat \<Rightarrow> cint \<Rightarrow> nat \<Rightarrow> 'w kstate \<Rightarrow> bool" where
  "ready cur P N c s \<longleftrightarrow> kinv s \<and> cur < nproc s \<and> killed (proc_at s cur) = 0 \<and> nproc s = P \<and> getNumProc s = N \<and>
     c \<le> card (children cur s)"

lemma still_children: "still s t \<Longrightarrow> children cur t = children cur s"
  by (auto simp: still_def)

lemma ready_idles:
  assumes "idles M cur s t" "fork_machine M" "ready cur P N c s"
  shows "ready cur P N c t \<and> getMaxPid t = getMaxPid s"
  using idles_still_sys[OF assms(1,2)] still_numproc[of s t] still_children[of s t cur] still_maxpid[of s t]
    idles_own[OF assms(1)] assms(3) by (auto simp: ready_def still_def)

lemma ready_fork:
  assumes "ucalls M cur Fork s v t" "fork_machine M" "ready cur P N c s" "N < int P"
  shows "v > 0 \<and> ready cur P (N + 1) (c + 1) t \<and> getMaxPid s \<le> getMaxPid t"
proof -
  have r: "kinv s" "getNumProc s < int (nproc s)" "cur < nproc s" "killed (proc_at s cur) = 0" using assms(3,4) by (auto simp: ready_def)
  obtain k where k: "k < nproc s" "k \<noteq> cur" "\<not> active (proc_at s k)" "active (proc_at t k)" "parent (proc_at t k) = Some cur"
    "still_but k s t" "v > 0" using fork_adds_child[OF r(1) assms(1,2) r(2)] .
  have "kinv t" using r(1) ucalls_steps[OF assms(1)] kinv_steps by blast
  moreover have "nproc t = nproc s" "killed (proc_at t cur) = 0" using k(2,6) r(3,4) by (auto simp: still_but_def)
  moreover have "children cur t = insert k (children cur s)" using k by (auto simp: still_but_def)
  then have "card (children cur t) = card (children cur s) + 1" using k(3) by simp
  ultimately show ?thesis
    using k(7) numproc_add[OF k(6,1,3,4)] maxpid_grows[OF k(6,3)] assms(3) by (auto simp: ready_def)
qed

lemma ready_wait:
  assumes "ucalls M cur Wait s v t" "fork_machine M" "ready cur P N (Suc c) s"
  shows "ready cur P (N - 1) c t"
proof -
  have w: "uwait M cur s v t" using assms(1) by (auto elim: ucalls_waitE)
  have r: "kinv s" "cur < nproc s" "killed (proc_at s cur) = 0" "Suc c \<le> card (children cur s)" using assms(3) by (auto simp: ready_def)
  then have "children cur s \<noteq> {}" by force
  then have "\<exists>j<nproc s. parent (proc_at s j) = Some cur" by blast
  then obtain k where k: "kinv t" "k < nproc s" "k \<noteq> cur" "parent (proc_at s k) = Some cur" "active (proc_at s k)"
    "\<not> active (proc_at t k)" "still_but k s t" using wait_takes_child[OF w assms(2) r(1,3)] by blast
  have "nproc t = nproc s" "killed (proc_at t cur) = 0" using k(3,7) r(2,3) by (auto simp: still_but_def)
  moreover have "children cur s = insert k (children cur t)" using k by (auto simp: still_but_def)
  then have "card (children cur s) = card (children cur t) + 1" using k(6) by simp
  ultimately show ?thesis
    using k(1) numproc_drop[OF k(7,2,5,6)] assms(3) by (auto simp: ready_def)
qed

lemma always_fork:
  assumes "fork_machine M" "ready cur P N c s" "N < int P"
    "\<And>v t. 0 < v \<Longrightarrow> ready cur P (N + 1) (c + 1) t \<Longrightarrow> getMaxPid s \<le> getMaxPid t \<Longrightarrow> always M cur (k v) t Q"
  shows "always M cur (Ask Fork k) s Q"
  unfolding always_Ask
proof (intro allI impI)
  fix s1 v s2 assume a: "idles M cur s s1" "ucalls M cur Fork s1 v s2"
  note i = ready_idles[OF a(1) assms(1,2)]
  then have "ready cur P N c s1" ..
  note f = ready_fork[OF a(2) assms(1) this assms(3)]
  show "always M cur (k v) s2 Q" by (rule assms(4)) (use i f in auto)
qed

lemma always_wait:
  assumes "fork_machine M" "ready cur P N (Suc c) s"
    "\<And>v t. ready cur P (N - 1) c t \<Longrightarrow> always M cur (k v) t Q"
  shows "always M cur (Ask Wait k) s Q"
  unfolding always_Ask
proof (intro allI impI)
  fix s1 v s2 assume a: "idles M cur s s1" "ucalls M cur Wait s1 v s2"
  show "always M cur (k v) s2 Q"
    using assms(3)[of s2 v] ready_wait[OF a(2) assms(1)] ready_idles[OF a(1) assms(1,2)] by simp
qed

lemma always_sleep:
  assumes "fork_machine M" "ready cur P N c s"
    "\<And>v t. ready cur P N c t \<Longrightarrow> always M cur (k v) t Q"
  shows "always M cur (Ask (Sleep n) k) s Q"
  unfolding always_Ask
proof (intro allI impI)
  fix s1 v s2 assume a: "idles M cur s s1" "ucalls M cur (Sleep n) s1 v s2"
  from a(2) have "idles M cur s1 s2" by (auto elim: ucalls_sleepE)
  with a(1) have "idles M cur s s2" by (rule rtranclp_trans)
  then show "always M cur (k v) s2 Q" using assms(3)[of s2 v] ready_idles[OF _ assms(1,2)] by blast
qed

lemma always_count:
  assumes "fork_machine M" "ready cur P N c s" "\<And>t. ready cur P N c t \<Longrightarrow> getMaxPid t = getMaxPid s \<Longrightarrow> always M cur (k N) t Q"
  shows "always M cur (Ask GetNumProc k) s Q"
proof (rule always_numproc)
  fix s1 assume "idles M cur s s1"
  note r = ready_idles[OF this assms(1,2)]
  then have "getNumProc s1 = N" by (simp add: ready_def)
  then show "always M cur (k (getNumProc s1)) s1 Q" using assms(3) r by simp
qed

lemma always_max:
  assumes "fork_machine M" "ready cur P N c s" "\<And>t. ready cur P N c t \<Longrightarrow> getMaxPid t = getMaxPid s \<Longrightarrow> always M cur (k (getMaxPid s)) t Q"
  shows "always M cur (Ask GetMaxPid k) s Q"
proof (rule always_maxpid)
  fix s1 assume "idles M cur s s1"
  note r = ready_idles[OF this assms(1,2)]
  then show "always M cur (k (getMaxPid s1)) s1 Q" using assms(3) by simp
qed

section \<open>The tests that fork\<close>

lemma always_fork_children:
  assumes "fork_machine M" "ready cur P N c s" "N + int n \<le> int P"
    "\<And>t. ready cur P (N + int n) (c + n) t \<Longrightarrow> always M cur k t Q"
  shows "always M cur (fork_children n k) s Q"
  using assms(2-4)
proof (induction n arbitrary: N c s)
  case (Suc n)
  show ?case
    unfolding fork_children.simps
  proof (rule always_fork[OF assms(1) Suc.prems(1)], goal_cases)
    case (2 v t)
    have e: "N + 1 + int n = N + int (Suc n)" "c + 1 + n = c + Suc n" by simp_all
    have "always M cur (fork_children n k) t Q"
      by (rule Suc.IH[OF 2(2)]) (use Suc.prems(2,3) e in simp_all)
    then show ?case using 2(1) by simp
  qed (use Suc.prems(2) in simp)
qed simp

lemma always_wait_children:
  assumes "fork_machine M" "ready cur P N (c + n) s" "\<And>t. ready cur P (N - int n) c t \<Longrightarrow> always M cur k t Q"
  shows "always M cur (wait_children n k) s Q"
  using assms(2,3)
proof (induction n arbitrary: N s)
  case (Suc n)
  have r: "ready cur P N (Suc (c + n)) s" using Suc.prems(1) by simp
  show ?case
    unfolding wait_children.simps
  proof (rule always_wait[OF assms(1) r], goal_cases)
    case (1 v t)
    have "N - 1 - int n = N - int (Suc n)" by simp
    then show ?case using Suc.IH[OF 1] Suc.prems(2) by metis
  qed
qed simp

lemma always_rapid:
  assumes "fork_machine M" "N < int P" "ready cur P N c s" "\<And>t. ready cur P N c t \<Longrightarrow> always M cur (k True) t Q"
  shows "always M cur (rapid_loop n k) s Q"
  using assms(3)
proof (induction n arbitrary: s)
  case (Suc n)
  show ?case
    unfolding rapid_loop.simps
  proof (rule always_fork[OF assms(1) Suc.prems assms(2)], goal_cases)
    case (1 v t)
    have "always M cur (Ask Wait (\<lambda>_. rapid_loop n k)) t Q"
      by (rule always_wait[OF assms(1), of cur P "N + 1" c]) (use 1 Suc.IH in auto)
    then show ?case using 1(1) by simp
  qed
qed (use assms(4) in simp)

text \<open>The tests, each with the number of free slots it needs.\<close>

definition fork_tests :: "(test \<times> nat) list" where
  "fork_tests = [(test_fork_increases_numproc, 1), (test_wait_decreases_numproc, 1), (test_maxpid_after_fork, 1),
     (test_multiple_children, 5), (test_rapid_fork_exit, 1)]"

lemma fork_tests_always:
  assumes "fork_machine M" "ready cur P N 0 s" "(test, n) \<in> set fork_tests" "N + int n \<le> int P"
  shows "always M cur (test stack g) s (\<lambda>out r t. r = Some (g\<lparr>passed := passed g + 1\<rparr>))"
    (is "always M cur _ s ?Q")
proof -
  note fork = always_fork[OF assms(1)] and wait = always_wait[OF assms(1)]
    and count = always_count[OF assms(1)] and max = always_max[OF assms(1)]
  have pass: "always M cur (test_pass nm g) t ?Q" for nm t by (simp add: test_pass_def)
  have less: "N < int P" using assms(3,4) by (auto simp: fork_tests_def)
  have "always M cur (test_fork_increases_numproc stack g) s ?Q"
    unfolding test_fork_increases_numproc_def
  proof (rule count[OF assms(2)], rule fork[OF _ less], assumption, goal_cases)
    case (1 t v u)
    have "always M cur (Ask GetNumProc (\<lambda>n2. Ask Wait (\<lambda>_. if n2 > N then test_pass ''Fork increases numProc'' g
        else test_fail ''Fork increases numProc'' ''numproc did not increase'' g))) u ?Q"
      by (rule count[OF 1(4)], rule wait) (auto simp: pass)
    then show ?case using 1(3) by simp
  qed
  moreover have "always M cur (test_wait_decreases_numproc stack g) s ?Q"
    unfolding test_wait_decreases_numproc_def
  proof (rule fork[OF assms(2) less], goal_cases)
    case (1 v u)
    have "always M cur (Ask (Sleep 1) (\<lambda>_. Ask GetNumProc (\<lambda>n1. Ask Wait (\<lambda>_. Ask GetNumProc (\<lambda>n2.
        if n2 < n1 then test_pass ''Wait decreases numProc'' g
        else test_fail ''Wait decreases numProc'' ''numproc did not decrease'' g))))) u ?Q"
      by (rule always_sleep[OF assms(1) 1(2)], rule count, assumption, rule wait, simp, rule count, assumption) (simp add: pass)
    then show ?case using 1(1) by simp
  qed
  moreover have "always M cur (test_maxpid_after_fork stack g) s ?Q"
    unfolding test_maxpid_after_fork_def
  proof (rule max[OF assms(2)], rule fork[OF _ less], assumption, goal_cases)
    case (1 t v u)
    have "always M cur (Ask GetMaxPid (\<lambda>m2. Ask Wait (\<lambda>_. if m2 \<ge> getMaxPid s then test_pass ''MaxPid >= original after fork'' g
        else test_fail ''MaxPid >= original after fork'' ''maxpid decreased'' g))) u ?Q"
      by (rule max[OF 1(4)], rule wait) (use 1(2,5) in \<open>auto simp: pass\<close>)
    then show ?case using 1(3) by simp
  qed
  moreover have "always M cur (test_multiple_children stack g) s ?Q" if "N + 5 \<le> int P"
    unfolding test_multiple_children_def
    by (rule count[OF assms(2)], rule always_fork_children[OF assms(1)], assumption, use that in simp, rule count, assumption,
        rule always_wait_children[OF assms(1), where c = 0]) (auto simp: pass)
  moreover have "always M cur (test_rapid_fork_exit stack g) s ?Q"
    unfolding test_rapid_fork_exit_def
  proof (rule always_rapid[OF assms(1) less assms(2)], rule count, assumption, rule max, assumption, goal_cases)
    case (1 t u v)
    then have "N > 0" "getMaxPid u > 0"
      using numproc_pos[of u] numproc_le_maxpid[of u] by (auto simp: ready_def)
    then show ?case by (simp add: pass)
  qed
  ultimately show ?thesis using assms(3,4) by (auto simp: fork_tests_def)
qed

end
