(* ===== verification/Test_Demo.thy ===== *)
theory Test_Demo
  imports Test_Forks Xv6_Demo
begin

text \<open>
  A concrete kernel with two CPUs, three process slots and four descriptors per process, in which
  a test program is run: init opens its three descriptors and forks process 2, which runs user
  code on CPU 0. On CPU 1 init then either waits, or forks process 3, which exits and is reaped.
\<close>

definition test_boot :: "uint32 kstate" where
  "test_boot = boot (Suc 2) 4
     [\<lparr>apicid = 0, started = 1, ncli = 0, intena = 0, cproc = None, scan = 0\<rparr>,
      \<lparr>apicid = 1, started = 1, ncli = 0, intena = 0, cproc = None, scan = 0\<rparr>] 0x1000"

text \<open>The external functions of the other demonstration, with memory that never runs out.\<close>

definition test_E :: "uint32 kext" where
  "test_E = demo_E\<lparr>kalloc := (\<lambda>w. (if w = 0 then 4096 else w, w + 4096)),
     copyuvm := (\<lambda>_ _ w. (if w = 0 then 4096 else w, w + 4096)), allocuvm := (\<lambda>_ _ n w. (n, w))\<rparr>"

abbreviation test_reach :: "uint32 kstate \<Rightarrow> bool" where
  "test_reach \<equiv> reachable (kstart demo_K test_E) (kstep demo_K test_E)"

definition td0 :: "uint32 kstate" where
  "td0 = (case userinit demo_K test_E test_boot of Inr s \<Rightarrow> s | Inl _ \<Rightarrow> test_boot)"

definition td1 :: "uint32 kstate" where
  "td1 = scheduler_step test_E 1 td0"

definition td2 :: "uint32 kstate" where
  "td2 = set_kpos 0 KUser (forkret demo_K test_E td1)"

definition td3 :: "uint32 kstate" where
  "td3 = td2\<lparr>ptable := (ptable td2)[0 := (proc_at td2 0)\<lparr>ofile := [7, 7, 7, 0]\<rparr>], world := world td2\<rparr>"

definition td4 :: "uint32 kstate" where
  "td4 = set_kpos 0 (KFork 1) (snd (alloc_claim td3))"

definition td5 :: "uint32 kstate" where
  "td5 = set_kpos 0 KUser (snd (fork_finish demo_K test_E 0 1 td4))"

definition td6 :: "uint32 kstate" where
  "td6 = scheduler_step test_E 0 td5"

text \<open>Process 2 and init in user code, slot 2 free.\<close>

definition td7 :: "uint32 kstate" where
  "td7 = set_kpos 1 KUser (forkret demo_K test_E td6)"

lemma td0_start: "kstart demo_K test_E td0"
proof -
  have "userinit demo_K test_E test_boot = Inr td0" by code_simp
  then show ?thesis unfolding kstart_def test_boot_def by blast
qed

lemma td0_reach: "test_reach td0"
  by (rule reach_start) (rule td0_start)

lemma td1_reach: "test_reach td1"
  unfolding td1_def by (rule reach_step[OF td0_reach k_schedule]) code_simp+

lemma td2_reach: "test_reach td2"
  unfolding td2_def by (rule reach_step[OF td1_reach k_forkret[where c = 1]]) code_simp+

lemma td3_reach: "test_reach td3"
proof -
  have r: "runs td2 1 0" by code_simp
  show ?thesis
    unfolding td3_def by (rule reach_step[OF td2_reach k_process[OF r]]) (simp add: same_control_def)
qed

lemma td4_reach: "test_reach td4"
proof -
  have "alloc_claim td3 = (Some 1, snd (alloc_claim td3))" by code_simp
  then show ?thesis
    unfolding td4_def by (intro reach_step[OF td3_reach] k_fork_begin[where c = 1]) code_simp+
qed

lemma td5_reach: "test_reach td5"
  unfolding td5_def by (rule reach_step[OF td4_reach k_fork_end[where c = 1]]) code_simp+

text \<open>The states in full, so that evaluating a later one need not start from boot.\<close>

lemma td5_value [code]:
  "td5 = \<lparr>ptable = [
    \<lparr>sz = 4096, pgdir = 8192, kstack = 4096, state = RUNNING, pid = 1, parent = None, tf = 8116,
      tframe = \<lparr>tf_eax = 0, tf_eip = 0, tf_esp = 4096, tf_eflags = 512, tf_cs = 27, tf_ds = 35, tf_es =
      35, tf_ss = 35\<rparr>, ctx = 8092, kctx = \<lparr>edi = 0, esi = 0, ebx = 0, ebp = 0, eip =
      2148544512\<rparr>, kret = 2148552704, chan = NullChan, killed = 0, ofile = [7, 7, 7, 0], cwd = 77, name
      = ''initcode'', nrswitch = 1, kpos = KUser\<rparr>,
    \<lparr>sz = 4096, pgdir = 16384, kstack = 12288, state = RUNNABLE, pid = 2, parent = Some 0, tf =
      16308, tframe = \<lparr>tf_eax = 0, tf_eip = 0, tf_esp = 4096, tf_eflags = 512, tf_cs = 27, tf_ds = 35,
      tf_es = 35, tf_ss = 35\<rparr>, ctx = 16284, kctx = \<lparr>edi = 0, esi = 0, ebx = 0, ebp = 0, eip =
      2148544512\<rparr>, kret = 2148552704, chan = NullChan, killed = 0, ofile = [7, 7, 7, 0], cwd = 77, name
      = ''initcode'', nrswitch = 0, kpos = KForkret\<rparr>,
    \<lparr>sz = 0, pgdir = 0, kstack = 0, state = UNUSED, pid = 0, parent = None, tf = 0, tframe =
      \<lparr>tf_eax = 0, tf_eip = 0, tf_esp = 0, tf_eflags = 0, tf_cs = 0, tf_ds = 0, tf_es = 0, tf_ss =
      0\<rparr>, ctx = 0, kctx = \<lparr>edi = 0, esi = 0, ebx = 0, ebp = 0, eip = 0\<rparr>, kret = 0, chan =
      NullChan, killed = 0, ofile = [0, 0, 0, 0], cwd = 0, name = [], nrswitch = 0, kpos = KUser\<rparr>],
    nextpid = 3, initproc = Some 0, cpus = [\<lparr>apicid = 0, started = 1, ncli = 0, intena = 0, cproc =
      None, scan = 0\<rparr>, \<lparr>apicid = 1, started = 1, ncli = 0, intena = 0, cproc = Some 0, scan =
      0\<rparr>], first_run = False, world = 20480\<rparr>"
  by code_simp

lemma td6_reach: "test_reach td6"
  unfolding td6_def by (rule reach_step[OF td5_reach k_schedule]) code_simp+

lemma td7_reach: "test_reach td7"
  unfolding td7_def by (rule reach_step[OF td6_reach k_forkret[where c = 0]]) code_simp+

lemma td7_value [code]:
  "td7 = \<lparr>ptable = [
    \<lparr>sz = 4096, pgdir = 8192, kstack = 4096, state = RUNNING, pid = 1, parent = None, tf = 8116,
      tframe = \<lparr>tf_eax = 0, tf_eip = 0, tf_esp = 4096, tf_eflags = 512, tf_cs = 27, tf_ds = 35, tf_es =
      35, tf_ss = 35\<rparr>, ctx = 8092, kctx = \<lparr>edi = 0, esi = 0, ebx = 0, ebp = 0, eip =
      2148544512\<rparr>, kret = 2148552704, chan = NullChan, killed = 0, ofile = [7, 7, 7, 0], cwd = 77, name
      = ''initcode'', nrswitch = 1, kpos = KUser\<rparr>,
    \<lparr>sz = 4096, pgdir = 16384, kstack = 12288, state = RUNNING, pid = 2, parent = Some 0, tf = 16308,
      tframe = \<lparr>tf_eax = 0, tf_eip = 0, tf_esp = 4096, tf_eflags = 512, tf_cs = 27, tf_ds = 35, tf_es =
      35, tf_ss = 35\<rparr>, ctx = 16284, kctx = \<lparr>edi = 0, esi = 0, ebx = 0, ebp = 0, eip =
      2148544512\<rparr>, kret = 2148552704, chan = NullChan, killed = 0, ofile = [7, 7, 7, 0], cwd = 77, name
      = ''initcode'', nrswitch = 1, kpos = KUser\<rparr>,
    \<lparr>sz = 0, pgdir = 0, kstack = 0, state = UNUSED, pid = 0, parent = None, tf = 0, tframe =
      \<lparr>tf_eax = 0, tf_eip = 0, tf_esp = 0, tf_eflags = 0, tf_cs = 0, tf_ds = 0, tf_es = 0, tf_ss =
      0\<rparr>, ctx = 0, kctx = \<lparr>edi = 0, esi = 0, ebx = 0, ebp = 0, eip = 0\<rparr>, kret = 0, chan =
      NullChan, killed = 0, ofile = [0, 0, 0, 0], cwd = 0, name = [], nrswitch = 0, kpos = KUser\<rparr>],
    nextpid = 3, initproc = Some 0, cpus = [\<lparr>apicid = 0, started = 1, ncli = 0, intena = 0, cproc =
      Some 1, scan = 1\<rparr>, \<lparr>apicid = 1, started = 1, ncli = 0, intena = 0, cproc = Some 0, scan =
      0\<rparr>], first_run = False, world = 20480\<rparr>"
  by code_simp

lemma in_user_cpu: "c < length (cpus s) \<and> cproc (cpus s ! c) = Some cur \<and> kpos (proc_at s cur) = KUser \<Longrightarrow> in_user cur s"
  unfolding in_user_def by (metis image_eqI nth_mem)

lemma td7_user: "in_user 1 td7"
  by (rule in_user_cpu[of 0]) code_simp

text \<open>Init waits; process 2 forks; the child runs on CPU 1 and exits; process 2 waits.\<close>

definition td8 :: "uint32 kstate" where
  "td8 = wait_run test_E 1 0 td7"

definition tf1 :: "uint32 kstate" where
  "tf1 = set_kpos 1 (KFork 2) (snd (alloc_claim td8))"

definition tf2 :: "uint32 kstate" where
  "tf2 = set_kpos 1 KUser (snd (fork_finish demo_K test_E 1 2 tf1))"

lemma tf2_value [code]:
  "tf2 = \<lparr>ptable = [
    \<lparr>sz = 4096, pgdir = 8192, kstack = 4096, state = SLEEPING, pid = 1, parent = None, tf = 8116,
      tframe = \<lparr>tf_eax = 0, tf_eip = 0, tf_esp = 4096, tf_eflags = 512, tf_cs = 27, tf_ds = 35, tf_es =
      35, tf_ss = 35\<rparr>, ctx = 8092, kctx = \<lparr>edi = 0, esi = 0, ebx = 0, ebp = 0, eip =
      2148544512\<rparr>, kret = 2148552704, chan = ProcChan 0, killed = 0, ofile = [7, 7, 7, 0], cwd = 77,
      name = ''initcode'', nrswitch = 1, kpos = KWait\<rparr>,
    \<lparr>sz = 4096, pgdir = 16384, kstack = 12288, state = RUNNING, pid = 2, parent = Some 0, tf = 16308,
      tframe = \<lparr>tf_eax = 0, tf_eip = 0, tf_esp = 4096, tf_eflags = 512, tf_cs = 27, tf_ds = 35, tf_es =
      35, tf_ss = 35\<rparr>, ctx = 16284, kctx = \<lparr>edi = 0, esi = 0, ebx = 0, ebp = 0, eip =
      2148544512\<rparr>, kret = 2148552704, chan = NullChan, killed = 0, ofile = [7, 7, 7, 0], cwd = 77, name
      = ''initcode'', nrswitch = 1, kpos = KUser\<rparr>,
    \<lparr>sz = 4096, pgdir = 24576, kstack = 20480, state = RUNNABLE, pid = 3, parent = Some 1, tf =
      24500, tframe = \<lparr>tf_eax = 0, tf_eip = 0, tf_esp = 4096, tf_eflags = 512, tf_cs = 27, tf_ds = 35,
      tf_es = 35, tf_ss = 35\<rparr>, ctx = 24476, kctx = \<lparr>edi = 0, esi = 0, ebx = 0, ebp = 0, eip =
      2148544512\<rparr>, kret = 2148552704, chan = NullChan, killed = 0, ofile = [7, 7, 7, 0], cwd = 77, name
      = ''initcode'', nrswitch = 0, kpos = KForkret\<rparr>],
    nextpid = 4, initproc = Some 0, cpus = [\<lparr>apicid = 0, started = 1, ncli = 0, intena = 0, cproc =
      Some 1, scan = 1\<rparr>, \<lparr>apicid = 1, started = 1, ncli = 0, intena = 0, cproc = None, scan =
      1\<rparr>], first_run = False, world = 28672\<rparr>"
  by code_simp

definition tf3 :: "uint32 kstate" where
  "tf3 = scheduler_step test_E 1 tf2"

definition tf4 :: "uint32 kstate" where
  "tf4 = set_kpos 2 KUser (forkret demo_K test_E tf3)"

definition tf5 :: "uint32 kstate" where
  "tf5 = set_kpos 2 KExit (case exit_files test_E 2 tf4 of Inr t \<Rightarrow> t | Inl _ \<Rightarrow> tf4)"

definition tf6 :: "uint32 kstate" where
  "tf6 = sched_return test_E 1 (exit_final 2 tf5)"

definition tf7 :: "uint32 kstate" where
  "tf7 = wait_run test_E 0 1 tf6"

text \<open>Instead, init forks process 3 and waits; process 3 runs on CPU 1, exits and is reaped.\<close>

definition tr1 :: "uint32 kstate" where
  "tr1 = set_kpos 0 (KFork 2) (snd (alloc_claim td7))"

definition tr2 :: "uint32 kstate" where
  "tr2 = set_kpos 0 KUser (snd (fork_finish demo_K test_E 0 2 tr1))"

lemma tr2_value [code]:
  "tr2 = \<lparr>ptable = [
    \<lparr>sz = 4096, pgdir = 8192, kstack = 4096, state = RUNNING, pid = 1, parent = None, tf = 8116,
      tframe = \<lparr>tf_eax = 0, tf_eip = 0, tf_esp = 4096, tf_eflags = 512, tf_cs = 27, tf_ds = 35, tf_es =
      35, tf_ss = 35\<rparr>, ctx = 8092, kctx = \<lparr>edi = 0, esi = 0, ebx = 0, ebp = 0, eip =
      2148544512\<rparr>, kret = 2148552704, chan = NullChan, killed = 0, ofile = [7, 7, 7, 0], cwd = 77, name
      = ''initcode'', nrswitch = 1, kpos = KUser\<rparr>,
    \<lparr>sz = 4096, pgdir = 16384, kstack = 12288, state = RUNNING, pid = 2, parent = Some 0, tf = 16308,
      tframe = \<lparr>tf_eax = 0, tf_eip = 0, tf_esp = 4096, tf_eflags = 512, tf_cs = 27, tf_ds = 35, tf_es =
      35, tf_ss = 35\<rparr>, ctx = 16284, kctx = \<lparr>edi = 0, esi = 0, ebx = 0, ebp = 0, eip =
      2148544512\<rparr>, kret = 2148552704, chan = NullChan, killed = 0, ofile = [7, 7, 7, 0], cwd = 77, name
      = ''initcode'', nrswitch = 1, kpos = KUser\<rparr>,
    \<lparr>sz = 4096, pgdir = 24576, kstack = 20480, state = RUNNABLE, pid = 3, parent = Some 0, tf =
      24500, tframe = \<lparr>tf_eax = 0, tf_eip = 0, tf_esp = 4096, tf_eflags = 512, tf_cs = 27, tf_ds = 35,
      tf_es = 35, tf_ss = 35\<rparr>, ctx = 24476, kctx = \<lparr>edi = 0, esi = 0, ebx = 0, ebp = 0, eip =
      2148544512\<rparr>, kret = 2148552704, chan = NullChan, killed = 0, ofile = [7, 7, 7, 0], cwd = 77, name
      = ''initcode'', nrswitch = 0, kpos = KForkret\<rparr>],
    nextpid = 4, initproc = Some 0, cpus = [\<lparr>apicid = 0, started = 1, ncli = 0, intena = 0, cproc =
      Some 1, scan = 1\<rparr>, \<lparr>apicid = 1, started = 1, ncli = 0, intena = 0, cproc = Some 0, scan =
      0\<rparr>], first_run = False, world = 28672\<rparr>"
  by code_simp

definition tr3 :: "uint32 kstate" where
  "tr3 = wait_run test_E 1 0 tr2"

definition tr4 :: "uint32 kstate" where
  "tr4 = scheduler_step test_E 1 tr3"

definition tr5 :: "uint32 kstate" where
  "tr5 = set_kpos 2 KUser (forkret demo_K test_E tr4)"

lemma tr5_value [code]:
  "tr5 = \<lparr>ptable = [
    \<lparr>sz = 4096, pgdir = 8192, kstack = 4096, state = SLEEPING, pid = 1, parent = None, tf = 8116,
      tframe = \<lparr>tf_eax = 0, tf_eip = 0, tf_esp = 4096, tf_eflags = 512, tf_cs = 27, tf_ds = 35, tf_es =
      35, tf_ss = 35\<rparr>, ctx = 8092, kctx = \<lparr>edi = 0, esi = 0, ebx = 0, ebp = 0, eip =
      2148544512\<rparr>, kret = 2148552704, chan = ProcChan 0, killed = 0, ofile = [7, 7, 7, 0], cwd = 77,
      name = ''initcode'', nrswitch = 1, kpos = KWait\<rparr>,
    \<lparr>sz = 4096, pgdir = 16384, kstack = 12288, state = RUNNING, pid = 2, parent = Some 0, tf = 16308,
      tframe = \<lparr>tf_eax = 0, tf_eip = 0, tf_esp = 4096, tf_eflags = 512, tf_cs = 27, tf_ds = 35, tf_es =
      35, tf_ss = 35\<rparr>, ctx = 16284, kctx = \<lparr>edi = 0, esi = 0, ebx = 0, ebp = 0, eip =
      2148544512\<rparr>, kret = 2148552704, chan = NullChan, killed = 0, ofile = [7, 7, 7, 0], cwd = 77, name
      = ''initcode'', nrswitch = 1, kpos = KUser\<rparr>,
    \<lparr>sz = 4096, pgdir = 24576, kstack = 20480, state = RUNNING, pid = 3, parent = Some 0, tf = 24500,
      tframe = \<lparr>tf_eax = 0, tf_eip = 0, tf_esp = 4096, tf_eflags = 512, tf_cs = 27, tf_ds = 35, tf_es =
      35, tf_ss = 35\<rparr>, ctx = 24476, kctx = \<lparr>edi = 0, esi = 0, ebx = 0, ebp = 0, eip =
      2148544512\<rparr>, kret = 2148552704, chan = NullChan, killed = 0, ofile = [7, 7, 7, 0], cwd = 77, name
      = ''initcode'', nrswitch = 1, kpos = KUser\<rparr>],
    nextpid = 4, initproc = Some 0, cpus = [\<lparr>apicid = 0, started = 1, ncli = 0, intena = 0, cproc =
      Some 1, scan = 1\<rparr>, \<lparr>apicid = 1, started = 1, ncli = 0, intena = 0, cproc = Some 2, scan =
      2\<rparr>], first_run = False, world = 28672\<rparr>"
  by code_simp

definition tr6 :: "uint32 kstate" where
  "tr6 = set_kpos 2 KExit (case exit_files test_E 2 tr5 of Inr t \<Rightarrow> t | Inl _ \<Rightarrow> tr5)"

definition tr7 :: "uint32 kstate" where
  "tr7 = sched_return test_E 1 (exit_final 2 tr6)"

lemma tr7_value [code]:
  "tr7 = \<lparr>ptable = [
    \<lparr>sz = 4096, pgdir = 8192, kstack = 4096, state = RUNNABLE, pid = 1, parent = None, tf = 8116,
      tframe = \<lparr>tf_eax = 0, tf_eip = 0, tf_esp = 4096, tf_eflags = 512, tf_cs = 27, tf_ds = 35, tf_es =
      35, tf_ss = 35\<rparr>, ctx = 8092, kctx = \<lparr>edi = 0, esi = 0, ebx = 0, ebp = 0, eip =
      2148544512\<rparr>, kret = 2148552704, chan = ProcChan 0, killed = 0, ofile = [7, 7, 7, 0], cwd = 77,
      name = ''initcode'', nrswitch = 1, kpos = KWait\<rparr>,
    \<lparr>sz = 4096, pgdir = 16384, kstack = 12288, state = RUNNING, pid = 2, parent = Some 0, tf = 16308,
      tframe = \<lparr>tf_eax = 0, tf_eip = 0, tf_esp = 4096, tf_eflags = 512, tf_cs = 27, tf_ds = 35, tf_es =
      35, tf_ss = 35\<rparr>, ctx = 16284, kctx = \<lparr>edi = 0, esi = 0, ebx = 0, ebp = 0, eip =
      2148544512\<rparr>, kret = 2148552704, chan = NullChan, killed = 0, ofile = [7, 7, 7, 0], cwd = 77, name
      = ''initcode'', nrswitch = 1, kpos = KUser\<rparr>,
    \<lparr>sz = 4096, pgdir = 24576, kstack = 20480, state = ZOMBIE, pid = 3, parent = Some 0, tf = 24500,
      tframe = \<lparr>tf_eax = 0, tf_eip = 0, tf_esp = 4096, tf_eflags = 512, tf_cs = 27, tf_ds = 35, tf_es =
      35, tf_ss = 35\<rparr>, ctx = 24476, kctx = \<lparr>edi = 0, esi = 0, ebx = 0, ebp = 0, eip =
      2148544512\<rparr>, kret = 2148552704, chan = NullChan, killed = 0, ofile = [0, 0, 0, 0], cwd = 0, name
      = ''initcode'', nrswitch = 1, kpos = KExit\<rparr>],
    nextpid = 4, initproc = Some 0, cpus = [\<lparr>apicid = 0, started = 1, ncli = 0, intena = 0, cproc =
      Some 1, scan = 1\<rparr>, \<lparr>apicid = 1, started = 1, ncli = 0, intena = 0, cproc = None, scan =
      3\<rparr>], first_run = False, world = 28672\<rparr>"
  by code_simp

definition tr8 :: "uint32 kstate" where
  "tr8 = scheduler_step test_E 1 (scheduler_step test_E 1 tr7)"

definition tr9 :: "uint32 kstate" where
  "tr9 = wait_run test_E 1 0 tr8"

section \<open>The steps, as steps of the environment\<close>

text \<open>The two machines: one whose environment is free, and one in which the table stays still.\<close>

definition free_machine :: "uint32 machine" where
  "free_machine = \<lparr>mK = demo_K, mE = test_E, file_op = (\<lambda>_ _ _ _. False), pipe_op = (\<lambda>_ _ _ _ _. False),
     rely = (\<lambda>_ _. True)\<rparr>"

definition still_machine :: "uint32 machine" where
  "still_machine = \<lparr>mK = demo_K, mE = test_E, file_op = (\<lambda>_ _ _ _. False), pipe_op = (\<lambda>_ _ _ _ _. False),
     rely = still\<rparr>"

lemma idle_list:
  assumes "kstep (mK M) (mE M) s t" "rely M s t"
    "own_same (proc_at s cur) (proc_at t cur) \<and>
     list_all2 (\<lambda>p q. parent p = Some cur \<and> state p = ZOMBIE \<longrightarrow> state q = ZOMBIE) (ptable s) (ptable t)"
  shows "idle M cur s t"
  using assms by (auto simp: idle_def list_all2_conv_all_nth)

lemma still_list:
  "list_all2 (\<lambda>p q. active q = active p \<and> parent q = parent p \<and> killed q = killed p \<and> (active p \<longrightarrow> pid q = pid p))
     (ptable s) (ptable t) \<Longrightarrow> still s t"
  by (auto simp: still_def list_all2_conv_all_nth)

lemma td8_reach: "test_reach td8"
  unfolding td8_def by (rule reach_step[OF td7_reach k_wait]) code_simp+

lemma td8_user: "in_user 1 td8"
  by (rule in_user_cpu[of 0]) code_simp

lemma tf3_step: "kstep demo_K test_E tf2 tf3"
  unfolding tf3_def by (rule k_schedule) code_simp+

lemma tf4_step: "kstep demo_K test_E tf3 tf4"
  unfolding tf4_def by (rule k_forkret[where c = 1]) code_simp+

lemma tf5_step: "kstep demo_K test_E tf4 tf5"
proof -
  have e: "exit_files test_E 2 tf4 = Inr (case exit_files test_E 2 tf4 of Inr t \<Rightarrow> t | Inl _ \<Rightarrow> tf4)" by code_simp
  show ?thesis unfolding tf5_def by (rule k_exit_begin[OF _ _ e, where c = 1]) code_simp+
qed

lemma tf6_step: "kstep demo_K test_E tf5 tf6"
  unfolding tf6_def by (rule k_exit_end[where c = 1]) code_simp+

lemma free_idle:
  "kstep demo_K test_E s t \<Longrightarrow> own_same (proc_at s cur) (proc_at t cur) \<and>
     list_all2 (\<lambda>p q. parent p = Some cur \<and> state p = ZOMBIE \<longrightarrow> state q = ZOMBIE) (ptable s) (ptable t) \<Longrightarrow>
   idle free_machine cur s t"
  by (rule idle_list) (simp_all add: free_machine_def)

lemma tf_idles: "idles still_machine 1 tf2 tf6"
proof -
  have "idle still_machine 1 tf2 tf3" "idle still_machine 1 tf3 tf4" "idle still_machine 1 tf4 tf5" "idle still_machine 1 tf5 tf6"
    using tf3_step tf4_step tf5_step tf6_step
    by - (rule idle_list, simp add: still_machine_def, simp add: still_machine_def, rule still_list, code_simp, code_simp)+
  then show ?thesis by (meson r_into_rtranclp rtranclp.rtrancl_into_rtrancl)
qed

lemma tr1_step: "kstep demo_K test_E td7 tr1"
proof -
  have "alloc_claim td7 = (Some 2, snd (alloc_claim td7))" by code_simp
  then show ?thesis unfolding tr1_def by (intro k_fork_begin[where c = 1]) code_simp+
qed

lemma tr2_step: "kstep demo_K test_E tr1 tr2"
  unfolding tr2_def by (rule k_fork_end[where c = 1]) code_simp+

lemma tr3_step: "kstep demo_K test_E tr2 tr3"
  unfolding tr3_def by (rule k_wait) code_simp+

lemma tr4_step: "kstep demo_K test_E tr3 tr4"
  unfolding tr4_def by (rule k_schedule) code_simp+

lemma tr5_step: "kstep demo_K test_E tr4 tr5"
  unfolding tr5_def by (rule k_forkret[where c = 1]) code_simp+

lemma tr6_step: "kstep demo_K test_E tr5 tr6"
proof -
  have e: "exit_files test_E 2 tr5 = Inr (case exit_files test_E 2 tr5 of Inr t \<Rightarrow> t | Inl _ \<Rightarrow> tr5)" by code_simp
  show ?thesis unfolding tr6_def by (rule k_exit_begin[OF _ _ e, where c = 1]) code_simp+
qed

lemma tr7_step: "kstep demo_K test_E tr6 tr7"
  unfolding tr7_def by (rule k_exit_end[where c = 1]) code_simp+

lemma tr8_steps: "kstep demo_K test_E tr7 (scheduler_step test_E 1 tr7)" "kstep demo_K test_E (scheduler_step test_E 1 tr7) tr8"
  unfolding tr8_def by (rule k_schedule; code_simp)+

lemma tr9_step: "kstep demo_K test_E tr8 tr9"
  unfolding tr9_def by (rule k_wait) code_simp+

lemma tr2_reach: "test_reach tr2"
  by (rule reach_step[OF reach_step[OF td7_reach tr1_step] tr2_step])

lemma tr2_user: "in_user 1 tr2"
  by (rule in_user_cpu[of 0]) code_simp

lemma tr9_user: "in_user 1 tr9"
  by (rule in_user_cpu[of 0]) code_simp

lemma tr_idles: "idles free_machine 1 tr2 tr9"
proof -
  have 1: "idle free_machine 1 tr2 tr3" by (rule free_idle[OF tr3_step]) code_simp
  have 2: "idle free_machine 1 tr3 tr4" by (rule free_idle[OF tr4_step]) code_simp
  have 3: "idle free_machine 1 tr4 tr5" by (rule free_idle[OF tr5_step]) code_simp
  have 4: "idle free_machine 1 tr5 tr6" by (rule free_idle[OF tr6_step]) code_simp
  have 5: "idle free_machine 1 tr6 tr7" by (rule free_idle[OF tr7_step]) code_simp
  have 6: "idle free_machine 1 tr7 (scheduler_step test_E 1 tr7)" by (rule free_idle[OF tr8_steps(1)]) code_simp
  have 7: "idle free_machine 1 (scheduler_step test_E 1 tr7) tr8" by (rule free_idle[OF tr8_steps(2)]) code_simp
  have 8: "idle free_machine 1 tr8 tr9" by (rule free_idle[OF tr9_step]) code_simp
  show ?thesis
    using 1 2 3 4 5 6 7 8 by (meson r_into_rtranclp rtranclp.rtrancl_into_rtrancl)
qed

end
