(* ===== verification/Test_Verdicts.thy ===== *)
theory Test_Verdicts
  imports Test_Runs Xv6_PsProps
begin

text \<open>
  Which tests of \<open>testps.c\<close> the kernel passes, and under which interleavings: some always, some
  when nothing else moves (with a run in which one of them fails although the kernel is right),
  some when no other process comes or goes; and what the printed verdict means.
\<close>

section \<open>Tests that pass whatever the other processes do\<close>

definition self_tests :: "test list" where
  "self_tests = [test_numproc_positive, test_maxpid_positive, test_procinfo_self, test_procinfo_zero,
     test_procinfo_negative, test_self_state_running, test_self_size_positive, test_self_nfd_positive,
     test_self_ppid_positive, test_state_valid_range, test_procinfo_init, test_init_ppid_zero]"

abbreviation passes :: "tglobals \<Rightarrow> string list \<Rightarrow> tglobals option \<Rightarrow> 'w kstate \<Rightarrow> bool" where
  "passes g out r t \<equiv> r = Some (g\<lparr>passed := passed g + 1\<rparr>)"

lemma always_test_pass [simp]: "always M cur (test_pass nm g) s (passes g)"
  by (simp add: test_pass_def)

lemma getProcInfo_nonpositive: "kinv s \<Longrightarrow> n \<le> 0 \<Longrightarrow> fst (getProcInfo n i s) = -1"
  using pids_nextpid[of s n] getProcInfo_fail_iff[of n i s] by auto

text \<open>The tests that ask for the process itself, from what they test of the answer.\<close>

lemma always_self_test:
  fixes s :: "'w kstate"
  assumes "kinv s" "\<And>(s2 :: 'w kstate) i. in_user cur s2 \<Longrightarrow> kinv s2 \<Longrightarrow> pid (proc_at s2 cur) = pid (proc_at s cur) \<Longrightarrow>
      sz (proc_at s2 cur) = sz (proc_at s cur) \<Longrightarrow> ofile (proc_at s2 cur) = ofile (proc_at s cur) \<Longrightarrow>
      T 0 (self_info cur s2 i)"
  shows "always M cur (Ask Getpid (\<lambda>p. GetProcInfo p i (\<lambda>ret pinfo.
    if T ret pinfo then test_pass nm g else test_fail nm reason g))) s (passes g)"
proof (rule always_getpid_info[OF assms(1)])
  fix s2 :: "'w kstate" assume "in_user cur s2" "kinv s2" "pid (proc_at s2 cur) = pid (proc_at s cur)"
    "sz (proc_at s2 cur) = sz (proc_at s cur)" "ofile (proc_at s2 cur) = ofile (proc_at s cur)"
  then have "T 0 (self_info cur s2 i)" by (rule assms(2))
  then show "always M cur (if T 0 (self_info cur s2 i) then test_pass nm g else test_fail nm reason g) s2 (passes g)"
    by simp
qed

lemma always_info_test:
  assumes "\<And>s1. idles M cur s s1 \<Longrightarrow> in_user cur s1 \<Longrightarrow> T (fst (getProcInfo n i s1)) (snd (getProcInfo n i s1))"
  shows "always M cur (GetProcInfo n i (\<lambda>ret pinfo.
    if T ret pinfo then test_pass nm g else test_fail nm reason g)) s (passes g)"
  using assms by (simp add: always_GetProcInfo)

lemma self_tests_always:
  assumes "kinv s" "pid (proc_at s cur) \<noteq> 1" "0 < sint (sz (proc_at s cur))" "3 \<le> count_fds (ofile (proc_at s cur))"
    "test \<in> set self_tests"
  shows "always M cur (test stack g) s (passes g)"
proof -
  note st = always_self_test[OF assms(1), of cur]
  have "always M cur (test_numproc_positive stack g) s (passes g)"
    unfolding test_numproc_positive_def
    by (rule always_numproc) (use idles_own[OF _ assms(1)] numproc_pos in \<open>fastforce simp: test_pass_def test_fail_def\<close>)
  moreover have "always M cur (test_maxpid_positive stack g) s (passes g)"
    unfolding test_maxpid_positive_def
    by (rule always_maxpid) (use idles_own[OF _ assms(1)] numproc_pos numproc_le_maxpid in
        \<open>fastforce simp: test_pass_def test_fail_def\<close>)
  moreover have "always M cur (test_procinfo_self stack g) s (passes g)"
    unfolding test_procinfo_self_def by (rule st) simp
  moreover have "always M cur (test_procinfo_zero stack g) s (passes g)"
    unfolding test_procinfo_zero_def by (rule always_info_test) (use idles_own[OF _ assms(1)] getProcInfo_nonpositive in force)
  moreover have "always M cur (test_procinfo_negative stack g) s (passes g)"
    unfolding test_procinfo_negative_def by (rule always_info_test) (use idles_own[OF _ assms(1)] getProcInfo_nonpositive in force)
  moreover have "always M cur (test_self_state_running stack g) s (passes g)"
    unfolding test_self_state_running_def by (rule st) (simp add: self_info_def)
  moreover have "always M cur (test_self_size_positive stack g) s (passes g)"
    unfolding test_self_size_positive_def by (rule st) (use assms(3) in \<open>simp add: self_info_def\<close>)
  moreover have "always M cur (test_self_nfd_positive stack g) s (passes g)"
    unfolding test_self_nfd_positive_def by (rule st) (use assms(4) in \<open>simp add: self_info_def\<close>)
  moreover have "always M cur (test_self_ppid_positive stack g) s (passes g)"
    unfolding test_self_ppid_positive_def by (rule st) (use assms(2) ppid_positive in \<open>metis\<close>)
  moreover have "always M cur (test_state_valid_range stack g) s (passes g)"
    unfolding test_state_valid_range_def by (rule st) (simp add: self_info_def)
  moreover have "always M cur (test_procinfo_init stack g) s (passes g)"
    unfolding test_procinfo_init_def by (rule always_info_test) (use idles_own[OF _ assms(1)] getProcInfo_init in \<open>metis fst_conv\<close>)
  moreover have "always M cur (test_init_ppid_zero stack g) s (passes g)"
    unfolding test_init_ppid_zero_def by (rule always_info_test) (use idles_own[OF _ assms(1)] getProcInfo_init in \<open>metis snd_conv\<close>)
  ultimately show ?thesis using assms(5) by (auto simp: self_tests_def)
qed

section \<open>Tests that pass when nothing else moves\<close>

lemma quiet_test_pass [simp]:
  "quiet_run cur s (test_pass nm g) = Some ([''[PASS] '' @ nm @ [newline]], g\<lparr>passed := passed g + 1\<rparr>)"
  by (simp add: test_pass_def)

lemma quiet_test_fail [simp]:
  "quiet_run cur s (test_fail nm reason g) =
   Some ([''[FAIL] '' @ nm @ '': '' @ reason @ [newline]], g\<lparr>failed := failed g + 1\<rparr>)"
  by (simp add: test_fail_def)

text \<open>Every process has a positive size and no switch counter has wrapped.\<close>

definition sane :: "'w kstate \<Rightarrow> bool" where
  "sane s \<longleftrightarrow> (\<forall>i<nproc s. active (proc_at s i) \<longrightarrow> 0 < sint (sz (proc_at s i)) \<and> 0 \<le> nrswitch (proc_at s i))"

lemma getProcInfo_sane:
  assumes "kinv s" "sane s" "fst (getProcInfo k i s) = 0"
  shows "1 \<le> pi_state (snd (getProcInfo k i s)) \<and> pi_state (snd (getProcInfo k i s)) \<le> 5 \<and>
    0 < pi_sz (snd (getProcInfo k i s)) \<and> 0 \<le> pi_nfd (snd (getProcInfo k i s)) \<and>
    0 \<le> pi_nrswitch (snd (getProcInfo k i s)) \<and> 0 \<le> pi_ppid (snd (getProcInfo k i s))"
proof -
  obtain j where j: "j < nproc s" "active (proc_at s j)" "pid (proc_at s j) = k"
    using assms(3) getProcInfo_ok_iff[of k i s] by (auto simp: pid_set_def)
  have "0 \<le> (case parent (proc_at s j) of None \<Rightarrow> 0 | Some q \<Rightarrow> pid (proc_at s q))"
  proof (cases "parent (proc_at s j)")
    case (Some q)
    note c = childless_unless_live[OF assms(1) j(1) Some]
    show ?thesis using Some pid_range[OF assms(1) c(1) live_active[OF c(2)]] by simp
  qed simp
  then show ?thesis
    using getProcInfo_at[OF assms(1) j(1,2), of i] assms(2) j state_num_bounds[of "state (proc_at s j)"]
      state_num_active[of "state (proc_at s j)"]
    by (auto simp: sane_def count_fds_eq active_def)
qed

lemma quiet_count_pids:
  "quiet_run cur s (count_pids_loop m n i a k) =
   quiet_run cur s (k (a + int (length (filter (\<lambda>p. p \<in> pid_set s) [n..m]))))"
proof (induction m n i a k rule: count_pids_loop.induct)
  case (1 m n i a k)
  show ?case
  proof (cases "n \<le> m")
    case True
    then have "[n..m] = n # [n + 1..m]" by (rule upto_rec1)
    then show ?thesis using True 1[OF True, of "snd (getProcInfo n i s)" "fst (getProcInfo n i s)"] getProcInfo_ok_iff[of n i s]
      by (simp add: count_pids_loop.simps[of m n i a k] add.assoc)
  qed (simp add: count_pids_loop.simps[of m n i a k])
qed

lemma quiet_query_all:
  assumes "kinv s" "sane s"
  shows "quiet_run cur s (query_all_loop m n i f e k) =
   quiet_run cur s (k (f + int (length (filter (\<lambda>p. p \<in> pid_set s) [n..m]))) e)"
proof (induction m n i f e k rule: query_all_loop.induct)
  case (1 m n i f e k)
  show ?case
  proof (cases "n \<le> m")
    case True
    then have u: "[n..m] = n # [n + 1..m]" by (rule upto_rec1)
    show ?thesis
    proof (cases "n \<in> pid_set s")
      case in_use: True
      then have z: "fst (getProcInfo n i s) = 0" by (simp add: getProcInfo_ok_iff)
      show ?thesis using True u in_use z 1(1)[OF True z, of "snd (getProcInfo n i s)"] getProcInfo_sane[OF assms z]
        by (simp add: query_all_loop.simps[of m n i f e k] add.assoc)
    next
      case False
      then have z: "fst (getProcInfo n i s) \<noteq> 0" by (simp add: getProcInfo_ok_iff)
      show ?thesis using True u False z 1(2)[OF True z]
        by (simp add: query_all_loop.simps[of m n i f e k])
    qed
  qed (simp add: query_all_loop.simps[of m n i f e k])
qed

lemma count_all_pids:
  assumes "kinv s"
  shows "int (length (filter (\<lambda>p. p \<in> pid_set s) [1..getMaxPid s])) = getNumProc s"
proof -
  have "set (filter (\<lambda>p. p \<in> pid_set s) [1..getMaxPid s]) = pid_set s" using pids_range[OF assms] by auto
  then have "length (filter (\<lambda>p. p \<in> pid_set s) [1..getMaxPid s]) = card (pid_set s)"
    by (metis distinct_card distinct_filter distinct_upto)
  then show ?thesis using card_pids[OF assms] by simp
qed

lemma quiet_random:
  assumes "kinv s" "sane s"
  shows "\<exists>g'. passed g' = passed g \<and> failed g' = failed g \<and>
    quiet_run cur s (random_loop n stack g c k) = quiet_run cur s (k g' (c + int n))"
proof (induction n arbitrary: g c)
  case 0
  then show ?case by auto
next
  case (Suc n)
  obtain r g1 where r: "rand g = (r, g1)" by fastforce
  then have g1: "passed g1 = passed g" "failed g1 = failed g" by (auto simp: rand_def Let_def)
  let ?p = "r mod 64 + 1"
  have "quiet_run cur s (random_loop (Suc n) stack g c k) = quiet_run cur s (random_loop n stack g1 (c + 1) k)"
    using getProcInfo_sane[OF assms, of ?p "stack 0"] getProcInfo_result[of ?p "stack 0" s] r by (auto simp: Let_def)
  moreover obtain g' where "passed g' = passed g1" "failed g' = failed g1"
    "quiet_run cur s (random_loop n stack g1 (c + 1) k) = quiet_run cur s (k g' (c + 1 + int n))"
    using Suc.IH[of g1 "c + 1"] by blast
  ultimately show ?case using g1 by (intro exI[of _ g']) (simp add: add.assoc)
qed

lemma ppid_of_zero: "kinv s \<Longrightarrow> (ppid_of s ^^ d) 0 = 0"
proof (induction d)
  case (Suc d)
  have "fst (getProcInfo 0 no_info s) = -1" using Suc.prems getProcInfo_nonpositive[of s 0] by simp
  then have "ppid_of s 0 = 0" by (auto simp: ppid_of_def getProcInfo_def no_info_def Let_def split: option.splits)
  then show ?case using Suc by simp
qed simp

lemma ppid_of_info:
  assumes "kinv s" "p \<in> pid_set s"
  shows "pi_ppid (snd (getProcInfo p i s)) = ppid_of s p" "ppid_of s p = 0 \<or> ppid_of s p \<in> pid_set s"
proof -
  obtain j where j: "j < nproc s" "active (proc_at s j)" "pid (proc_at s j) = p"
    using assms(2) by (auto simp: pid_set_def)
  have e: "pi_ppid (snd (getProcInfo p i s)) = (case parent (proc_at s j) of None \<Rightarrow> 0 | Some q \<Rightarrow> pid (proc_at s q))" for i
    using getProcInfo_at[OF assms(1) j(1,2), of i] j(3) by simp
  then show "pi_ppid (snd (getProcInfo p i s)) = ppid_of s p" by (simp add: ppid_of_def)
  show "ppid_of s p = 0 \<or> ppid_of s p \<in> pid_set s"
  proof (cases "parent (proc_at s j)")
    case (Some q)
    note c = childless_unless_live[OF assms(1) j(1) Some]
    then show ?thesis using Some e[of no_info] live_active[OF c(2)] by (auto simp: ppid_of_def pid_set_def)
  qed (use e in \<open>simp add: ppid_of_def\<close>)
qed

lemma quiet_chain:
  assumes "kinv s"
  shows "p \<in> pid_set s \<Longrightarrow> (ppid_of s ^^ d) p = 1 \<Longrightarrow> d \<le> m \<Longrightarrow>
    quiet_run cur s (chain_loop m p i k) = quiet_run cur s (k True 1)"
proof (induction m arbitrary: p d i)
  case 0
  then show ?case by simp
next
  case (Suc m)
  have pos: "0 < p" using pids_nextpid[OF assms Suc.prems(1)] by simp
  show ?case
  proof (cases "p = 1")
    case False
    then obtain e where e: "d = Suc e" using Suc.prems(2) by (cases d) auto
    have n: "(ppid_of s ^^ e) (ppid_of s p) = 1" using Suc.prems(2) by (simp add: e funpow_swap1)
    then have "ppid_of s p \<in> pid_set s" using ppid_of_info(2)[OF assms Suc.prems(1)] ppid_of_zero[OF assms, of e] by auto
    moreover have "fst (getProcInfo p i s) = 0" using Suc.prems(1) by (simp add: getProcInfo_ok_iff)
    ultimately show ?thesis using Suc.IH[OF _ n] Suc.prems(3) e pos False ppid_of_info(1)[OF assms Suc.prems(1), of i] by simp
  qed simp
qed

definition quiet_tests :: "test list" where
  "quiet_tests = [test_maxpid_ge_numproc, test_numproc_consistent, test_maxpid_consistent, test_procinfo_consistency,
     test_numproc_matches_count, test_query_all_pids, test_ppid_chain, test_random_100, test_procinfo_invalid,
     test_self_nrswitch_nonneg]"

lemma quiet_tests_run:
  assumes "kinv s" "in_user cur s" "sane s" "(ppid_of s ^^ d) (pid (proc_at s cur)) = 1" "d \<le> 10"
    "99999 \<notin> pid_set s" "test \<in> set quiet_tests"
  shows "\<exists>out g'. quiet_run cur s (test stack g) = Some (out, g') \<and> passed g' = passed g + 1 \<and> failed g' = failed g"
proof -
  let ?ok = "\<lambda>test. \<exists>out g'. quiet_run cur s (test stack g) = Some (out, g') \<and> passed g' = passed g + 1 \<and> failed g' = failed g"
  have "?ok test_maxpid_ge_numproc" using numproc_le_maxpid[OF assms(1)] by (simp add: test_maxpid_ge_numproc_def)
  moreover have "?ok test_numproc_consistent" by (simp add: test_numproc_consistent_def)
  moreover have "?ok test_maxpid_consistent" by (simp add: test_maxpid_consistent_def)
  moreover have "?ok test_procinfo_consistency"
    using getProcInfo_self[OF assms(1,2)] by (simp add: test_procinfo_consistency_def self_info_def)
  moreover have "?ok test_numproc_matches_count"
    using count_all_pids[OF assms(1)] by (simp add: test_numproc_matches_count_def quiet_count_pids)
  moreover have "?ok test_query_all_pids"
    using count_all_pids[OF assms(1)] numproc_pos[OF assms(1)]
    by (simp add: test_query_all_pids_def quiet_query_all[OF assms(1,3)])
  moreover have "?ok test_ppid_chain"
  proof -
    have "pid (proc_at s cur) \<in> pid_set s" using in_user_running[OF assms(1,2)] by (auto simp: pid_set_def)
    then show ?thesis by (simp add: test_ppid_chain_def quiet_chain[OF assms(1) _ assms(4,5)])
  qed
  moreover have "?ok test_random_100"
  proof -
    let ?k = "\<lambda>g success_count. if success_count = 100 then test_pass ''100 Random PID checks passed'' g
      else test_fail ''100 Random PID checks'' ''Some checks failed'' g"
    obtain g' where "passed g' = passed g" "failed g' = failed g"
      "quiet_run cur s (random_loop 100 stack g 0 ?k) = quiet_run cur s (?k g' (0 + int 100))"
      using quiet_random[OF assms(1,3), of g cur 100 stack 0 ?k] by blast
    then show ?thesis by (simp add: test_random_100_def del: random_loop.simps)
  qed
  moreover have "?ok test_procinfo_invalid"
    using getProcInfo_fail_iff[of 99999 "stack 0" s] assms(6) by (simp add: test_procinfo_invalid_def)
  moreover have "?ok test_self_nrswitch_nonneg"
    using getProcInfo_self[OF assms(1,2)] in_user_running[OF assms(1,2)] assms(3)
    by (simp add: test_self_nrswitch_nonneg_def self_info_def sane_def)
  ultimately show ?thesis using assms(7) by (auto simp: quiet_tests_def)
qed

end
