(* ===== verification/Test_Summary.thy ===== *)
theory Test_Summary
  imports Test_Runs
begin

text \<open>
  What the printed summary of \<open>testps\<close> means: every test ends with the verdicts it printed added to
  the globals (\<open>adds\<close>), so \<open>main\<close> reports success exactly when it printed no failure.
\<close>

section \<open>Counting the verdicts\<close>

definition is_pass :: "string \<Rightarrow> bool" where
  "is_pass l \<longleftrightarrow> has_prefix ''[PASS] '' l"

definition is_fail :: "string \<Rightarrow> bool" where
  "is_fail l \<longleftrightarrow> has_prefix ''[FAIL] '' l"

text \<open>
  A program that goes on to a result, as long as \<open>fork\<close> does not return 0, and whose result has the
  globals \<open>p\<close> and \<open>f\<close> plus the verdicts it prints.
\<close>

primrec adds :: "cint \<Rightarrow> cint \<Rightarrow> tglobals uprog \<Rightarrow> bool" where
  "adds p f (Done g) \<longleftrightarrow> passed g = p \<and> failed g = f"
| "adds p f (Printf m q) \<longleftrightarrow>
     adds (if is_pass m then p + 1 else p) (if is_fail m then f + 1 else f) q"
| "adds p f (Ask c k) \<longleftrightarrow> (\<forall>v. c = Fork \<and> v = 0 \<or> adds p f (k v))"
| "adds p f (GetProcInfo n i k) \<longleftrightarrow> (\<forall>v j. adds p f (k v j))"
| "adds p f (Pipe k) \<longleftrightarrow> (\<forall>v a b. adds p f (k v a b))"
| "adds p f Exit \<longleftrightarrow> False"

abbreviation lines :: "('a \<Rightarrow> bool) \<Rightarrow> 'a list \<Rightarrow> cint" where
  "lines P xs \<equiv> int (length (filter P xs))"

text \<open>In the parent \<open>fork\<close> returns the pid of the child or -1, never 0.\<close>

lemma fork_result:
  assumes "kinv s" "ucalls M cur Fork s v t"
  shows "v \<noteq> 0"
  using assms(2)
proof (cases rule: ucalls_forkE[consumes 1])
  case 1
  then show ?thesis by simp
next
  case u_fork: (2 k s1 s2 c t1)
  obtain d where d: "runs s d cur" "kpos (proc_at s cur) = KUser" using in_user_runs[OF u_fork(2)] by blast
  then have "kstep (mK M) (mE M) s (set_kpos cur (KFork k) s1)" using u_fork(3,4) by (intro k_fork_begin) auto
  then have i2: "kinv s2" using idles_own[OF u_fork(5)] kinv_kstep[OF assms(1)] by blast
  then have cur: "cur < nproc s2" "state (proc_at s2 cur) = RUNNING" using running_cpu[OF i2] u_fork(8,9) by blast+
  note fo = fork_owner[OF i2 cur(1) u_fork(6)]
  have ne: "cur \<noteq> k" using fo cur(2) by auto
  have "0 < pid (proc_at s2 k)" using pid_range[OF i2 fo(2)] fo(3) by (simp add: active_def)
  moreover have "v = -1 \<or> v = pid (proc_at s2 k)"
    by (rule fork_finish_effect[OF fo(2) ne, where K = "mK M" and E = "mE M"]) (use u_fork(7) in auto)
  ultimately show ?thesis by auto
qed

lemma adds_uexec:
  assumes "uexec M cur q s out r t" "kinv s" "adds p f q"
  obtains g where "r = Some g" "passed g = p + lines is_pass out" "failed g = f + lines is_fail out" "kinv t"
proof -
  have "\<exists>g. r = Some g \<and> passed g = p + lines is_pass out \<and> failed g = f + lines is_fail out"
    using assms
  proof (induction arbitrary: p f rule: uexec.induct)
    case (ux_printf q s out r t m)
    show ?case using ux_printf.IH[OF ux_printf.prems(1)] ux_printf.prems(2) by (fastforce split: if_splits)
  next
    case (ux_ask s s1 c v s2 k out r t)
    have "kinv s1" using idles_own[OF ux_ask(1) ux_ask.prems(1)] by blast
    moreover from this have "kinv s2" using kinv_steps[OF ucalls_steps[OF ux_ask(2)]] by blast
    moreover have "\<not> (c = Fork \<and> v = 0)" using fork_result[OF calculation(1)] ux_ask(2) by blast
    then have "adds p f (k v)" using ux_ask.prems(2) by (simp only: adds.simps) blast
    ultimately show ?case using ux_ask.IH by blast
  next
    case (ux_info s s1 n i v j k out r t)
    then show ?case using idles_own[OF ux_info(1)] by auto
  next
    case (ux_pipe s s1 v a b fs k w out r t)
    have "kinv s1" using idles_own[OF ux_pipe(1) ux_pipe.prems(1)] by blast
    then have "kinv (set_files cur fs w s1)" using kinv_kstep set_files_step[OF ux_pipe(2)] by metis
    then show ?case using ux_pipe.IH ux_pipe.prems(2) by auto
  qed auto
  then show ?thesis using that kinv_steps[OF uexec_steps[OF assms(1)] assms(2)] by blast
qed

lemma adds_ubind:
  "adds p f q \<Longrightarrow> (\<And>g. adds (passed g) (failed g) (h g)) \<Longrightarrow> adds p f (ubind q h)"
proof (induction q arbitrary: p f)
  case (Ask c k)
  have "c = Fork \<and> v = 0 \<or> adds p f (ubind (k v) h)" for v
    using Ask.prems Ask.IH[OF rangeI, of p f v] by auto
  then show ?case by simp
next
  case (GetProcInfo n i k)
  have "adds p f (ubind (k v j) h)" for v j
    by (rule GetProcInfo.IH[OF rangeI rangeI]) (use GetProcInfo.prems in auto)
  then show ?case by simp
next
  case (Pipe k)
  have "adds p f (ubind (k v a b) h)" for v a b
    by (rule Pipe.IH[OF rangeI rangeI rangeI]) (use Pipe.prems in auto)
  then show ?case by simp
qed auto

lemma adds_test_pass [simp]: "adds p f (test_pass nm g) \<longleftrightarrow> passed g = p \<and> failed g = f"
  by (auto simp: test_pass_def is_pass_def is_fail_def has_prefix_def)

lemma adds_test_fail [simp]: "adds p f (test_fail nm reason g) \<longleftrightarrow> passed g = p \<and> failed g = f"
  by (auto simp: test_fail_def is_pass_def is_fail_def has_prefix_def)

section \<open>The tests and main\<close>

lemma adds_query_all: "(\<And>x y. adds p f (k x y)) \<Longrightarrow> adds p f (query_all_loop m n i c e k)"
proof (induction m n i c e k rule: query_all_loop.induct)
  case (1 m n i c e k)
  then show ?case by (simp add: query_all_loop.simps[of m n i c e k])
qed

lemma adds_count_pids: "(\<And>x. adds p f (k x)) \<Longrightarrow> adds p f (count_pids_loop m n i a k)"
proof (induction m n i a k rule: count_pids_loop.induct)
  case (1 m n i a k)
  then show ?case by (simp add: count_pids_loop.simps[of m n i a k])
qed

lemma adds_fork_children: "adds p f k \<Longrightarrow> adds p f (fork_children n k)"
  by (induction n) auto

lemma adds_wait_children: "adds p f k \<Longrightarrow> adds p f (wait_children n k)"
  by (induction n) auto

lemma adds_chain: "(\<And>x y. adds p f (k x y)) \<Longrightarrow> adds p f (chain_loop m n i k)"
  by (induction m arbitrary: n i) auto

lemma adds_rapid: "(\<And>x. adds p f (k x)) \<Longrightarrow> adds p f (rapid_loop n k)"
  by (induction n) auto

lemma adds_random:
  "(\<And>g x. passed g = p \<Longrightarrow> failed g = f \<Longrightarrow> adds p f (k g x)) \<Longrightarrow> passed g = p \<Longrightarrow> failed g = f \<Longrightarrow>
   adds p f (random_loop n stack g c k)"
proof (induction n arbitrary: g c)
  case (Suc n)
  have "passed (snd (rand g)) = p" "failed (snd (rand g)) = f" using Suc.prems by (simp_all add: rand_def Let_def)
  then show ?case using Suc by (auto simp: Let_def is_pass_def is_fail_def has_prefix_def split: prod.splits)
qed simp

lemmas adds_loops = adds_query_all adds_count_pids adds_fork_children adds_wait_children adds_chain adds_rapid

lemmas test_defs =
  test_numproc_positive_def test_maxpid_positive_def test_maxpid_ge_numproc_def test_procinfo_self_def
  test_procinfo_invalid_def test_procinfo_zero_def test_procinfo_negative_def test_self_state_running_def
  test_self_size_positive_def test_self_nfd_positive_def test_self_nrswitch_nonneg_def test_procinfo_init_def
  test_init_ppid_zero_def test_self_ppid_positive_def test_fork_increases_numproc_def test_wait_decreases_numproc_def
  test_child_ppid_def child_ppid_def test_state_valid_range_def test_numproc_consistent_def test_maxpid_consistent_def
  test_query_all_pids_def test_nrswitch_increases_def test_open_increases_nfd_def test_close_decreases_nfd_def
  test_multiple_children_def test_maxpid_after_fork_def test_child_size_def child_size_def test_numproc_matches_count_def
  test_zombie_state_def test_sleeping_state_def test_procinfo_consistency_def test_sbrk_changes_size_def
  test_ppid_chain_def test_rapid_fork_exit_def test_random_100_def

definition all_tests :: "test list" where
  "all_tests = concat (map snd test_sections)"

lemma adds_test:
  assumes "test \<in> set all_tests"
  shows "adds (passed g) (failed g) (test stack g)"
proof -
  have "list_all (\<lambda>test. adds (passed g) (failed g) (test stack g)) all_tests"
    by (simp add: all_tests_def test_sections_def test_defs adds_loops adds_random is_pass_def is_fail_def has_prefix_def Let_def)
  then show ?thesis using assms by (simp add: list_all_iff)
qed

lemma adds_run_tests: "set fs \<subseteq> set all_tests \<Longrightarrow> adds (passed g) (failed g) (run_tests stack fs g)"
proof (induction fs arbitrary: g)
  case (Cons test fs)
  then have "adds (passed g) (failed g) (test stack g)" by (intro adds_test) simp
  then have "adds (passed g) (failed g) (ubind (test stack g) (run_tests stack fs))"
    by (rule adds_ubind) (use Cons in simp)
  then show ?case by simp
qed simp

lemma adds_sections:
  "set ss \<subseteq> set test_sections \<Longrightarrow> adds (passed g) (failed g) (run_sections stack gap ss g)"
proof (induction ss arbitrary: g gap)
  case (Cons x ss)
  obtain h fs where x: "x = (h, fs)" by fastforce
  have "set fs \<subseteq> set all_tests" using Cons.prems unfolding x all_tests_def by force
  then have "adds (passed g) (failed g) (run_tests stack fs g)" by (rule adds_run_tests)
  then have "adds (passed g) (failed g) (ubind (run_tests stack fs g) (run_sections stack True ss))"
    by (rule adds_ubind) (use Cons in simp)
  then show ?case by (simp add: x is_pass_def is_fail_def has_prefix_def)
qed simp

text \<open>The lines of the summary.\<close>

definition summary_lines :: "cint \<Rightarrow> cint \<Rightarrow> string list" where
  "summary_lines p f =
     [newline # ''=== TEST SUMMARY ==='' @ [newline], ''Passed: '' @ dec p @ [newline], ''Failed: '' @ dec f @ [newline],
      ''Total:  '' @ dec (p + f) @ [newline], if f = 0 then all_passed else some_failed]"

lemma summary_output: "uexec M cur (test_summary g) s out r t \<Longrightarrow> r = None \<and> out = summary_lines (passed g) (failed g)"
  by (auto simp: test_summary_def summary_lines_def elim!: uexec_PrintfE uexec_ExitE)

lemma main_output:
  assumes "kinv s" "uexec M cur (testps_main stack) s out r t"
  shows "r = None \<and> (\<exists>body. out = body @ summary_lines (lines is_pass body) (lines is_fail body))"
proof -
  let ?h = "newline # ''=== HW4 System Call Tests ==='' @ [newline, newline]"
  have h: "\<not> is_pass ?h" "\<not> is_fail ?h" by (simp_all add: is_pass_def is_fail_def has_prefix_def)
  obtain out1 where o: "out = ?h # out1" "uexec M cur (ubind (run_sections stack False test_sections test_globals) test_summary) s out1 r t"
    using assms(2) unfolding testps_main_def by (rule uexec_PrintfE)
  have a: "adds 0 0 (run_sections stack False test_sections test_globals)"
    using adds_sections[of test_sections test_globals stack False] by (simp add: test_globals_def)
  from o(2) show ?thesis
  proof (cases rule: uexec_ubind)
    case ends
    then show ?thesis using adds_uexec[OF ends(2) assms(1) a] by blast
  next
    case (goes_on out2 g s1 out3)
    have "passed g = lines is_pass out2" "failed g = lines is_fail out2"
      using adds_uexec[OF goes_on(1) assms(1) a] by auto
    then show ?thesis
      using summary_output[OF goes_on(2)] goes_on(3) o(1) h by (intro conjI exI[of _ "?h # out2"]) simp_all
  qed
qed

section \<open>Tests that cannot report a failure\<close>

text \<open>A program whose result always has the count \<open>f\<close> of failures.\<close>

primrec fails_at :: "cint \<Rightarrow> tglobals uprog \<Rightarrow> bool" where
  "fails_at f (Done g) \<longleftrightarrow> failed g = f"
| "fails_at f (Printf m q) \<longleftrightarrow> fails_at f q"
| "fails_at f (Ask c k) \<longleftrightarrow> (\<forall>v. fails_at f (k v))"
| "fails_at f (GetProcInfo n i k) \<longleftrightarrow> (\<forall>v j. fails_at f (k v j))"
| "fails_at f (Pipe k) \<longleftrightarrow> (\<forall>v a b. fails_at f (k v a b))"
| "fails_at f Exit \<longleftrightarrow> True"

lemma fails_at_uexec: "uexec M cur q s out r t \<Longrightarrow> fails_at f q \<Longrightarrow> r = Some g \<Longrightarrow> failed g = f"
  by (induction rule: uexec.induct) auto

definition blind_tests :: "test list" where
  "blind_tests = [test_zombie_state, test_sleeping_state, test_child_ppid, test_child_size]"

lemma blind_tests_fails_at: "test \<in> set blind_tests \<Longrightarrow> fails_at (failed g) (test stack g)"
  by (auto simp: blind_tests_def test_zombie_state_def test_sleeping_state_def test_child_ppid_def child_ppid_def test_child_size_def child_size_def
      Let_def test_pass_def)

section \<open>Programs in a full process table\<close>

text \<open>
  With every slot taken and no children, every program has an execution: \<open>fork\<close> and \<open>wait\<close> return
  -1 at once. Calls on files only need to return something.
\<close>

definition files_total :: "'w machine \<Rightarrow> bool" where
  "files_total M \<longleftrightarrow> (\<forall>c fs. \<exists>r fs'. file_op M c fs r fs') \<and> (\<forall>fs. \<exists>v a b fs'. pipe_op M fs v a b fs')"

definition crowded :: "nat \<Rightarrow> 'w kstate \<Rightarrow> bool" where
  "crowded cur s \<longleftrightarrow> in_user cur s \<and> cur < nproc s \<and> (\<forall>i<nproc s. state (proc_at s i) \<noteq> UNUSED \<and> parent (proc_at s i) \<noteq> Some cur)"

lemma crowded_call:
  assumes "files_total M" "crowded cur s"
  shows "\<exists>v t. ucalls M cur c s v t \<and> crowded cur t"
proof -
  have u: "in_user cur s" and n: "cur < nproc s" using assms(2) by (simp_all add: crowded_def)
  have fork: "\<exists>v t. ucalls M cur Fork s v t \<and> crowded cur t"
  proof -
    have "first_index (\<lambda>p. state p = UNUSED) (ptable s) = None"
      using assms(2) unfolding first_index_None crowded_def by (metis in_set_conv_nth)
    then have "alloc_claim s = (None, s)" by (simp add: alloc_claim_def)
    then show ?thesis using u_fork_full[OF u] assms(2) by blast
  qed
  have wait: "\<exists>v t. ucalls M cur Wait s v t \<and> crowded cur t"
  proof -
    obtain c where c: "runs s c cur" "kpos (proc_at s cur) = KUser" using in_user_runs[OF u] by blast
    have w: "wait_pass M cur s = (Some (-1), s)"
      by (cases rule: wait_iter_cases[where s = s and cur = cur and E = "mE M"])
        (use assms(2) c(2) in \<open>auto simp: wait_pass_def crowded_def\<close>)
    then have r: "wait_run (mE M) c cur s = set_kpos cur KUser s" using c(2) by (simp add: wait_run_def wait_pass_def)
    have "uwait M cur s (-1) (wait_run (mE M) c cur s)" by (rule uw_return[OF c(1) _ w]) (use c(2) in simp)
    then have "ucalls M cur Wait s (-1) (set_kpos cur KUser s)" unfolding r by (rule u_wait[OF u])
    moreover have "crowded cur (set_kpos cur KUser s)" using assms(2) by (auto simp: crowded_def in_user_def nth_upd_at)
    ultimately show ?thesis by blast
  qed
  have sbrk: "\<exists>v t. ucalls M cur (Sbrk n) s v t \<and> crowded cur t" for n
  proof -
    obtain r t where g: "growproc (mE M) cur n s = (r, t)" by fastforce
    then have "woken_state s t" using woken_growproc[of s "mE M" cur n] by simp
    then have "crowded cur t" using assms(2) g unfolding crowded_def
      by (auto simp: growproc_def Let_def in_user_def nth_upd_at split: if_splits prod.splits)
    then show ?thesis using u_sbrk[OF u g] by blast
  qed
  have files: "\<exists>v t. ucalls M cur c s v t \<and> crowded cur t" if "on_files c"
  proof -
    obtain r fs where "file_op M c (ofile (proc_at s cur)) r fs" using assms(1) unfolding files_total_def by blast
    then have "ucalls M cur c s r (set_files cur fs (world s) s)" using u_file[OF that u _ u] by blast
    moreover have "crowded cur (set_files cur fs (world s) s)"
      using assms(2) by (auto simp: crowded_def in_user_def set_files_def nth_list_update)
    ultimately show ?thesis by blast
  qed
  show ?thesis
  proof (cases "on_files c")
    case False
    then show ?thesis
      using fork wait sbrk assms(2) u_numproc[OF u] u_maxpid[OF u] u_getpid[OF u] u_sleep[OF u rtranclp.rtrancl_refl u]
      by (cases c) (simp_all, blast+)
  qed (rule files)
qed

lemma crowded_uexec:
  assumes "files_total M"
  shows "crowded cur s \<Longrightarrow> \<exists>out r t. uexec M cur p s out r t"
proof (induction p arbitrary: s)
  case (Ask c k)
  obtain v t where "ucalls M cur c s v t" "crowded cur t" using crowded_call[OF assms Ask.prems] by blast
  then show ?case using Ask.IH[OF rangeI] ux_ask[of M cur s s c] by blast
next
  case (GetProcInfo n i k)
  have "in_user cur s" using GetProcInfo.prems by (simp add: crowded_def)
  moreover obtain v j where "getProcInfo n i s = (v, j)" by fastforce
  ultimately show ?case using GetProcInfo.IH[OF rangeI rangeI GetProcInfo.prems] ux_info[of M cur s s n i] by blast
next
  case (Pipe k)
  have u: "in_user cur s" using Pipe.prems by (simp add: crowded_def)
  obtain v a b fs where p: "pipe_op M (ofile (proc_at s cur)) v a b fs" using assms unfolding files_total_def by blast
  have "crowded cur (set_files cur fs (world s) s)"
    using Pipe.prems by (auto simp: crowded_def in_user_def set_files_def nth_list_update)
  then obtain out r t where "uexec M cur (k v a b) (set_files cur fs (world s) s) out r t"
    using Pipe.IH[OF rangeI rangeI rangeI] by blast
  then show ?case using ux_pipe[OF _ u p] by blast
next
  case Exit
  then show ?case using ux_exit[of M cur s s] by (auto simp: crowded_def)
next
  case (Printf m p)
  then show ?case by (meson ux_printf)
qed (auto intro: ux_done)

end
