(* ===== verification/Test_Files.thy ===== *)
theory Test_Files
  imports Test_Runs
begin

text \<open>
  The tests of \<open>testps\<close> that ask for a resource: \<open>open\<close> and \<open>close\<close>, by what the kernel documents of
  them (\<open>files_ok\<close>; \<open>sysfile.c\<close> is not in the repository), and \<open>sbrk\<close>.
\<close>

section \<open>What the tests need\<close>

text \<open>
  \<open>open\<close> of an existing file takes a free descriptor when there is one; \<open>close\<close> of an open one
  frees it.
\<close>

definition files_ok :: "'w machine \<Rightarrow> bool" where
  "files_ok M \<longleftrightarrow>
     (\<forall>fs r fs'. file_op M (Open ''README'' 0) fs r fs' \<longrightarrow> 0 \<in> set fs \<longrightarrow>
        0 \<le> r \<and> nat r < length fs \<and> fs ! nat r = 0 \<and> (\<exists>x. x \<noteq> 0 \<and> fs' = fs[nat r := x])) \<and>
     (\<forall>d fs r fs'. file_op M (Close d) fs r fs' \<longrightarrow> 0 \<le> d \<and> nat d < length fs \<longrightarrow> fs' = fs[nat d := 0])"

text \<open>\<open>allocuvm\<close> does not run out of memory and returns the new size.\<close>

definition memory_ok :: "'w machine \<Rightarrow> bool" where
  "memory_ok M \<longleftrightarrow> (\<forall>d m n w. fst (allocuvm (mE M) d m n w) = n)"

lemma count_fds_take:
  "i < length fs \<Longrightarrow> fs ! i = 0 \<Longrightarrow> x \<noteq> 0 \<Longrightarrow> count_fds (fs[i := x]) = count_fds fs + 1"
  unfolding count_fds_eq by (induction fs arbitrary: i) (auto simp: nth_Cons split: nat.splits)

lemma count_fds_free:
  "i < length fs \<Longrightarrow> fs ! i \<noteq> 0 \<Longrightarrow> count_fds (fs[i := 0]) = count_fds fs - 1"
  using count_fds_take[of i "fs[i := 0]" "fs ! i"] by simp

section \<open>One call\<close>

text \<open>What a process keeps: the invariant, its pid, its size and its descriptors.\<close>

definition owns :: "nat \<Rightarrow> cint \<Rightarrow> uint32 \<Rightarrow> uint32 list \<Rightarrow> 'w kstate \<Rightarrow> bool" where
  "owns cur p bytes fs s \<longleftrightarrow> kinv s \<and> cur < nproc s \<and> pid (proc_at s cur) = p \<and> sz (proc_at s cur) = bytes \<and>
     ofile (proc_at s cur) = fs"

lemma owns_idles: "idles M cur s t \<Longrightarrow> owns cur p bytes fs s \<Longrightarrow> owns cur p bytes fs t"
  using idles_own[of M cur s t] by (simp add: owns_def)

lemma always_getpid:
  assumes "owns cur p bytes fs s" "\<And>t. owns cur p bytes fs t \<Longrightarrow> always M cur (k p) t Q"
  shows "always M cur (Ask Getpid k) s Q"
  unfolding always_Ask
proof (intro allI impI)
  fix s1 v s2 assume a: "idles M cur s s1" "ucalls M cur Getpid s1 v s2"
  have o: "owns cur p bytes fs s1" using owns_idles[OF a(1) assms(1)] .
  have "v = p" "s2 = s1" using a(2) o by (auto simp: owns_def elim: ucalls_getpidE)
  then show "always M cur (k v) s2 Q" using assms(2) o by simp
qed

lemma always_info:
  assumes "owns cur p bytes fs s"
    "\<And>t. owns cur p bytes fs t \<Longrightarrow> pi_sz (self_info cur t i) = sint bytes \<Longrightarrow> pi_nfd (self_info cur t i) = count_fds fs \<Longrightarrow>
      always M cur (k 0 (self_info cur t i)) t Q"
  shows "always M cur (GetProcInfo p i k) s Q"
  unfolding always_GetProcInfo
proof (intro allI impI)
  fix t assume a: "idles M cur s t" "in_user cur t"
  have o: "owns cur p bytes fs t" using owns_idles[OF a(1) assms(1)] .
  then have "getProcInfo p i t = (0, self_info cur t i)" using getProcInfo_self[of t cur i] a(2) by (simp add: owns_def)
  moreover have "always M cur (k 0 (self_info cur t i)) t Q"
    using assms(2)[OF o] o by (simp add: owns_def self_info_def)
  ultimately show "always M cur (k (fst (getProcInfo p i t)) (snd (getProcInfo p i t))) t Q" by simp
qed

lemma owns_files:
  assumes "owns cur p bytes fs s" "in_user cur s"
  shows "owns cur p bytes fs' (set_files cur fs' w s)"
proof -
  have "kinv (set_files cur fs' w s)" using assms kinv_kstep set_files_step by (metis owns_def)
  then show ?thesis using assms(1) by (simp add: owns_def set_files_def)
qed

lemma always_open:
  assumes "files_ok M" "owns cur p bytes fs s" "0 \<in> set fs"
    "\<And>d x t. nat d < length fs \<Longrightarrow> 0 \<le> d \<Longrightarrow> fs ! nat d = 0 \<Longrightarrow> x \<noteq> 0 \<Longrightarrow> owns cur p bytes (fs[nat d := x]) t \<Longrightarrow>
      always M cur (k d) t Q"
  shows "always M cur (Ask (Open ''README'' 0) k) s Q"
  unfolding always_Ask
proof (intro allI impI)
  fix s1 v s2 assume a: "idles M cur s s1" "ucalls M cur (Open ''README'' 0) s1 v s2"
  from a(2) show "always M cur (k v) s2 Q"
  proof (cases rule: ucalls_openE[consumes 1])
    case (1 u fs' w)
    have o: "owns cur p bytes fs u" using owns_idles 1(4) a(1) assms(2) by (meson rtranclp_trans)
    then have "file_op M (Open ''README'' 0) fs v fs'" using 1(6) by (simp add: owns_def)
    then obtain x where x: "0 \<le> v" "nat v < length fs" "fs ! nat v = 0" "x \<noteq> 0" "fs' = fs[nat v := x]"
      using assms(1,3) unfolding files_ok_def by blast
    have "owns cur p bytes fs' s2" using owns_files[OF o 1(5)] 1(1) by simp
    then show ?thesis using assms(4)[of v x s2] x by simp
  qed
qed

lemma always_close:
  assumes "files_ok M" "owns cur p bytes fs s" "0 \<le> d" "nat d < length fs"
    "\<And>v t. owns cur p bytes (fs[nat d := 0]) t \<Longrightarrow> always M cur (k v) t Q"
  shows "always M cur (Ask (Close d) k) s Q"
  unfolding always_Ask
proof (intro allI impI)
  fix s1 v s2 assume a: "idles M cur s s1" "ucalls M cur (Close d) s1 v s2"
  from a(2) show "always M cur (k v) s2 Q"
  proof (cases rule: ucalls_closeE[consumes 1])
    case (1 u fs' w)
    have o: "owns cur p bytes fs u" using owns_idles 1(4) a(1) assms(2) by (meson rtranclp_trans)
    then have "file_op M (Close d) fs v fs'" using 1(6) by (simp add: owns_def)
    then have "fs' = fs[nat d := 0]" using assms(1,3,4) unfolding files_ok_def by blast
    then show ?thesis using assms(5)[of s2 v] owns_files[OF o 1(5)] 1(1) by simp
  qed
qed

lemma always_sbrk:
  assumes "memory_ok M" "owns cur p bytes fs s" "0 < n" "bytes + word_of_int n \<noteq> 0"
    "\<And>v t. owns cur p (bytes + word_of_int n) fs t \<Longrightarrow> always M cur (k v) t Q"
  shows "always M cur (Ask (Sbrk n) k) s Q"
  unfolding always_Ask
proof (intro allI impI)
  fix s1 v s2 assume a: "idles M cur s s1" "ucalls M cur (Sbrk n) s1 v s2"
  have o: "owns cur p bytes fs s1" using owns_idles[OF a(1) assms(2)] .
  have "kinv s2" using kinv_steps[OF ucalls_steps[OF a(2)]] o by (simp add: owns_def)
  moreover from a(2) have "s2 = snd (growproc (mE M) cur n s1)" by (auto elim: ucalls_sbrkE)
  ultimately have "owns cur p (bytes + word_of_int n) fs s2"
    using o assms(1,3,4) by (auto simp: owns_def growproc_def memory_ok_def Let_def split: prod.splits) (metis fst_conv)+
  then show "always M cur (k v) s2 Q" by (rule assms(5))
qed

section \<open>The tests\<close>

definition file_tests :: "test list" where
  "file_tests = [test_open_increases_nfd, test_close_decreases_nfd, test_sbrk_changes_size]"

lemma file_tests_always:
  assumes "files_ok M" "memory_ok M" "owns cur p bytes fs s" "0 \<in> set fs" "0 \<le> sint bytes" "sint bytes + 4096 < 2147483648"
    "test \<in> set file_tests"
  shows "always M cur (test stack g) s (\<lambda>out r t. r = Some (g\<lparr>passed := passed g + 1\<rparr>))"
    (is "always M cur _ s ?Q")
proof -
  have pass: "always M cur (test_pass nm g) t ?Q" for nm t by (simp add: test_pass_def)
  have "always M cur (test_open_increases_nfd stack g) s ?Q"
    unfolding test_open_increases_nfd_def
  proof (rule always_getpid[OF assms(3)], rule always_info, assumption, rule always_open[OF assms(1) _ assms(4)], assumption, goal_cases)
    case (1 t u d x v)
    let ?k = "\<lambda>pinfo2. Ask (Close d) (\<lambda>_. if pi_nfd pinfo2 = pi_nfd (self_info cur u (stack 0)) + 1
        then test_pass ''Open file increases nfd by 1'' g
        else test_fail ''Open file increases nfd by 1'' ''nfd not increased correctly'' g)"
    have "always M cur (GetProcInfo p (stack 1) (\<lambda>_. ?k)) v ?Q"
      by (rule always_info[OF 1(9)], rule always_close[OF assms(1)], assumption)
        (use 1 in \<open>auto simp: pass count_fds_take\<close>)
    then show ?case using 1(6) by simp
  qed
  moreover have "always M cur (test_close_decreases_nfd stack g) s ?Q"
    unfolding test_close_decreases_nfd_def
  proof (rule always_getpid[OF assms(3)], rule always_open[OF assms(1) _ assms(4)], assumption, goal_cases)
    case (1 t d x v)
    let ?k = "\<lambda>pinfo1. Ask (Close d) (\<lambda>_. GetProcInfo p (stack 1) (\<lambda>_ pinfo2. if pi_nfd pinfo2 = pi_nfd pinfo1 - 1
        then test_pass ''Close file decreases nfd by 1'' g
        else test_fail ''Close file decreases nfd by 1'' ''nfd not decreased correctly'' g))"
    have "always M cur (GetProcInfo p (stack 0) (\<lambda>_. ?k)) v ?Q"
    proof (rule always_info[OF 1(6)], rule always_close[OF assms(1)], assumption, goal_cases)
      case (3 u v' w)
      show ?case
        by (rule always_info[OF 3(4)]) (use 1 3 list_update_id[of fs "nat d"] in \<open>simp add: pass count_fds_take\<close>)
    qed (use 1 in simp_all)
    then show ?case using 1(3) by simp
  qed
  moreover have "always M cur (test_sbrk_changes_size stack g) s ?Q"
  proof -
    have s: "sint (bytes + 4096) = sint bytes + 4096"
      using assms(5,6) by (simp add: sint_word_ariths signed_take_bit_int_eq_self)
    then have "bytes + word_of_int 4096 \<noteq> 0" using assms(5) by auto
    then show ?thesis
      unfolding test_sbrk_changes_size_def
      by (intro always_getpid[OF assms(3)] always_info always_sbrk[OF assms(2)]) (auto simp: pass s)
  qed
  ultimately show ?thesis using assms(7) by (auto simp: file_tests_def)
qed

end
