(* ===== verification/Test_Children.thy ===== *)
theory Test_Children
  imports Xv6_Tree Test_Runs
begin

text \<open>
  The verdicts that children print: \<open>test_child_ppid\<close> and \<open>test_child_size\<close> leave theirs to the
  child. The argument is on the tree of pids (\<open>Xv6_Tree\<close>): as long as the parent does not die, the
  child's node stays where \<open>fork\<close> put it, whatever the rest of the system does.
\<close>

section \<open>The node of a running process\<close>

text \<open>The node with the pid of a slot is that slot's: the pids of free slots are no one's.\<close>

lemma node_of_slot:
  assumes "kinv s" "free_ok s" "cur < nproc s" "tree s (pid (proc_at s cur)) = Some n"
  shows "committed (proc_at s cur) \<and> n = node_of s (proc_at s cur)"
proof -
  obtain i where i: "i < nproc s" "committed (proc_at s i)" "pid (proc_at s i) = pid (proc_at s cur)"
    "n = node_of s (proc_at s i)"
    using tree_Some[OF assms(4)] by metis
  have "pid (proc_at s cur) \<in> pid_set s"
    using i committed_active[OF i(2)] unfolding pid_set_def by (auto simp: image_iff intro!: exI[of _ i])
  then have "active (proc_at s cur)" using assms(2,3) by (auto simp: free_ok_def active_def)
  then have "i = cur" using pid_inj[OF assms(1) i(1) assms(3)] i(2,3) committed_active by blast
  with i show ?thesis by simp
qed

definition child_of :: "nat \<Rightarrow> cint \<Rightarrow> cint \<Rightarrow> 'w kstate \<Rightarrow> bool" where
  "child_of cur me above_me s \<longleftrightarrow> kinv s \<and> free_ok s \<and> cur < nproc s \<and> pid (proc_at s cur) = me \<and>
     kpos (proc_at s cur) \<in> {KUser, KSleep KUser} \<and> tree s me = Some (Node (Some above_me) False)"

lemma child_of_idle:
  assumes c: "child_of cur me p s" and st: "idle M cur s t" and alive: "\<And>a. tree t p \<noteq> Some (Node a True)"
  shows "child_of cur me p t"
proof -
  have k: "kstep (mK M) (mE M) s t" and own: "own_same (proc_at s cur) (proc_at t cur)"
    using st by (simp_all add: idle_def)
  have s: "kinv s" "free_ok s" "cur < nproc s" "pid (proc_at s cur) = me" "kpos (proc_at s cur) \<in> {KUser, KSleep KUser}"
    "tree s me = Some (Node (Some p) False)" using c by (simp_all add: child_of_def)
  have act: "active (proc_at s cur)"
    using node_of_slot[OF s(1-3)] s(4,6) committed_active by blast
  have "tree t me = Some (Node (Some p) False)"
    using tree_kstep_cases[OF s(1) k]
  proof (elim disjE exE conjE)
    fix q a d assume "tree s d = None" "tree t = spawn q d (tree s)"
    then show ?thesis using s(6) by (auto simp: spawn_def)
  next
    fix x a assume x: "x < nproc s" "live (proc_at s x)" "kpos (proc_at s x) = KExit"
      "tree s (pid (proc_at s x)) = Some (Node a False)" "tree t = finish (pid (proc_at s x)) (tree s)"
    have "pid (proc_at s x) \<noteq> p" using alive x(4,5) by (auto simp: finish_def)
    moreover have "pid (proc_at s x) \<noteq> me"
      using pid_inj[OF s(1) x(1) s(3) live_active[OF x(2)] act] s(4,5) x(3) by auto
    ultimately show ?thesis using s(6) x(5) by (simp add: finish_def)
  next
    fix d q a assume "tree s d = Some (Node (Some q) True)" "tree t = bury d (tree s)"
    then show ?thesis using s(6) by (auto simp: bury_def)
  qed (use s(6) in simp)
  moreover have "kpos (proc_at t cur) \<in> {KUser, KSleep KUser}" "pid (proc_at t cur) = me"
    using own s(4,5) by (auto simp: own_same_def)
  ultimately show ?thesis
    using kinv_kstep[OF s(1) k] free_ok_kstep[OF s(1,2) k] nproc_kstep[OF s(1) k] s(3) by (simp add: child_of_def)
qed

lemma child_of_idles:
  assumes "idles M cur s t" "child_of cur me p s" "\<And>s t a. rely M s t \<Longrightarrow> tree t p \<noteq> Some (Node a True)"
  shows "child_of cur me p t"
  using assms(1)
proof (induction rule: rtranclp_induct)
  case (step t u)
  then have "rely M t u" by (simp add: idle_def)
  then show ?case using child_of_idle[OF step.IH step.hyps(2)] assms(3) by blast
qed (rule assms(2))

lemma child_of_ppid:
  assumes "child_of cur me p s" "in_user cur s"
  shows "pi_ppid (self_info cur s i) = p"
proof -
  have "node_of s (proc_at s cur) = Node (Some p) False"
    using node_of_slot[of s cur] assms(1) by (auto simp: child_of_def)
  then show ?thesis by (auto simp: node_of_def self_info_def)
qed

text \<open>The process as \<open>fork\<close> leaves it.\<close>

lemma child_ofI:
  assumes "kinv s" "free_ok s" "in_user cur s" "parent (proc_at s cur) = Some q"
  shows "child_of cur (pid (proc_at s cur)) (pid (proc_at s q)) s"
proof -
  have r: "cur < nproc s" "state (proc_at s cur) = RUNNING" using in_user_running[OF assms(1,3)] by auto
  then have "committed (proc_at s cur)" by (simp add: committed_def)
  then have "tree s (pid (proc_at s cur)) = Some (Node (Some (pid (proc_at s q))) False)"
    using tree_at[OF pids_differ[OF assms(1)] r(1)] r(2) assms(4) by (simp add: node_of_def)
  then show ?thesis using assms r by (simp add: child_of_def in_user_def)
qed

section \<open>The verdicts\<close>

lemma child_ppid_passes:
  assumes "child_of cur me p s" "\<And>s t a. rely M s t \<Longrightarrow> tree t p \<noteq> Some (Node a True)"
  shows "always M cur (child_ppid stack p :: 'a uprog) s
    (\<lambda>out r t. out = [''[PASS] Child ppid matches parent pid'' @ [newline]] \<and> r = None)"
  unfolding child_ppid_def
proof (rule always_getpid_info)
  show "kinv s" using assms(1) by (simp add: child_of_def)
  fix s1 s2 assume i: "idles M cur s s1" "idles M cur s1 s2" "in_user cur s2"
  have "child_of cur me p s2" using child_of_idles i(1,2) assms by metis
  then have "pi_ppid (self_info cur s2 (stack 0)) = p" using child_of_ppid i(3) by blast
  then show "always M cur (if pi_ppid (self_info cur s2 (stack 0)) = p
      then Printf (''[PASS] Child ppid matches parent pid'' @ [newline]) Exit
      else Printf (''[FAIL] Child ppid matches parent pid'' @ [newline]) Exit) s2
    (\<lambda>out r t. out = [''[PASS] Child ppid matches parent pid'' @ [newline]] \<and> r = None)"
    by (auto simp: always_Exit)
qed

lemma child_size_passes:
  assumes "kinv s" "0 < sint (sz (proc_at s cur))"
  shows "always M cur (child_size stack :: 'a uprog) s
    (\<lambda>out r t. out = [''[PASS] Child has positive memory size'' @ [newline]] \<and> r = None)"
  unfolding child_size_def
  by (rule always_getpid_info[OF assms(1)]) (use assms(2) in \<open>auto simp: always_Exit self_info_def\<close>)

end
