(* ===== verification/Test_Props.thy ===== *)
theory Test_Props
  imports Test_Demo Test_Verdicts Test_Summary Test_Files Test_Children
begin

text \<open>
  The properties of \<open>testps.c\<close>: which of its tests the kernel passes, and under which
  interleavings; a run in which one fails although the kernel is right; and what the printed
  summary means.
\<close>

section \<open>Tests that pass whatever the other processes do\<close>

lemma self_tests_quiet:
  "test \<in> set self_tests \<Longrightarrow> \<exists>out x. quiet_run cur s (test stack g) = Some (out, x)"
  by (auto simp: self_tests_def test_defs)

text \<open>C33: Twelve of the tests are sound for every interleaving. In a process other than init with a
  positive size and three open files, in any reachable state and whatever the scheduler, the
  other processes and the devices do between the calls, every execution of the test counts one
  more pass and nothing else, and there is one.\<close>

theorem self_tests_pass:
  assumes "reachable (kstart (mK M) (mE M)) (kstep (mK M) (mE M)) s" "in_user cur s" "pid (proc_at s cur) \<noteq> 1"
    and "0 < sint (sz (proc_at s cur))" "3 \<le> count_fds (ofile (proc_at s cur))" "test \<in> set self_tests"
  shows "(\<forall>out r t. uexec M cur (test stack g) s out r t \<longrightarrow> r = Some (g\<lparr>passed := passed g + 1\<rparr>)) \<and>
    (\<exists>out t. uexec M cur (test stack g) s out (Some (g\<lparr>passed := passed g + 1\<rparr>)) t)"
proof -
  have a: "uexec M cur (test stack g) s out r t \<Longrightarrow> r = Some (g\<lparr>passed := passed g + 1\<rparr>)" for out r t
    using self_tests_always[OF kern.reachable_inv[OF assms(1)] assms(3-6), of M stack g] by (auto dest: alwaysD)
  obtain out x where "quiet_run cur s (test stack g) = Some (out, x)" using self_tests_quiet[OF assms(6)] by blast
  then have "uexec M cur (test stack g) s out (Some x) s" by (rule quiet_run_uexec[OF assms(2)])
  then show ?thesis using a by fastforce
qed

theorem self_tests_pass_witness:
  "\<exists>out t. uexec free_machine 1 (test_self_ppid_positive (\<lambda>_. no_info) test_globals) td7 out
     (Some (test_globals\<lparr>passed := 1\<rparr>)) t"
proof -
  have m: "mK free_machine = demo_K" "mE free_machine = test_E" by (simp_all add: free_machine_def)
  have v: "pid (proc_at td7 1) \<noteq> 1" "0 < sint (sz (proc_at td7 1))" "3 \<le> count_fds (ofile (proc_at td7 1))" by code_simp+
  have "test_self_ppid_positive \<in> set self_tests" by (simp add: self_tests_def)
  from self_tests_pass[OF _ td7_user v this, where M = free_machine and stack = "\<lambda>_. no_info" and g = test_globals] td7_reach show ?thesis
    unfolding m by (simp add: test_globals_def)
qed

section \<open>Tests that pass when nothing else moves\<close>

text \<open>C36: Ten more tests are sound in a quiet system. When nothing else takes a step during the
  test, in a reachable state in which every size is positive, no switch counter has wrapped,
  pid 99999 is not in use and init is at most ten parents away, the test has exactly one
  execution; it counts one more pass, and the state is left as it was.\<close>

theorem quiet_tests_pass:
  assumes "reachable (kstart (mK M) (mE M)) (kstep (mK M) (mE M)) s" "in_user cur s" "\<forall>a b. \<not> rely M a b" "sane s"
    and "(ppid_of s ^^ d) (pid (proc_at s cur)) = 1" "d \<le> 10" "99999 \<notin> pid_set s" "test \<in> set quiet_tests"
  shows "\<exists>out g'. passed g' = passed g + 1 \<and> failed g' = failed g \<and> uexec M cur (test stack g) s out (Some g') s \<and>
    (\<forall>out' r t. uexec M cur (test stack g) s out' r t \<longrightarrow> out' = out \<and> r = Some g' \<and> t = s)"
proof -
  obtain out g' where q: "quiet_run cur s (test stack g) = Some (out, g')" "passed g' = passed g + 1" "failed g' = failed g"
    using quiet_tests_run[OF kern.reachable_inv[OF assms(1)] assms(2,4-8)] by blast
  have "out' = out \<and> r = Some g' \<and> t = s" if "uexec M cur (test stack g) s out' r t" for out' r t
    using quiet_run_unique[OF _ q(1) that] assms(3) by blast
  then show ?thesis using q quiet_run_uexec[OF assms(2) q(1)] by blast
qed

definition quiet_machine :: "uint32 machine" where
  "quiet_machine = free_machine\<lparr>rely := \<lambda>_ _. False\<rparr>"

theorem quiet_tests_pass_witness:
  "\<exists>out g'. passed g' = 1 \<and> failed g' = 0 \<and>
     uexec quiet_machine 1 (test_ppid_chain (\<lambda>_. no_info) test_globals) td7 out (Some g') td7"
proof -
  have m: "mK quiet_machine = demo_K" "mE quiet_machine = test_E" "\<forall>a b. \<not> rely quiet_machine a b"
    by (simp_all add: quiet_machine_def free_machine_def)
  have "list_all (\<lambda>p. active p \<longrightarrow> 0 < sint (sz p) \<and> 0 \<le> nrswitch p) (ptable td7)" by code_simp
  then have s: "sane td7" by (simp add: sane_def list_all_length)
  have "list_all (\<lambda>p. pid p \<noteq> 99999) (ptable td7)" by code_simp
  then have n: "99999 \<notin> pid_set td7" by (auto simp: pid_set_def list_all_length)
  have d: "(ppid_of td7 ^^ 1) (pid (proc_at td7 1)) = 1" by code_simp
  have t: "test_ppid_chain \<in> set quiet_tests" by (simp add: quiet_tests_def)
  show ?thesis
    using quiet_tests_pass[OF _ td7_user m(3) s d _ n t, where stack = "\<lambda>_. no_info" and g = test_globals] td7_reach
    unfolding m(1,2) by (auto simp: test_globals_def)
qed

text \<open>C35: The test that compares the largest pid with the number of processes is not sound: there
  is a reachable state, and an execution from it, in which the comparison holds in the kernel
  before and after, yet the test reports a failure, because a process is reaped between the two
  system calls.\<close>

theorem maxpid_race:
  "reachable (kstart demo_K test_E) (kstep demo_K test_E) tr2 \<and>
   uexec free_machine 1 (test_maxpid_ge_numproc stack g) tr2
     [''[FAIL] getMaxPid >= getNumProc: maxpid < numproc'' @ [newline]] (Some (g\<lparr>failed := failed g + 1\<rparr>)) tr9 \<and>
   getNumProc tr2 \<le> getMaxPid tr2 \<and> getNumProc tr9 \<le> getMaxPid tr9"
proof -
  have v: "getNumProc tr2 = 3" "getMaxPid tr2 = 3" "getNumProc tr9 = 2" "getMaxPid tr9 = 2" by code_simp+
  have n: "ucalls free_machine 1 GetNumProc tr2 3 tr2" using u_numproc[OF tr2_user] v(1) by metis
  have m: "ucalls free_machine 1 GetMaxPid tr9 2 tr9" using u_maxpid[OF tr9_user] v(4) by metis
  have "uexec free_machine 1 (test_maxpid_ge_numproc stack g) tr2
      [''[FAIL] getMaxPid >= getNumProc: maxpid < numproc'' @ [newline]] (Some (g\<lparr>failed := failed g + 1\<rparr>)) tr9"
    unfolding test_maxpid_ge_numproc_def
    by (rule ux_ask[OF rtranclp.rtrancl_refl n], rule ux_ask[OF tr_idles m])
      (simp add: test_fail_def ux_printf[OF ux_done])
  then show ?thesis using tr2_reach v by simp
qed

section \<open>Tests that fork\<close>

text \<open>C34: Five tests that fork are sound when no other process comes or goes. In a reachable state
  of a system in which memory does not run out, for a caller that no one has killed, with the
  number of free slots the test needs, and whatever the scheduler and the children do, every
  execution counts one more pass: fork adds one process and wait takes one away.\<close>

theorem fork_tests_pass:
  assumes "reachable (kstart (mK M) (mE M)) (kstep (mK M) (mE M)) s" "fork_machine M" "cur < nproc s"
    and "killed (proc_at s cur) = 0" "(test, n) \<in> set fork_tests" "getNumProc s + int n \<le> int (nproc s)"
    and "uexec M cur (test stack g) s out r t"
  shows "r = Some (g\<lparr>passed := passed g + 1\<rparr>)"
proof -
  have "ready cur (nproc s) (getNumProc s) 0 s" using kern.reachable_inv[OF assms(1)] assms(3,4) by (simp add: ready_def)
  from fork_tests_always[OF assms(2) this assms(5,6)] assms(7) show ?thesis by (rule alwaysD)
qed

lemma demo_fork_run:
  "\<exists>out r. uexec still_machine 1 (test_fork_increases_numproc stack g) td8 out r tf7"
proof -
  have u: "in_user 1 tf2" "in_user 1 tf6" by (rule in_user_cpu[of 0], code_simp)+
  have a: "alloc_claim td8 = (Some 2, snd (alloc_claim td8))" "nextpid td8 < 2147483647" by code_simp+
  have f: "fork_finish demo_K test_E 1 2 tf1 = (3, snd (fork_finish demo_K test_E 1 2 tf1))" by code_simp
  have r: "runs tf1 0 1" "kpos (proc_at tf1 1) = KFork 2" by code_simp+
  have m: "mK still_machine = demo_K" "mE still_machine = test_E" by (simp_all add: still_machine_def)
  have i: "idles still_machine 1 (set_kpos 1 (KFork 2) (snd (alloc_claim td8))) tf1" by (simp only: tf1_def rtranclp.rtrancl_refl)
  have "ucalls still_machine 1 Fork td8 3 (set_kpos 1 KUser (snd (fork_finish demo_K test_E 1 2 tf1)))"
    by (rule u_fork[OF td8_user a(2,1) i r]) (simp only: m f[symmetric])
  then have c1: "ucalls still_machine 1 Fork td8 3 tf2" by (simp only: tf2_def)
  have w: "runs tf6 0 1" "kpos (proc_at tf6 1) = KUser" by code_simp+
  have "wait_pass still_machine 1 tf6 = wait_iter test_E 1 tf6" unfolding wait_pass_def w(2) m(2) by (simp only: kpos.distinct if_False)
  moreover have "fst (wait_iter test_E 1 tf6) = Some 3" by code_simp
  ultimately have p: "wait_pass still_machine 1 tf6 = (Some 3, snd (wait_iter test_E 1 tf6))" by (metis prod.collapse)
  have "uwait still_machine 1 tf6 3 (wait_run (mE still_machine) 0 1 tf6)" using uw_return[OF w(1) _ p] w(2) by blast
  then have c2: "ucalls still_machine 1 Wait tf6 3 tf7" unfolding tf7_def m(2) by (rule u_wait[OF u(2)])
  let ?v = "if getNumProc td8 < getNumProc tf2 then test_pass ''Fork increases numProc'' g
      else test_fail ''Fork increases numProc'' ''numproc did not increase'' g"
  have "\<exists>out r. uexec still_machine 1 ?v tf7 out r tf7"
    by (auto simp: test_pass_def test_fail_def intro: ux_printf[OF ux_done])
  then obtain out r where "uexec still_machine 1 ?v tf7 out r tf7" by blast
  then have "uexec still_machine 1 (Ask Wait (\<lambda>_. ?v)) tf2 out r tf7" by (rule ux_ask[OF tf_idles c2])
  note n = ux_ask[OF rtranclp.rtrancl_refl u_numproc[OF u(1)], where k = "\<lambda>n2. Ask Wait (\<lambda>_. if getNumProc td8 < n2
      then test_pass ''Fork increases numProc'' g
      else test_fail ''Fork increases numProc'' ''numproc did not increase'' g)", OF this]
  have "uexec still_machine 1 (test_fork_increases_numproc stack g) td8 out r tf7"
    unfolding test_fork_increases_numproc_def
    by (rule ux_ask[OF rtranclp.rtrancl_refl u_numproc[OF td8_user]], rule ux_ask[OF rtranclp.rtrancl_refl c1]) (use n in simp)
  then show ?thesis by blast
qed

theorem fork_tests_pass_witness:
  "\<exists>out. uexec still_machine 1 (test_fork_increases_numproc (\<lambda>_. no_info) test_globals) td8 out (Some (test_globals\<lparr>passed := 1\<rparr>)) tf7"
proof -
  have m: "mK still_machine = demo_K" "mE still_machine = test_E" by (simp_all add: still_machine_def)
  have f: "fork_machine still_machine" by (auto simp: fork_machine_def still_machine_def test_E_def)
  have v: "1 < nproc td8" "killed (proc_at td8 1) = 0" "getNumProc td8 + int 1 \<le> int (nproc td8)" by code_simp+
  have t: "(test_fork_increases_numproc, 1) \<in> set fork_tests" by (simp add: fork_tests_def)
  obtain out r where "uexec still_machine 1 (test_fork_increases_numproc (\<lambda>_. no_info) test_globals) td8 out r tf7"
    using demo_fork_run by blast
  then show ?thesis using fork_tests_pass[OF _ f v(1,2) t v(3)] td8_reach unfolding m by (metis add_0 tglobals.simps(1) test_globals_def)
qed

section \<open>Tests that need a resource\<close>


text \<open>Descriptors as the kernel hands them out: the first free one.\<close>

fun demo_files :: "ucall \<Rightarrow> uint32 list \<Rightarrow> cint \<Rightarrow> uint32 list \<Rightarrow> bool" where
  "demo_files (Open f m) fs r fs' =
     (case first_index (\<lambda>x. x = 0) fs of None \<Rightarrow> r = -1 \<and> fs' = fs
      | Some i \<Rightarrow> r = int i \<and> fs' = fs[i := 9])"
| "demo_files (Close d) fs r fs' = (r = 0 \<and> fs' = (if 0 \<le> d then fs[nat d := 0] else fs))"
| "demo_files c fs r fs' = (r = -1 \<and> fs' = fs)"

definition file_machine :: "uint32 machine" where
  "file_machine = free_machine\<lparr>file_op := demo_files, pipe_op := \<lambda>fs v a b fs'. v = -1 \<and> a = 0 \<and> b = 0 \<and> fs' = fs\<rparr>"

lemma file_machine_ok: "files_ok file_machine" "memory_ok file_machine" "files_total file_machine"
proof -
  have "\<exists>x::uint32. x \<noteq> 0 \<and> fs[i := 9] = fs[i := x]" for fs i by (rule exI[of _ 9]) simp
  then show "files_ok file_machine"
    unfolding files_ok_def
    by (auto simp: file_machine_def first_index_None dest: first_index_SomeD split: option.splits)
  show "memory_ok file_machine" by (simp add: memory_ok_def file_machine_def free_machine_def test_E_def)
  have "\<exists>r fs'. demo_files c fs r fs'" for c fs by (cases c; cases "first_index (\<lambda>x. x = 0) fs") auto
  then show "files_total file_machine" by (simp add: files_total_def file_machine_def)
qed

text \<open>The state in which every slot is taken and process 2 has no children.\<close>

lemma tr2_crowded: "crowded 1 tr2"
proof -
  have "list_all (\<lambda>p. state p \<noteq> UNUSED \<and> parent p \<noteq> Some 1) (ptable tr2)" "1 < nproc tr2" by code_simp+
  then show ?thesis using tr2_user by (simp add: crowded_def list_all_length)
qed


section \<open>The summary\<close>

text \<open>C39: The summary of testps is true to its own output. Every execution of main from a reachable
  state, whatever the results of the system calls, ends in exit after the summary; the numbers it
  prints are those of the [PASS] and [FAIL] lines the process printed, and the last line reports
  success exactly when there is no [FAIL] line.\<close>

theorem summary_honest:
  assumes "reachable (kstart (mK M) (mE M)) (kstep (mK M) (mE M)) s" "uexec M cur (testps_main stack) s out r t"
  shows "r = None \<and> (\<exists>body. out = body @ summary_lines (lines is_pass body) (lines is_fail body) \<and>
    (last out = all_passed \<longleftrightarrow> (\<forall>l\<in>set body. \<not> is_fail l)))"
proof -
  obtain body where b: "r = None" "out = body @ summary_lines (lines is_pass body) (lines is_fail body)"
    using main_output[OF kern.reachable_inv[OF assms(1)] assms(2)] by blast
  have "all_passed \<noteq> some_failed" by (simp add: all_passed_def some_failed_def)
  then have "last out = all_passed \<longleftrightarrow> lines is_fail body = 0" using b(2) by (simp add: summary_lines_def)
  also have "\<dots> \<longleftrightarrow> (\<forall>l\<in>set body. \<not> is_fail l)" by (simp add: filter_empty_conv)
  finally show ?thesis using b by blast
qed

theorem summary_honest_witness:
  "\<exists>out t body. uexec file_machine 1 (testps_main (\<lambda>_. no_info)) tr2 out None t \<and>
     out = body @ summary_lines (lines is_pass body) (lines is_fail body)"
proof -
  have m: "mK file_machine = demo_K" "mE file_machine = test_E" by (simp_all add: file_machine_def free_machine_def)
  obtain out r t where "uexec file_machine 1 (testps_main (\<lambda>_. no_info)) tr2 out r t"
    using crowded_uexec[OF file_machine_ok(3) tr2_crowded] by blast
  then show ?thesis using summary_honest[of file_machine tr2] tr2_reach unfolding m by metis
qed

text \<open>Four of the tests cannot report a failure: whatever the kernel answers, from any state,
  the tests of zombies, of sleeping processes, and of a child's parent and size leave the count
  of failures as it was; the children of the last two print verdicts that no one counts.\<close>

lemma blind_tests_never_fail:
  assumes "test \<in> set blind_tests" "uexec M cur (test stack g) s out (Some g') t"
  shows "failed g' = failed g"
  using fails_at_uexec[OF assms(2) blind_tests_fails_at[OF assms(1)]] by simp

lemma blind_tests_never_fail_witness:
  "\<exists>out g' t. uexec file_machine 1 (test_zombie_state (\<lambda>_. no_info) test_globals) tr2 out (Some g') t \<and> failed g' = 0"
proof -
  obtain out r t where e: "uexec file_machine 1 (test_zombie_state (\<lambda>_. no_info) test_globals) tr2 out r t"
    using crowded_uexec[OF file_machine_ok(3) tr2_crowded] by blast
  have "kinv tr2" using kern.reachable_inv[OF tr2_reach] .
  moreover have "adds 0 0 (test_zombie_state (\<lambda>_. no_info) test_globals)"
    using adds_test[of test_zombie_state test_globals "\<lambda>_. no_info"]
    by (simp add: test_globals_def all_tests_def test_sections_def del: adds.simps) 
  ultimately obtain g' where "r = Some g'" using adds_uexec[OF e] by blast
  then show ?thesis
    using e blind_tests_never_fail[of test_zombie_state file_machine 1 "\<lambda>_. no_info" test_globals tr2 out g' t]
    by (auto simp: blind_tests_def test_globals_def)
qed

section \<open>Tests that the child decides\<close>

text \<open>C38: The two verdicts that children print. The child of test_child_ppid, in any reachable state
  in which it runs below a parent, prints the pass and exits in every execution in which the parent
  does not die meanwhile, whatever all other processes, its own children and the parent's
  other calls included, the scheduler and the devices do; and so does the child of test_child_size, without any
  condition on the rest of the system, when its size is positive.\<close>

theorem child_tests_pass:
  assumes "reachable (kstart (mK M) (mE M)) (kstep (mK M) (mE M)) s" "in_user cur s"
    and "parent (proc_at s cur) = Some q"
    and "\<And>u v a. rely M u v \<Longrightarrow> tree v (pid (proc_at s q)) \<noteq> Some (Node a True)"
    and "0 < sint (sz (proc_at s cur))"
  shows "always M cur (child_ppid stack (pid (proc_at s q))) s
      (\<lambda>out r t. out = [''[PASS] Child ppid matches parent pid'' @ [newline]] \<and> r = (None :: tglobals option)) \<and>
    always M cur (child_size stack) s
      (\<lambda>out r t. out = [''[PASS] Child has positive memory size'' @ [newline]] \<and> r = (None :: tglobals option))"
proof -
  have inv: "kinv s" "free_ok s" using kern_free.reachable_inv[OF assms(1)] by blast+
  have c: "child_of cur (pid (proc_at s cur)) (pid (proc_at s q)) s" using child_ofI[OF inv assms(2,3)] .
  show ?thesis
    by (rule conjI[OF child_ppid_passes[OF c assms(4)] child_size_passes[OF inv(1) assms(5)]])
qed

text \<open>In the run of \<open>Test_Demo\<close>, process 3 is a child of process 2; nothing kills the parent.\<close>

definition parent_machine :: "uint32 machine" where
  "parent_machine = free_machine\<lparr>rely := \<lambda>s t. tree t 2 = Some (Node (Some 1) False)\<rparr>"

lemma tf4_reach: "test_reach tf4"
proof -
  have "alloc_claim td8 = (Some 2, snd (alloc_claim td8))" by code_simp
  then have 1: "test_reach tf1"
    unfolding tf1_def by (intro reach_step[OF td8_reach] k_fork_begin[where c = 0]) code_simp+
  have 2: "test_reach tf2"
    unfolding tf2_def by (rule reach_step[OF 1 k_fork_end[where c = 0]]) code_simp+
  show ?thesis by (rule reach_step[OF reach_step[OF 2 tf3_step] tf4_step])
qed

lemma tf4_pids: "pid (proc_at tf4 2) = 3" "pi_ppid (snd (getProcInfo 3 no_info tf4)) = 2"
  by code_simp+

lemma tf4_child_run:
  "uexec parent_machine 2 (child_ppid (\<lambda>_. no_info) 2 :: tglobals uprog) tf4
     [''[PASS] Child ppid matches parent pid'' @ [newline]] None tf4"
proof -
  have u: "in_user 2 tf4" by (rule in_user_cpu[of 1]) code_simp
  have c: "ucalls parent_machine 2 Getpid tf4 3 tf4" using u_getpid[OF u, of parent_machine] by (simp add: tf4_pids(1))
  show ?thesis
    unfolding child_ppid_def
    by (rule ux_ask[OF rtranclp.rtrancl_refl c], rule ux_info[OF rtranclp.rtrancl_refl u surjective_pairing])
      (simp add: tf4_pids(2) ux_printf ux_exit[OF rtranclp.rtrancl_refl u])
qed

theorem child_tests_pass_witness:
  "\<exists>t. uexec parent_machine 2 (child_ppid (\<lambda>_. no_info) 2 :: tglobals uprog) tf4
     [''[PASS] Child ppid matches parent pid'' @ [newline]] None t \<and>
   always parent_machine 2 (child_size (\<lambda>_. no_info) :: tglobals uprog) tf4
     (\<lambda>out r t. out = [''[PASS] Child has positive memory size'' @ [newline]] \<and> r = None)"
proof -
  have m: "mK parent_machine = demo_K" "mE parent_machine = test_E"
    "\<And>u v a. rely parent_machine u v \<Longrightarrow> tree v 2 \<noteq> Some (Node a True)"
    by (simp_all add: parent_machine_def free_machine_def)
  have u: "in_user 2 tf4" by (rule in_user_cpu[of 1]) code_simp
  have v: "parent (proc_at tf4 2) = Some 1" "pid (proc_at tf4 1) = 2" "0 < sint (sz (proc_at tf4 2))" by code_simp+
  show ?thesis
    using child_tests_pass[of parent_machine tf4 2 1 "\<lambda>_. no_info"] tf4_reach u v m tf4_child_run by auto
qed

end
