(* ===== verification/Job_Queue.thy ===== *)
theory Job_Queue
  imports OS_Prelude
begin

text \<open>
  \<open>queue.c\<close>: the linked list of jobs, with \<open>struct Job\<close> of \<open>worker.h\<close> as a record in an
  explicit heap (a partial map from addresses), so that \<open>queue_head\<close>, \<open>queue_tail\<close> and the
  \<open>next\<close> fields alias as they do in the program. \<open>None\<close> as a result is a crash: a null or
  dangling pointer that the code follows. The address \<open>malloc\<close> returns is an argument.
  The locale \<open>fifo\<close> is what a client of the queue relies on; \<open>jobs\<close> interprets it.
\<close>

section \<open>The code\<close>

record job =
  cmd :: string
  submit_time :: int
  job_next :: "nat option"

record jobq =
  jheap :: "nat \<Rightarrow> job option"
  queue_head :: "nat option"
  queue_tail :: "nat option"

definition empty_queue :: jobq where
  "empty_queue = \<lparr>jheap = (\<lambda>_. None), queue_head = None, queue_tail = None\<rparr>"

definition enqueue :: "nat option \<Rightarrow> string \<Rightarrow> int \<Rightarrow> jobq \<Rightarrow> jobq option" where
  "enqueue malloc_result c t s =
     (case malloc_result of None \<Rightarrow> None
      | Some j \<Rightarrow>
          (let h = (jheap s)(j \<mapsto> \<lparr>cmd = c, submit_time = t, job_next = None\<rparr>) in
           case queue_tail s of
             None \<Rightarrow> Some (s\<lparr>jheap := h, queue_head := Some j, queue_tail := Some j\<rparr>)
           | Some l \<Rightarrow>
               (case h l of None \<Rightarrow> None
                | Some k \<Rightarrow> Some (s\<lparr>jheap := h(l \<mapsto> k\<lparr>job_next := Some j\<rparr>), queue_tail := Some j\<rparr>))))"

definition dequeue :: "jobq \<Rightarrow> (nat option \<times> jobq) option" where
  "dequeue s =
     (case queue_head s of None \<Rightarrow> Some (None, s)
      | Some j \<Rightarrow>
          (case jheap s j of None \<Rightarrow> None
           | Some k \<Rightarrow>
               (let s1 = s\<lparr>queue_head := job_next k\<rparr>
                in Some (Some j, if queue_head s1 = None then s1\<lparr>queue_tail := None\<rparr> else s1))))"

text \<open>\<open>free(job)\<close> of the worker that ran it.\<close>

definition free_job :: "nat \<Rightarrow> jobq \<Rightarrow> jobq" where
  "free_job a s = s\<lparr>jheap := (jheap s)(a := None)\<rparr>"

section \<open>The list in the heap\<close>

fun chain :: "(nat \<Rightarrow> job option) \<Rightarrow> nat option \<Rightarrow> nat list \<Rightarrow> bool" where
  "chain h p [] \<longleftrightarrow> p = None"
| "chain h p (a # as) \<longleftrightarrow> p = Some a \<and> (\<exists>j. h a = Some j \<and> chain h (job_next j) as)"

lemma chain_upd [simp]: "a \<notin> set as \<Longrightarrow> chain (h(a := x)) p as = chain h p as"
  by (induction as arbitrary: p) auto

lemma chain_snoc:
  "chain h p (as @ [l]) \<Longrightarrow> l \<notin> set as \<Longrightarrow> a \<notin> set (as @ [l]) \<Longrightarrow> h l = Some k \<Longrightarrow> job_next x = None \<Longrightarrow>
   chain (h(a \<mapsto> x, l \<mapsto> k\<lparr>job_next := Some a\<rparr>)) p (as @ [l, a])"
  by (induction as arbitrary: p) (auto split: if_splits)

lemma chain_alloc: "chain h p as \<Longrightarrow> a \<in> set as \<Longrightarrow> h a \<noteq> None"
  by (induction as arbitrary: p) auto

definition queue_ok :: "jobq \<Rightarrow> nat list \<Rightarrow> bool" where
  "queue_ok s as \<longleftrightarrow> chain (jheap s) (queue_head s) as \<and> distinct as \<and>
     queue_tail s = (if as = [] then None else Some (last as))"

abbreviation job_val :: "jobq \<Rightarrow> nat \<Rightarrow> string \<times> int" where
  "job_val s a \<equiv> (cmd (the (jheap s a)), submit_time (the (jheap s a)))"

definition queue_rep :: "jobq \<Rightarrow> (string \<times> int) list \<Rightarrow> bool" where
  "queue_rep s q \<longleftrightarrow> (\<exists>as. queue_ok s as \<and> map (job_val s) as = q)"

lemma queue_ok_alloc: "queue_ok s as \<Longrightarrow> a \<in> set as \<Longrightarrow> jheap s a \<noteq> None"
  unfolding queue_ok_def by (blast dest: chain_alloc)

lemma queue_ok_empty_iff: "queue_ok s as \<Longrightarrow> queue_head s = None \<longleftrightarrow> as = []"
  by (cases as) (auto simp: queue_ok_def)

lemma enqueue_ok:
  assumes "queue_ok s as" "jheap s a = None"
  obtains s' where "enqueue (Some a) c t s = Some s'" "queue_ok s' (as @ [a])"
    "\<And>b. b \<noteq> a \<Longrightarrow> jheap s' b = None \<longleftrightarrow> jheap s b = None"
    "\<And>b. b \<noteq> a \<Longrightarrow> job_val s' b = job_val s b" "job_val s' a = (c, t)" "jheap s' a \<noteq> None"
proof (cases as rule: rev_cases)
  case Nil
  then have "queue_tail s = None" using assms(1) by (simp add: queue_ok_def)
  with Nil show ?thesis
    by (intro that[of "s\<lparr>jheap := (jheap s)(a \<mapsto> \<lparr>cmd = c, submit_time = t, job_next = None\<rparr>),
          queue_head := Some a, queue_tail := Some a\<rparr>"]) (auto simp: enqueue_def queue_ok_def)
next
  case (snoc bs l)
  from assms(1) snoc have q: "chain (jheap s) (queue_head s) (bs @ [l])" "l \<notin> set bs" "queue_tail s = Some l"
    "distinct as" by (auto simp: queue_ok_def)
  have na: "a \<notin> set as" using queue_ok_alloc[OF assms(1)] assms(2) by blast
  obtain k where k: "jheap s l = Some k" using queue_ok_alloc[OF assms(1), of l] snoc by auto
  have al: "a \<noteq> l" using na snoc by auto
  let ?s = "s\<lparr>jheap := (jheap s)(a \<mapsto> \<lparr>cmd = c, submit_time = t, job_next = None\<rparr>, l \<mapsto> k\<lparr>job_next := Some a\<rparr>),
      queue_tail := Some a\<rparr>"
  have "enqueue (Some a) c t s = Some ?s" using q(3) k al by (simp add: enqueue_def Let_def)
  moreover have "queue_ok ?s (as @ [a])"
    using chain_snoc[OF q(1,2) _ k, of a "\<lparr>cmd = c, submit_time = t, job_next = None\<rparr>"] na snoc q(4)
    by (simp add: queue_ok_def)
  ultimately show ?thesis by (rule that) (use k al in auto)
qed

lemma dequeue_ok:
  assumes "queue_ok s (a # as)"
  obtains s' where "dequeue s = Some (Some a, s')" "queue_ok s' as" "jheap s' = jheap s"
proof -
  from assms obtain k where k: "queue_head s = Some a" "jheap s a = Some k" "chain (jheap s) (job_next k) as"
    "distinct as" "queue_tail s = Some (last (a # as))" by (auto simp: queue_ok_def)
  have n: "job_next k = None \<longleftrightarrow> as = []" using k(3) by (cases as) auto
  let ?s = "if as = [] then s\<lparr>queue_head := None, queue_tail := None\<rparr> else s\<lparr>queue_head := job_next k\<rparr>"
  have "dequeue s = Some (Some a, ?s)" using k n by (simp add: dequeue_def)
  then show ?thesis by (rule that) (use k n in \<open>auto simp: queue_ok_def\<close>)
qed

lemma dequeue_empty: "queue_ok s [] \<Longrightarrow> dequeue s = Some (None, s)"
  by (simp add: queue_ok_def dequeue_def)

lemma free_job_ok: "queue_ok s as \<Longrightarrow> a \<notin> set as \<Longrightarrow> queue_ok (free_job a s) as"
  by (simp add: queue_ok_def free_job_def)

section \<open>The contract of the queue\<close>

text \<open>What a worker gets out of the queue: the fields of the job it dequeued.\<close>

definition take_job :: "jobq \<Rightarrow> ((string \<times> int) option \<times> jobq) option" where
  "take_job s = (case dequeue s of None \<Rightarrow> None | Some (None, s1) \<Rightarrow> Some (None, s1)
     | Some (Some a, s1) \<Rightarrow> Some (Some (job_val s1 a), s1))"

definition put_job :: "nat \<Rightarrow> string \<times> int \<Rightarrow> jobq \<Rightarrow> jobq option" where
  "put_job a x s = enqueue (Some a) (fst x) (snd x) s"

text \<open>A run of queue operations, on an implementation and on the abstract queue, a list.\<close>

datatype 'x qop = Put nat 'x | Take

fun run_queue ::
  "(nat \<Rightarrow> 'x \<Rightarrow> 's \<Rightarrow> 's option) \<Rightarrow> ('s \<Rightarrow> ('x option \<times> 's) option) \<Rightarrow> 'x qop list \<Rightarrow> 's \<Rightarrow>
   ('x option list \<times> 's) option" where
  "run_queue enq deq [] s = Some ([], s)"
| "run_queue enq deq (Put a x # ops) s =
     (case enq a x s of None \<Rightarrow> None | Some s1 \<Rightarrow> run_queue enq deq ops s1)"
| "run_queue enq deq (Take # ops) s =
     (case deq s of None \<Rightarrow> None | Some (r, s1) \<Rightarrow>
        (case run_queue enq deq ops s1 of None \<Rightarrow> None | Some (rs, s2) \<Rightarrow> Some (r # rs, s2)))"

fun run_list :: "'x qop list \<Rightarrow> 'x list \<Rightarrow> 'x option list \<times> 'x list" where
  "run_list [] q = ([], q)"
| "run_list (Put a x # ops) q = run_list ops (q @ [x])"
| "run_list (Take # ops) [] = (let (rs, q) = run_list ops [] in (None # rs, q))"
| "run_list (Take # ops) (x # q) = (let (rs, q') = run_list ops q in (Some x # rs, q'))"

fun put_addrs :: "'x qop list \<Rightarrow> nat list" where
  "put_addrs [] = []"
| "put_addrs (Put a x # ops) = a # put_addrs ops"
| "put_addrs (Take # ops) = put_addrs ops"

locale fifo =
  fixes rep :: "'s \<Rightarrow> 'x list \<Rightarrow> bool"
    and fresh :: "'s \<Rightarrow> nat \<Rightarrow> bool"
    and enq :: "nat \<Rightarrow> 'x \<Rightarrow> 's \<Rightarrow> 's option"
    and deq :: "'s \<Rightarrow> ('x option \<times> 's) option"
  assumes enq_law: "rep s q \<Longrightarrow> fresh s a \<Longrightarrow>
      \<exists>s'. enq a x s = Some s' \<and> rep s' (q @ [x]) \<and> (\<forall>b. b \<noteq> a \<longrightarrow> fresh s b \<longrightarrow> fresh s' b)"
    and deq_nil: "rep s [] \<Longrightarrow> deq s = Some (None, s)"
    and deq_cons: "rep s (x # q) \<Longrightarrow>
      \<exists>s'. deq s = Some (Some x, s') \<and> rep s' q \<and> (\<forall>b. fresh s b \<longrightarrow> fresh s' b)"
begin

lemma refines_list:
  assumes "rep s q" "distinct (put_addrs ops)" "\<forall>a \<in> set (put_addrs ops). fresh s a"
  shows "\<exists>s'. run_queue enq deq ops s = Some (fst (run_list ops q), s') \<and> rep s' (snd (run_list ops q))"
  using assms
proof (induction ops q arbitrary: s rule: run_list.induct)
  case (1 q)
  then show ?case by simp
next
  case (2 a x ops q)
  obtain s' where s': "enq a x s = Some s'" "rep s' (q @ [x])" "\<forall>b. b \<noteq> a \<longrightarrow> fresh s b \<longrightarrow> fresh s' b"
    using enq_law[OF "2.prems"(1), of a x] "2.prems"(3) by auto
  have "\<forall>b \<in> set (put_addrs ops). fresh s' b" using "2.prems"(2,3) s'(3) by auto
  with "2.IH"[OF s'(2)] "2.prems"(2) s'(1) show ?case by simp
next
  case (3 ops)
  from "3.IH"[OF "3.prems"(1)] "3.prems"(2,3) obtain s' where
    "run_queue enq deq ops s = Some (fst (run_list ops []), s')" "rep s' (snd (run_list ops []))" by auto
  with deq_nil[OF "3.prems"(1)] show ?case by (simp add: case_prod_beta)
next
  case (4 ops x q)
  obtain s1 where s1: "deq s = Some (Some x, s1)" "rep s1 q" "\<forall>b. fresh s b \<longrightarrow> fresh s1 b"
    using deq_cons[OF "4.prems"(1)] by auto
  with "4.IH"[OF s1(2)] "4.prems"(2,3) obtain s' where
    "run_queue enq deq ops s1 = Some (fst (run_list ops q), s')" "rep s' (snd (run_list ops q))" by auto
  with s1(1) show ?case by (simp add: case_prod_beta)
qed

end

lemma map_job_val:
  assumes "a \<notin> set as" "\<And>b. b \<noteq> a \<Longrightarrow> job_val s' b = job_val s b"
  shows "map (job_val s') as = map (job_val s) as"
  using assms by (intro map_cong) metis+

lemma put_job_law:
  assumes "queue_rep s q" "jheap s a = None"
  shows "\<exists>s'. put_job a x s = Some s' \<and> queue_rep s' (q @ [x]) \<and>
    (\<forall>b. b \<noteq> a \<longrightarrow> jheap s b = None \<longrightarrow> jheap s' b = None)"
proof -
  obtain as where as: "queue_ok s as" "map (job_val s) as = q" using assms(1) by (auto simp: queue_rep_def)
  obtain s' where s': "enqueue (Some a) (fst x) (snd x) s = Some s'" "queue_ok s' (as @ [a])"
    "\<And>b. b \<noteq> a \<Longrightarrow> jheap s' b = None \<longleftrightarrow> jheap s b = None"
    "\<And>b. b \<noteq> a \<Longrightarrow> job_val s' b = job_val s b" "job_val s' a = (fst x, snd x)"
    using enqueue_ok[OF as(1) assms(2)] by metis
  have "a \<notin> set as" using queue_ok_alloc[OF as(1)] assms(2) by blast
  then have "map (job_val s') as = q" using map_job_val[OF _ s'(4)] as(2) by blast
  then have "map (job_val s') (as @ [a]) = q @ [x]" using s'(5) by simp
  with s' show ?thesis unfolding put_job_def queue_rep_def by blast
qed

lemma take_job_law:
  assumes "queue_rep s (x # q)"
  shows "\<exists>s'. take_job s = Some (Some x, s') \<and> queue_rep s' q \<and> (\<forall>b. jheap s b = None \<longrightarrow> jheap s' b = None)"
proof -
  obtain as where as: "queue_ok s as" "map (job_val s) as = x # q" using assms by (auto simp: queue_rep_def)
  then obtain a bs where ab: "as = a # bs" "job_val s a = x" "map (job_val s) bs = q" by auto
  obtain s' where s': "dequeue s = Some (Some a, s')" "queue_ok s' bs" "jheap s' = jheap s"
    using dequeue_ok as(1) ab(1) by metis
  with ab have "take_job s = Some (Some x, s')" "map (job_val s') bs = q" by (simp_all add: take_job_def)
  with s' show ?thesis unfolding queue_rep_def by fastforce
qed

interpretation jobs: fifo queue_rep "\<lambda>s a. jheap s a = None" put_job take_job
proof unfold_locales
  fix s assume "queue_rep s []"
  then show "take_job s = Some (None, s)" by (auto simp: queue_rep_def take_job_def dequeue_empty)
qed (use put_job_law take_job_law in blast)+

lemma empty_queue_rep: "queue_rep empty_queue []"
  by (simp add: queue_rep_def queue_ok_def empty_queue_def)

text \<open>C19: The job queue is first in, first out: any sequence of enqueue and dequeue calls on the
  linked list, with a fresh node from malloc for each enqueue, never follows a null or dangling
  pointer and gives exactly what the same sequence gives on an abstract list queue, dequeues
  from the empty queue included.\<close>

theorem queue_is_fifo:
  assumes "distinct (put_addrs ops)"
  shows "\<exists>s. run_queue put_job take_job ops empty_queue = Some (fst (run_list ops []), s) \<and>
    queue_rep s (snd (run_list ops []))"
  by (rule jobs.refines_list[OF empty_queue_rep assms]) (simp add: empty_queue_def)

theorem queue_is_fifo_witness:
  "\<exists>s. run_queue put_job take_job [Put 1 (''a'', 10), Put 2 (''b'', 20), Take, Take, Take] empty_queue =
     Some ([Some (''a'', 10), Some (''b'', 20), None], s)"
  using queue_is_fifo[of "[Put 1 (''a'', 10), Put 2 (''b'', 20), Take, Take, Take]"] by auto

end
