(* ===== verification/Job_Worker.thy ===== *)
theory Job_Worker
  imports C_Text
begin

text \<open>
  \<open>worker.c\<close> without its threads: updating a counter file, running one command, taking a job
  string apart and running it, and the statistics. The file system is a map from names to
  contents; a file that exists can be opened. \<open>slept\<close> records the arguments of \<open>usleep\<close>.
\<close>

section \<open>Counter files\<close>

type_synonym files = "string \<Rightarrow> string option"

record osys =
  files :: files
  slept :: "int list"

definition counter_name :: "nat \<Rightarrow> string" where
  "counter_name i = ''count'' @ dec02 i @ ''.txt''"

text \<open>
  The file is opened for update: the new number is written over the start of the old text, and
  the file is cut behind it.
\<close>

definition update_counter :: "cint \<Rightarrow> int \<Rightarrow> files \<Rightarrow> files" where
  "update_counter i delta fs =
     (if i < 0 \<or> i \<ge> 100 then fs
      else (case fs (counter_name (nat i)) of None \<Rightarrow> fs
            | Some t \<Rightarrow>
                (let val = to_ll (get_ll t + delta);
                     w = dec val;
                     written = w @ drop (length w) t
                 in fs(counter_name (nat i) \<mapsto> take (length w) written))))"

text \<open>\<open>create_counters\<close> of \<open>dispatcher.c\<close>.\<close>

definition create_counters :: "cint \<Rightarrow> files \<Rightarrow> files" where
  "create_counters n fs = foldl (\<lambda>fs i. fs(counter_name i \<mapsto> ''0'')) fs [0..<nat n]"

section \<open>Commands\<close>

definition MAX_LINE :: nat where
  "MAX_LINE = 1024"

text \<open>\<open>strncpy\<close> into a buffer of \<open>MAX_LINE\<close> bytes and a null byte at its end.\<close>

definition line_copy :: "string \<Rightarrow> string" where
  "line_copy s = take (MAX_LINE - 1) s"

definition run_cmd :: "string \<Rightarrow> osys \<Rightarrow> osys" where
  "run_cmd cmd s =
     (let (operator, r) = strtok blank (line_copy cmd); (arg, _) = strtok blank r in
      case operator of None \<Rightarrow> s
      | Some opr \<Rightarrow>
          (let val = (case arg of None \<Rightarrow> 0 | Some a \<Rightarrow> atoi a) in
           if opr = ''msleep'' \<and> val > 0 then s\<lparr>slept := slept s @ [to_cint (val * 1000)]\<rparr>
           else if opr = ''increment'' \<and> arg \<noteq> None then s\<lparr>files := update_counter val 1 (files s)\<rparr>
           else if opr = ''decrement'' \<and> arg \<noteq> None then s\<lparr>files := update_counter val (- 1) (files s)\<rparr>
           else s))"

text \<open>The loop that splits the job at semicolons into at most \<open>n\<close> commands.\<close>

fun split_cmds :: "nat \<Rightarrow> string \<Rightarrow> string list" where
  "split_cmds 0 s = []"
| "split_cmds (Suc n) s =
     (case strtok (\<lambda>c. c = CHR '';'') s of
        (None, _) \<Rightarrow> [] | (Some t, r) \<Rightarrow> dropWhile blank t # split_cmds n r)"

definition job_cmds :: "string \<Rightarrow> string list" where
  "job_cmds job = split_cmds 100 (line_copy job)"

definition repeat_times :: "string \<Rightarrow> cint" where
  "repeat_times c = (case scan_int (drop 6 c) of None \<Rightarrow> 0 | Some n \<Rightarrow> n)"

fun run_cmds :: "string list \<Rightarrow> osys \<Rightarrow> osys" where
  "run_cmds [] s = s"
| "run_cmds (c # cs) s =
     (if has_prefix ''repeat'' c
      then ((\<lambda>s. foldl (\<lambda>s d. run_cmd d s) s cs) ^^ nat (repeat_times c)) s
      else run_cmds cs (run_cmd c s))"

definition process_job :: "string \<Rightarrow> osys \<Rightarrow> osys" where
  "process_job job s = run_cmds (job_cmds job) s"

section \<open>Statistics\<close>

record stats =
  stats_sum :: int
  stats_min :: int
  stats_max :: int
  stats_count :: int

definition no_stats :: stats where
  "no_stats = \<lparr>stats_sum = 0, stats_min = 0, stats_max = 0, stats_count = 0\<rparr>"

definition update_stats :: "int \<Rightarrow> stats \<Rightarrow> stats" where
  "update_stats turnaround st =
     \<lparr>stats_sum = to_ll (stats_sum st + turnaround),
      stats_min = (if stats_count st = 0 \<or> turnaround < stats_min st then turnaround else stats_min st),
      stats_max = (if turnaround > stats_max st then turnaround else stats_max st),
      stats_count = to_ll (stats_count st + 1)\<rparr>"

text \<open>
  \<open>write_stats\<close>; \<open>show_avg\<close> stands for the division of doubles and \<open>%f\<close>.
\<close>

definition write_stats :: "(int \<Rightarrow> int \<Rightarrow> string) \<Rightarrow> int \<Rightarrow> stats \<Rightarrow> files \<Rightarrow> files" where
  "write_stats show_avg total_time st fs = fs(''stats.txt'' \<mapsto>
     ''total running time: '' @ dec total_time @ '' milliseconds'' @ [newline] @
     ''sum of jobs turnaround time: '' @ dec (stats_sum st) @ '' milliseconds'' @ [newline] @
     ''min job turnaround time: '' @ dec (stats_min st) @ '' milliseconds'' @ [newline] @
     ''average job turnaround time: '' @
        (if stats_count st > 0 then show_avg (stats_sum st) (stats_count st) else ''0.000000'') @
        '' milliseconds'' @ [newline] @
     ''max job turnaround time: '' @ dec (stats_max st) @ '' milliseconds'' @ [newline])"

section \<open>Counter files: names and values\<close>

lemma digits_val_Cons0: "digits_val (CHR ''0'' # ds) = digits_val ds"
  by (simp add: digits_val_def digit_val_def)

lemma counter_name_inj [simp]: "counter_name i = counter_name j \<longleftrightarrow> i = j"
proof
  assume "counter_name i = counter_name j"
  then have "dec02 i = dec02 j" by (simp add: counter_name_def)
  then have "digits_val (dec02 i) = digits_val (dec02 j)" by simp
  moreover have "digits_val (dec02 k) = int k" for k
    using nat_digits_correct[of k] by (simp add: dec02_def digits_val_Cons0)
  ultimately show "i = j" by simp
qed simp

lemma update_counter_at:
  assumes "0 \<le> i" "i < 100" "fs (counter_name (nat i)) = Some t"
  shows "update_counter i d fs = fs(counter_name (nat i) \<mapsto> dec (to_ll (get_ll t + d)))"
  using assms by (simp add: update_counter_def Let_def)

lemma update_counter_other: "0 \<le> i \<Longrightarrow> k \<noteq> counter_name (nat i) \<Longrightarrow> update_counter i d fs k = fs k"
  by (simp add: update_counter_def Let_def split: option.splits)

lemma update_counter_outside: "i < 0 \<or> 100 \<le> i \<Longrightarrow> update_counter i d fs = fs"
  by (auto simp: update_counter_def)

lemma update_counter_dom: "update_counter i d fs k = None \<longleftrightarrow> fs k = None"
  by (auto simp: update_counter_def Let_def split: option.splits)

text \<open>What a command does to the counters: \<open>Some (i, d)\<close> adds \<open>d\<close> to counter \<open>i\<close>.\<close>

definition cmd_update :: "string \<Rightarrow> (cint \<times> int) option" where
  "cmd_update cmd =
     (let (operator, r) = strtok blank (line_copy cmd); (arg, _) = strtok blank r in
      case (operator, arg) of
        (Some opr, Some a) \<Rightarrow> if opr = ''increment'' then Some (atoi a, 1)
                              else if opr = ''decrement'' then Some (atoi a, - 1) else None
      | _ \<Rightarrow> None)"

lemma run_cmd_files:
  "files (run_cmd cmd s) =
     (case cmd_update cmd of None \<Rightarrow> files s | Some (i, d) \<Rightarrow> update_counter i d (files s))"
  by (auto simp: run_cmd_def cmd_update_def Let_def split: prod.splits option.splits)

lemma cmd_update_unit: "cmd_update cmd = Some (i, d) \<Longrightarrow> d = 1 \<or> d = - 1"
  by (auto simp: cmd_update_def Let_def split: prod.splits option.splits if_splits)

text \<open>The amount a list of commands adds to counter \<open>c\<close>.\<close>

definition delta :: "nat \<Rightarrow> string \<Rightarrow> int" where
  "delta c cmd = (case cmd_update cmd of None \<Rightarrow> 0 | Some (i, d) \<Rightarrow> if i = int c then d else 0)"

definition total_delta :: "nat \<Rightarrow> string list \<Rightarrow> int" where
  "total_delta c cmds = sum_list (map (delta c) cmds)"

lemma total_delta_simps [simp]:
  "total_delta c [] = 0" "total_delta c (cmd # cs) = delta c cmd + total_delta c cs"
  "total_delta c (xs @ ys) = total_delta c xs + total_delta c ys"
  by (simp_all add: total_delta_def)

lemma delta_bound: "\<bar>delta c cmd\<bar> \<le> 1"
  using cmd_update_unit[of cmd] by (auto simp: delta_def split: option.splits prod.splits)

lemma total_delta_bound: "\<bar>total_delta c cs\<bar> \<le> int (length cs)"
proof (induction cs)
  case (Cons cmd cs)
  then show ?case using delta_bound[of c cmd] by simp
qed simp

text \<open>A counter file that holds \<open>v\<close> holds \<open>v\<close> plus the command's amount afterwards.\<close>

lemma run_cmd_counter:
  assumes "files s (counter_name c) = Some (dec v)" "c < 100" "\<bar>v\<bar> < 9223372036854775807"
  shows "files (run_cmd cmd s) (counter_name c) = Some (dec (v + delta c cmd))"
proof (cases "cmd_update cmd")
  case None
  then show ?thesis using assms(1) by (simp add: run_cmd_files delta_def)
next
  case (Some p)
  obtain i d where id: "cmd_update cmd = Some (i, d)" using Some by (cases p) simp
  have g: "get_ll (dec v) = v" using assms(3) by (intro ll.get_put) auto
  have v: "to_ll (v + d) = v + d" using assms(3) cmd_update_unit[OF id] by (intro to_ll_id) auto
  show ?thesis
  proof (cases "i = int c")
    case True
    then show ?thesis using assms g v by (simp add: run_cmd_files id delta_def update_counter_at)
  next
    case False
    then show ?thesis
      using assms(1) update_counter_other[of i "counter_name c" d "files s"] update_counter_outside[of i d "files s"]
      by (cases "i < 0") (auto simp: run_cmd_files id delta_def)
  qed
qed

lemma run_list_counter:
  assumes "files s (counter_name c) = Some (dec v)" "c < 100" "\<bar>v\<bar> + int (length cs) < 9223372036854775807"
  shows "files (foldl (\<lambda>s d. run_cmd d s) s cs) (counter_name c) = Some (dec (v + total_delta c cs))"
  using assms
proof (induction cs arbitrary: s v)
  case (Cons cmd cs)
  have "files (run_cmd cmd s) (counter_name c) = Some (dec (v + delta c cmd))"
    using Cons.prems by (intro run_cmd_counter) auto
  from Cons.IH[OF this] Cons.prems delta_bound[of c cmd] show ?case by (simp add: add.assoc)
qed simp

section \<open>The commands a job runs\<close>

text \<open>Specification: the commands in the order they run, with the repetition unfolded.\<close>

fun expand :: "string list \<Rightarrow> string list" where
  "expand [] = []"
| "expand (c # cs) =
     (if has_prefix ''repeat'' c then concat (replicate (nat (repeat_times c)) cs) else c # expand cs)"

lemma run_cmds_expand: "run_cmds cs s = foldl (\<lambda>s d. run_cmd d s) s (expand cs)"
proof -
  have rep: "((\<lambda>s. foldl (\<lambda>s d. run_cmd d s) s cs) ^^ n) s = foldl (\<lambda>s d. run_cmd d s) s (concat (replicate n cs))"
    for n cs s
  proof (induction n arbitrary: s)
    case (Suc n)
    then show ?case by (simp add: funpow_Suc_right del: funpow.simps)
  qed simp
  show ?thesis by (induction cs arbitrary: s) (simp_all add: rep)
qed

lemma length_split_cmds: "length (split_cmds n s) \<le> n"
  by (induction n s rule: split_cmds.induct) (auto split: prod.splits option.splits)

text \<open>C20: Running a job is running, in order, the list of its commands with the repetition
  unfolded, and for each of the 100 counters whose file holds a number, the file afterwards
  holds that number plus the increments minus the decrements of this counter in that list, as
  long as no sum can leave 64 bits.\<close>

theorem job_counts:
  assumes "files s (counter_name c) = Some (dec v)" "c < 100"
    and "\<bar>v\<bar> + int (length (expand (job_cmds job))) < 9223372036854775807"
  shows "process_job job s = foldl (\<lambda>s d. run_cmd d s) s (expand (job_cmds job)) \<and>
    files (process_job job s) (counter_name c) = Some (dec (v + total_delta c (expand (job_cmds job))))"
  using run_list_counter[OF assms] by (simp add: process_job_def run_cmds_expand)

theorem job_counts_witness:
  "files (process_job ''increment 7; repeat 3; decrement 7;increment 8'' \<lparr>files = (create_counters 10 (\<lambda>_. None)), slept = []\<rparr>)
     (counter_name 7) = Some (dec (- 2))"
proof -
  have e: "expand (job_cmds ''increment 7; repeat 3; decrement 7;increment 8'') =
    [''increment 7'', ''decrement 7'', ''increment 8'', ''decrement 7'', ''increment 8'', ''decrement 7'', ''increment 8'']"
    "dec 0 = ''0''" by code_simp+
  have d: "total_delta 7 [''increment 7'', ''decrement 7'', ''increment 8'', ''decrement 7'', ''increment 8'', ''decrement 7'', ''increment 8''] = - 2"
    by code_simp
  have "create_counters 10 (\<lambda>_. None) (counter_name 7) = Some (dec 0)"
    by (simp add: create_counters_def e(2) upt_rec[of _ 10])
  then show ?thesis
    using job_counts[of "\<lparr>files = (create_counters 10 (\<lambda>_. None)), slept = []\<rparr>" 7 0
        "''increment 7; repeat 3; decrement 7;increment 8''", THEN conjunct2]
    unfolding e(1) d by simp
qed

section \<open>Splitting at semicolons\<close>

fun pieces :: "char \<Rightarrow> string \<Rightarrow> string list" where
  "pieces d [] = [[]]"
| "pieces d (c # s) = (if c = d then [] # pieces d s
     else (case pieces d s of [] \<Rightarrow> [[c]] | p # ps \<Rightarrow> (c # p) # ps))"

lemma pieces_ne: "pieces d s \<noteq> []"
  by (induction s) (auto split: list.splits)

lemma pieces_skip: "filter (\<lambda>p. p \<noteq> []) (pieces d (dropWhile (\<lambda>c. c = d) s)) = filter (\<lambda>p. p \<noteq> []) (pieces d s)"
  by (induction s) auto

lemma pieces_first:
  "pieces d s = takeWhile (\<lambda>c. c \<noteq> d) s # (case dropWhile (\<lambda>c. c \<noteq> d) s of [] \<Rightarrow> [] | _ # r \<Rightarrow> pieces d r)"
  by (induction s) auto

text \<open>The tokens of strtok are the non-empty pieces between semicolons: the commands of a job
  are the first 100 of them, from the first 1023 bytes, with leading blanks removed.\<close>

lemma job_cmds_pieces:
  "split_cmds n s = map (dropWhile blank) (take n (filter (\<lambda>p. p \<noteq> []) (pieces CHR '';'' s))) \<and>
   job_cmds s = map (dropWhile blank) (take 100 (filter (\<lambda>p. p \<noteq> []) (pieces CHR '';'' (take 1023 s))))"
proof -
  have sp: "split_cmds n s = map (dropWhile blank) (take n (filter (\<lambda>p. p \<noteq> []) (pieces CHR '';'' s)))" for n s
  proof (induction n s rule: split_cmds.induct)
    case (2 n s)
    define t where "t = dropWhile (\<lambda>c. c = CHR '';'') s"
    have sk: "filter (\<lambda>p. p \<noteq> []) (pieces CHR '';'' s) = filter (\<lambda>p. p \<noteq> []) (pieces CHR '';'' t)"
      by (simp add: t_def pieces_skip)
    show ?case
    proof (cases "t = []")
      case True
      then show ?thesis unfolding sk by (simp add: strtok_def Let_def flip: t_def)
    next
      case False
      then obtain c u where t: "t = c # u" by (cases t) auto
      have "c \<noteq> CHR '';''" using hd_dropWhile[of "\<lambda>c. c = CHR '';''" s] False t by (simp flip: t_def)
      note c = t this
      let ?tok = "takeWhile (\<lambda>c. c \<noteq> CHR '';'') t" and ?r = "drop 1 (dropWhile (\<lambda>c. c \<noteq> CHR '';'') t)"
      have st: "strtok (\<lambda>c. c = CHR '';'') s = (Some ?tok, ?r)" using False by (simp add: strtok_def Let_def flip: t_def)
      have ne: "?tok \<noteq> []" using c by simp
      have "filter (\<lambda>p. p \<noteq> []) (pieces CHR '';'' t) = ?tok # filter (\<lambda>p. p \<noteq> []) (pieces CHR '';'' ?r)"
      proof (cases "dropWhile (\<lambda>c. c \<noteq> CHR '';'') t")
        case Nil
        then have "pieces CHR '';'' t = [?tok]" by (subst pieces_first) (simp only: list.case)
        with Nil ne show ?thesis by (simp only: drop_Nil pieces.simps filter.simps if_True if_False simp_thms)
      next
        case (Cons x r)
        then have "pieces CHR '';'' t = ?tok # pieces CHR '';'' ?r" by (subst pieces_first) simp
        with ne show ?thesis by (simp only: filter.simps if_True simp_thms)
      qed
      then show ?thesis unfolding sk using "2.IH"[OF st[symmetric] refl] by (simp add: st)
    qed
  qed simp
  show ?thesis using sp[of n s] sp[of 100 "take 1023 s"] by (simp add: job_cmds_def line_copy_def MAX_LINE_def)
qed

section \<open>Statistics\<close>

lemma Min_snoc: "Min (set (xs @ [x])) = (if xs = [] \<or> x < Min (set xs) then x else Min (set xs))" for x :: int
proof (cases "xs = []")
  case False
  define y where "y = Min (set xs)"
  have "Min (insert x (set xs)) = min x y" unfolding y_def using False by (intro Min_insert) auto
  then have "Min (set (xs @ [x])) = min x y" by simp
  with False show ?thesis unfolding y_def[symmetric] by (simp add: min_def)
qed simp

lemma Max_snoc: "Max (set (xs @ [x])) = (if xs = [] \<or> x > Max (set xs) then x else Max (set xs))" for x :: int
proof (cases "xs = []")
  case False
  define y where "y = Max (set xs)"
  have "Max (insert x (set xs)) = max x y" unfolding y_def using False by (intro Max_insert) auto
  then have "Max (set (xs @ [x])) = max x y" by simp
  with False show ?thesis unfolding y_def[symmetric] by (simp add: max_def)
qed simp

text \<open>The statistics after any sequence of finished jobs with turnaround times that are not
  negative and whose sum fits 64 bits: sum, number, minimum and maximum of these times, the
  minimum and maximum of no jobs being 0.\<close>

lemma stats_correct:
  assumes "\<forall>t \<in> set ts. 0 \<le> t" "sum_list ts < 9223372036854775808" "int (length ts) < 9223372036854775808"
  shows "foldl (\<lambda>st t. update_stats t st) no_stats ts =
    \<lparr>stats_sum = sum_list ts, stats_min = (if ts = [] then 0 else Min (set ts)),
     stats_max = (if ts = [] then 0 else Max (set ts)), stats_count = int (length ts)\<rparr>"
  using assms
proof (induction ts rule: rev_induct)
  case Nil
  then show ?case by (simp add: no_stats_def)
next
  case (snoc t ts)
  have nn: "0 \<le> sum_list ts" using snoc.prems(1) by (intro sum_list_nonneg) auto
  have t: "0 \<le> t" using snoc.prems(1) by simp
  have IH: "foldl (\<lambda>st t. update_stats t st) no_stats ts =
    \<lparr>stats_sum = sum_list ts, stats_min = (if ts = [] then 0 else Min (set ts)),
     stats_max = (if ts = [] then 0 else Max (set ts)), stats_count = int (length ts)\<rparr>"
    using snoc.prems t by (intro snoc.IH) auto
  have ll: "to_ll (sum_list ts + t) = sum_list ts + t" "to_ll (int (length ts) + 1) = int (length ts) + 1"
    using snoc.prems nn t by (auto intro!: to_ll_id)
  have mn: "Min (set (ts @ [t])) = (if ts = [] \<or> t < Min (set ts) then t else Min (set ts))" by (rule Min_snoc)
  have mx: "Max (set (ts @ [t])) = (if ts = [] \<or> t > Max (set ts) then t else Max (set ts))" by (rule Max_snoc)
  define lo hi where "lo = Min (set ts)" and "hi = Max (set ts)"
  have "foldl (\<lambda>st t. update_stats t st) no_stats (ts @ [t]) =
    \<lparr>stats_sum = sum_list ts + t, stats_min = (if ts = [] \<or> t < lo then t else lo),
     stats_max = (if ts = [] \<or> t > hi then t else hi), stats_count = int (length ts) + 1\<rparr>"
    using IH ll t unfolding lo_def[symmetric] hi_def[symmetric] by (simp add: update_stats_def)
  then show ?case unfolding mn mx lo_def hi_def by (simp add: add.commute)
qed

lemma stats_correct_witness:
  "foldl (\<lambda>st t. update_stats t st) no_stats [30, 10, 20] =
    \<lparr>stats_sum = 60, stats_min = 10, stats_max = 30, stats_count = 3\<rparr>"
  using stats_correct[of "[30, 10, 20]"] by simp

end
