(* ===== verification/Job_Dispatcher.thy ===== *)
theory Job_Dispatcher
  imports Job_Queue Job_Worker
begin

text \<open>
  \<open>dispatcher.c\<close>: reading the command file line by line into actions, the configuration, and
  the data of the running program, which \<open>Job_System\<close> makes a step relation of.
\<close>

section \<open>Reading the command file\<close>

text \<open>\<open>fgets\<close> with a buffer of \<open>MAX_LINE\<close> bytes: the line with its newline, or a part of it.\<close>

definition fgets :: "string \<Rightarrow> string \<times> string" where
  "fgets s =
     (let l = takeWhile (\<lambda>c. c \<noteq> newline) s in
      if length l < MAX_LINE - 1 \<and> length l < length s
      then (l @ [newline], drop (Suc (length l)) s)
      else (take (MAX_LINE - 1) s, drop (MAX_LINE - 1) s))"

function fgets_lines :: "string \<Rightarrow> string list" where
  "fgets_lines s = (if s = [] then [] else fst (fgets s) # fgets_lines (snd (fgets s)))"
  by pat_completeness auto
termination
  by (relation "measure length") (auto simp: fgets_def Let_def MAX_LINE_def)

declare fgets_lines.simps [simp del]

datatype action = Skip | Submit string | Usleep int | WaitAll | Ignored

text \<open>The body of the loop of \<open>process_commands\<close>: what one line asks for.\<close>

definition parse_line :: "string \<Rightarrow> action" where
  "parse_line bytes =
     (let line = c_str bytes;
          line1 = (if line \<noteq> [] \<and> last line = newline then butlast line else line);
          p = skip_space line1
      in if line1 = [] then Skip
         else if has_prefix ''worker'' p then Submit (skip_space (drop 6 p))
         else if has_prefix ''dispatcher_msleep'' p
              then Usleep (to_cint ((case scan_int (drop 17 p) of None \<Rightarrow> 0 | Some ms \<Rightarrow> ms) * 1000))
         else if has_prefix ''dispatcher_wait'' p then WaitAll
         else Ignored)"

definition file_actions :: "string \<Rightarrow> action list" where
  "file_actions body = map parse_line (fgets_lines body)"

text \<open>Milliseconds since the start, from the two fields of the time of day.\<close>

definition get_time_ms :: "int \<Rightarrow> int \<Rightarrow> int \<Rightarrow> int" where
  "get_time_ms tv_sec tv_usec start_time = to_ll (tv_sec * 1000 + tv_usec div 1000 - start_time)"

section \<open>The state of the program\<close>

text \<open>
  A worker is about to lock the queue and test it, blocked in \<open>pthread_cond_wait\<close>, running the
  commands it has left of the job at an address, about to update the statistics, about to
  announce the end of the job, or gone. The dispatcher has actions left (and tests, with none
  left, whether it may end), is blocked on \<open>done_cond\<close>, joins the workers, or has ended.
\<close>

datatype worker = WTest | WBlocked | WRun nat "string list" | WStats nat | WDone nat | WExit

datatype dispatcher = DRun "action list" | DBlocked "action list" | DJoin | DEnd

record jsys =
  jqueue :: jobq
  active_jobs :: cint
  done_flag :: bool
  jstats :: stats
  jos :: osys
  disp :: dispatcher
  workers :: "worker list"

text \<open>
  The threads: each starts with its number, at the top of its loop; \<open>join_workers\<close> returns when
  the last of them has returned. A thread's number is its place in the list.
\<close>

definition init_workers :: "cint \<Rightarrow> worker list" where
  "init_workers n = map (\<lambda>i. WTest) [0..<nat n]"

definition join_workers :: "worker list \<Rightarrow> bool" where
  "join_workers ws \<longleftrightarrow> list_all (\<lambda>w. w = WExit) ws"

lemma init_workers_replicate [simp]: "init_workers n = replicate (nat n) WTest"
  by (simp add: init_workers_def map_replicate_const)

lemma join_workers_all [simp]: "join_workers ws \<longleftrightarrow> (\<forall>w \<in> set ws. w = WExit)"
  by (simp add: join_workers_def list_all_iff)

text \<open>
  \<open>main\<close> up to the call of \<open>process_commands\<close>: the number of threads and counters is cut at
  4096 and 100; \<open>create_counters\<close> and \<open>init_workers\<close> run.
\<close>

definition job_main :: "string \<Rightarrow> string \<Rightarrow> string \<Rightarrow> files \<Rightarrow> jsys" where
  "job_main cmdfile_text threads_arg counters_arg fs =
     (let num_threads = min 4096 (atoi threads_arg);
          num_counters = min 100 (atoi counters_arg)
      in \<lparr>jqueue = empty_queue, active_jobs = 0, done_flag = False, jstats = no_stats,
          jos = \<lparr>files = create_counters num_counters fs, slept = []\<rparr>,
          disp = DRun (file_actions cmdfile_text), workers = init_workers num_threads\<rparr>)"

section \<open>The lines of the file\<close>







end
