(* ===== verification/Job_System.thy ===== *)
theory Job_System
  imports Job_Dispatcher "HOL-Library.Multiset"
begin

text \<open>
  The dispatcher and its workers as a step relation: one step is what a thread does while it
  holds one of the mutexes, or one command of a job. \<open>jstep\<close> leaves out the spurious wakeups
  that POSIX allows; \<open>jspurious\<close> adds them. The addresses malloc returns and the times of day
  are arbitrary. The invariant \<open>jinv\<close> relates the queue, \<open>active_jobs\<close> and the workers
  (interpretation \<open>jobsys\<close> of \<open>invariant_machine\<close>).
\<close>

section \<open>Steps\<close>

text \<open>\<open>pthread_cond_signal(&queue_cond)\<close>: one blocked worker, if any, goes on to test again.\<close>

definition signal_queue :: "worker list \<Rightarrow> worker list \<Rightarrow> bool" where
  "signal_queue ws ws' \<longleftrightarrow> WBlocked \<notin> set ws \<and> ws' = ws \<or>
     (\<exists>xs ys. ws = xs @ WBlocked # ys \<and> ws' = xs @ WTest # ys)"

definition broadcast_queue :: "worker list \<Rightarrow> worker list" where
  "broadcast_queue ws = map (\<lambda>w. if w = WBlocked then WTest else w) ws"

text \<open>\<open>pthread_cond_signal(&done_cond)\<close>: only the dispatcher waits there.\<close>

fun signal_done :: "dispatcher \<Rightarrow> dispatcher" where
  "signal_done (DBlocked as) = DRun as"
| "signal_done d = d"

text \<open>The commands of the job at an address, in the order \<open>process_job\<close> runs them.\<close>

definition commands_at :: "jobq \<Rightarrow> nat \<Rightarrow> string list" where
  "commands_at q a = expand (job_cmds (cmd (the (jheap q a))))"

text \<open>The dispatcher: the loop of \<open>process_commands\<close>, and \<open>main\<close> after it.\<close>

inductive dstep :: "jsys \<Rightarrow> jsys \<Rightarrow> bool" where
  d_submit: "disp s = DRun (Submit c # as) \<Longrightarrow> jheap (jqueue s) a = None \<Longrightarrow>
     enqueue (Some a) c now (jqueue s) = Some q \<Longrightarrow> signal_queue (workers s) ws \<Longrightarrow>
     dstep s (s\<lparr>jqueue := q, active_jobs := to_cint (active_jobs s + 1), disp := DRun as, workers := ws\<rparr>)"
| d_usleep: "disp s = DRun (Usleep n # as) \<Longrightarrow> dstep s (s\<lparr>disp := DRun as\<rparr>)"
| d_skip: "disp s = DRun (x # as) \<Longrightarrow> x = Skip \<or> x = Ignored \<Longrightarrow> dstep s (s\<lparr>disp := DRun as\<rparr>)"
| d_wait: "disp s = DRun as \<Longrightarrow> as = [] \<or> hd as = WaitAll \<Longrightarrow> active_jobs s > 0 \<Longrightarrow>
     dstep s (s\<lparr>disp := DBlocked as\<rparr>)"
| d_pass: "disp s = DRun (WaitAll # as) \<Longrightarrow> \<not> active_jobs s > 0 \<Longrightarrow> dstep s (s\<lparr>disp := DRun as\<rparr>)"
| d_finish: "disp s = DRun [] \<Longrightarrow> \<not> active_jobs s > 0 \<Longrightarrow>
     dstep s (s\<lparr>done_flag := True, disp := DJoin, workers := broadcast_queue (workers s)\<rparr>)"
| d_join: "disp s = DJoin \<Longrightarrow> join_workers (workers s) \<Longrightarrow>
     dstep s (s\<lparr>disp := DEnd,
       jos := (jos s)\<lparr>files := write_stats show_avg total_time (jstats s) (files (jos s))\<rparr>\<rparr>)"

text \<open>A worker: the loop of \<open>worker_main\<close>.\<close>

inductive wstep :: "jsys \<Rightarrow> jsys \<Rightarrow> bool" where
  w_block: "workers s = xs @ WTest # ys \<Longrightarrow> queue_head (jqueue s) = None \<Longrightarrow> \<not> done_flag s \<Longrightarrow>
     wstep s (s\<lparr>workers := xs @ WBlocked # ys\<rparr>)"
| w_exit: "workers s = xs @ WTest # ys \<Longrightarrow> queue_head (jqueue s) = None \<Longrightarrow> done_flag s \<Longrightarrow>
     wstep s (s\<lparr>workers := xs @ WExit # ys\<rparr>)"
| w_take: "workers s = xs @ WTest # ys \<Longrightarrow> queue_head (jqueue s) \<noteq> None \<Longrightarrow>
     dequeue (jqueue s) = Some (Some a, q) \<Longrightarrow>
     wstep s (s\<lparr>jqueue := q, workers := xs @ WRun a (commands_at q a) # ys\<rparr>)"
| w_cmd: "workers s = xs @ WRun a (c # cs) # ys \<Longrightarrow>
     wstep s (s\<lparr>jos := run_cmd c (jos s), workers := xs @ WRun a cs # ys\<rparr>)"
| w_ran: "workers s = xs @ WRun a [] # ys \<Longrightarrow> wstep s (s\<lparr>workers := xs @ WStats a # ys\<rparr>)"
| w_stats: "workers s = xs @ WStats a # ys \<Longrightarrow>
     wstep s (s\<lparr>jstats := update_stats (to_ll (t_end - submit_time (the (jheap (jqueue s) a)))) (jstats s),
       workers := xs @ WDone a # ys\<rparr>)"
| w_done: "workers s = xs @ WDone a # ys \<Longrightarrow> n = to_cint (active_jobs s - 1) \<Longrightarrow>
     wstep s (s\<lparr>jqueue := free_job a (jqueue s), active_jobs := n,
       disp := (if n = 0 then signal_done (disp s) else disp s), workers := xs @ WTest # ys\<rparr>)"

inductive jstep :: "jsys \<Rightarrow> jsys \<Rightarrow> bool" where
  of_dispatcher: "dstep s t \<Longrightarrow> jstep s t"
| of_worker: "wstep s t \<Longrightarrow> jstep s t"

inductive_cases jstepE: "jstep s t"
inductive_cases dstepE: "dstep s t"
inductive_cases wstepE: "wstep s t"

lemmas j_submit = d_submit[THEN of_dispatcher]
lemmas j_usleep = d_usleep[THEN of_dispatcher]
lemmas j_skip = d_skip[THEN of_dispatcher]
lemmas j_wait = d_wait[THEN of_dispatcher]
lemmas j_pass = d_pass[THEN of_dispatcher]
lemmas j_finish = d_finish[THEN of_dispatcher]
lemmas j_join = d_join[THEN of_dispatcher]
lemmas j_block = w_block[THEN of_worker]
lemmas j_exit = w_exit[THEN of_worker]
lemmas j_take = w_take[THEN of_worker]
lemmas j_cmd = w_cmd[THEN of_worker]
lemmas j_ran = w_ran[THEN of_worker]
lemmas j_stats = w_stats[THEN of_worker]
lemmas j_done = w_done[THEN of_worker]

inductive jspurious :: "jsys \<Rightarrow> jsys \<Rightarrow> bool" where
  s_worker: "workers s = xs @ WBlocked # ys \<Longrightarrow> jspurious s (s\<lparr>workers := xs @ WTest # ys\<rparr>)"
| s_dispatcher: "disp s = DBlocked as \<Longrightarrow> jspurious s (s\<lparr>disp := DRun as\<rparr>)"

abbreviation jany :: "jsys \<Rightarrow> jsys \<Rightarrow> bool" where
  "jany s t \<equiv> jstep s t \<or> jspurious s t"

text \<open>
  The start: \<open>main\<close> has run up to \<open>process_commands\<close>, and the file has fewer than \<open>2 ^ 31\<close>
  lines, so that \<open>active_jobs\<close> cannot overflow.
\<close>

definition jstart :: "action list \<Rightarrow> nat \<Rightarrow> jsys \<Rightarrow> bool" where
  "jstart acts n s \<longleftrightarrow> jqueue s = empty_queue \<and> active_jobs s = 0 \<and> \<not> done_flag s \<and> jstats s = no_stats \<and>
     disp s = DRun acts \<and> workers s = replicate n WTest \<and> length acts < 2147483648"

section \<open>The invariant\<close>

fun busy_addr :: "worker \<Rightarrow> nat list" where
  "busy_addr (WRun a cs) = [a]"
| "busy_addr (WStats a) = [a]"
| "busy_addr (WDone a) = [a]"
| "busy_addr w = []"

definition busy :: "worker list \<Rightarrow> nat list" where
  "busy ws = concat (map busy_addr ws)"

definition testing :: "worker list \<Rightarrow> nat" where
  "testing ws = length (filter (\<lambda>w. w = WTest) ws)"

lemma busy_simps [simp]:
  "busy [] = []" "busy (w # ws) = busy_addr w @ busy ws" "busy (xs @ ys) = busy xs @ busy ys"
  by (simp_all add: busy_def)

lemma testing_simps [simp]:
  "testing [] = 0" "testing (w # ws) = (if w = WTest then 1 else 0) + testing ws"
  "testing (xs @ ys) = testing xs + testing ys"
  by (simp_all add: testing_def)

fun todo :: "dispatcher \<Rightarrow> action list" where
  "todo (DRun as) = as"
| "todo (DBlocked as) = as"
| "todo d = []"

text \<open>With the addresses \<open>qs\<close> of the queued jobs made explicit.\<close>

definition jinv_at :: "nat list \<Rightarrow> jsys \<Rightarrow> bool" where
  "jinv_at qs s \<longleftrightarrow>
     queue_ok (jqueue s) qs \<and>
     distinct (qs @ busy (workers s)) \<and>
     (\<forall>a \<in> set (busy (workers s)). jheap (jqueue s) a \<noteq> None) \<and>
     active_jobs s = int (length qs + length (busy (workers s))) \<and>
     active_jobs s + int (length (todo (disp s))) < 2147483648 \<and>
     (WBlocked \<in> set (workers s) \<longrightarrow> length qs \<le> testing (workers s)) \<and>
     (\<forall>as. disp s = DBlocked as \<longrightarrow> 0 < active_jobs s \<and> (as = [] \<or> hd as = WaitAll)) \<and>
     (done_flag s \<longleftrightarrow> disp s = DJoin \<or> disp s = DEnd) \<and>
     (done_flag s \<longrightarrow> active_jobs s = 0 \<and> WBlocked \<notin> set (workers s)) \<and>
     (\<not> done_flag s \<longrightarrow> WExit \<notin> set (workers s)) \<and>
     (disp s = DEnd \<longrightarrow> set (workers s) \<subseteq> {WExit})"

definition jinv :: "jsys \<Rightarrow> bool" where
  "jinv s \<longleftrightarrow> (\<exists>qs. jinv_at qs s)"

lemma jinv_start: "jstart acts n s \<Longrightarrow> jinv s"
proof -
  assume "jstart acts n s"
  then have "jinv_at [] s"
    by (auto simp: jstart_def jinv_at_def queue_ok_def empty_queue_def busy_def)
  then show ?thesis by (auto simp: jinv_def)
qed

lemma signal_queue_effect:
  assumes "signal_queue ws ws'"
  shows "busy ws' = busy ws" "WExit \<in> set ws' \<longleftrightarrow> WExit \<in> set ws"
    "WBlocked \<in> set ws' \<Longrightarrow> WBlocked \<in> set ws \<and> testing ws' = Suc (testing ws)"
    "length ws' = length ws"
  using assms by (auto simp: signal_queue_def)

lemma broadcast_effect:
  "busy (broadcast_queue ws) = busy ws" "WExit \<in> set (broadcast_queue ws) \<longleftrightarrow> WExit \<in> set ws"
  "WBlocked \<notin> set (broadcast_queue ws)"
proof -
  have "busy_addr (if w = WBlocked then WTest else w) = busy_addr w" for w by simp
  then show "busy (broadcast_queue ws) = busy ws" by (simp add: busy_def broadcast_queue_def comp_def cong: map_cong)
qed (auto simp: broadcast_queue_def image_iff split: if_splits)

lemma queue_head_iff: "queue_ok q qs \<Longrightarrow> queue_head q = None \<longleftrightarrow> qs = []"
  by (rule queue_ok_empty_iff)

section \<open>What is left to do\<close>

text \<open>
  The commands that are still to be run, wherever their job is; the jobs whose statistics are
  still to be taken; and a cost that every step but a spurious wakeup lowers.
\<close>

fun action_cmds :: "action \<Rightarrow> string list" where
  "action_cmds (Submit c) = expand (job_cmds c)"
| "action_cmds a = []"

fun worker_cmds :: "worker \<Rightarrow> string list" where
  "worker_cmds (WRun a cs) = cs"
| "worker_cmds w = []"

definition pending :: "nat list \<Rightarrow> jsys \<Rightarrow> string list" where
  "pending qs s = concat (map action_cmds (todo (disp s))) @ concat (map (commands_at (jqueue s)) qs) @
     concat (map worker_cmds (workers s))"

fun is_submit :: "action \<Rightarrow> bool" where
  "is_submit (Submit c) = True"
| "is_submit a = False"

definition submits :: "action list \<Rightarrow> nat" where
  "submits as = length (filter is_submit as)"

fun unfinished :: "worker \<Rightarrow> nat" where
  "unfinished (WRun a cs) = 1"
| "unfinished (WStats a) = 1"
| "unfinished w = 0"

definition jobs_left :: "nat list \<Rightarrow> jsys \<Rightarrow> nat" where
  "jobs_left qs s = submits (todo (disp s)) + length qs + sum_list (map unfinished (workers s))"

fun action_cost :: "action \<Rightarrow> nat" where
  "action_cost (Submit c) = 8"
| "action_cost a = 1"

fun worker_cost :: "worker \<Rightarrow> nat" where
  "worker_cost (WRun a cs) = 5"
| "worker_cost (WStats a) = 4"
| "worker_cost (WDone a) = 3"
| "worker_cost WTest = 1"
| "worker_cost w = 0"

fun disp_cost :: "nat \<Rightarrow> dispatcher \<Rightarrow> nat" where
  "disp_cost n (DRun as) = 3 + n"
| "disp_cost n (DBlocked as) = 2 + n"
| "disp_cost n DJoin = 1"
| "disp_cost n DEnd = 0"

definition cost :: "nat list \<Rightarrow> jsys \<Rightarrow> nat" where
  "cost qs s = length (pending qs s) + sum_list (map action_cost (todo (disp s))) + 5 * length qs +
     sum_list (map worker_cost (workers s)) + disp_cost (length (workers s)) (disp s)"

lemma signal_queue_sums:
  assumes "signal_queue ws ws'"
  shows "concat (map worker_cmds ws') = concat (map worker_cmds ws)"
    "sum_list (map unfinished ws') = sum_list (map unfinished ws)"
    "sum_list (map worker_cost ws') \<le> Suc (sum_list (map worker_cost ws))"
  using assms by (auto simp: signal_queue_def)

lemma broadcast_sums:
  "concat (map worker_cmds (broadcast_queue ws)) = concat (map worker_cmds ws)"
  "sum_list (map unfinished (broadcast_queue ws)) = sum_list (map unfinished ws)"
  "sum_list (map worker_cost (broadcast_queue ws)) \<le> sum_list (map worker_cost ws) + length ws"
  "length (broadcast_queue ws) = length ws"
  unfolding broadcast_queue_def by (induction ws) auto

text \<open>How one step changes the pending commands: none, or it runs one of them.\<close>

definition runs_pending :: "nat list \<Rightarrow> jsys \<Rightarrow> nat list \<Rightarrow> jsys \<Rightarrow> bool" where
  "runs_pending qs s qs' t \<longleftrightarrow>
     (mset (pending qs' t) = mset (pending qs s) \<and>
        (\<forall>c. files (jos t) (counter_name c) = files (jos s) (counter_name c))) \<or>
     (\<exists>c. mset (pending qs s) = add_mset c (mset (pending qs' t)) \<and> jos t = run_cmd c (jos s))"

text \<open>All that later proofs need of a step.\<close>

definition good_step :: "nat list \<Rightarrow> jsys \<Rightarrow> nat list \<Rightarrow> jsys \<Rightarrow> bool" where
  "good_step qs s qs' t \<longleftrightarrow> jinv_at qs' t \<and> runs_pending qs s qs' t \<and>
     cost qs' t < cost qs s \<and> length (workers t) = length (workers s) \<and>
     (jobs_left qs' t = jobs_left qs s \<and> jstats t = jstats s \<or>
      Suc (jobs_left qs' t) = jobs_left qs s \<and> (\<exists>x. jstats t = update_stats x (jstats s)))"

lemma good_stepI:
  assumes "jinv_at qs' t" "mset (pending qs' t) = mset (pending qs s)" "jos t = jos s"
    "cost qs' t < cost qs s" "length (workers t) = length (workers s)"
    "jobs_left qs' t = jobs_left qs s" "jstats t = jstats s"
  shows "good_step qs s qs' t"
  using assms by (simp add: good_step_def runs_pending_def)

lemma commands_at_cong: "cmd (the (jheap q' a)) = cmd (the (jheap q a)) \<Longrightarrow> commands_at q' a = commands_at q a"
  by (simp add: commands_at_def)

lemma commands_at_map:
  assumes "\<And>a. a \<in> set as \<Longrightarrow> cmd (the (jheap q' a)) = cmd (the (jheap q a))"
  shows "map (commands_at q') as = map (commands_at q) as"
  using assms by (simp add: commands_at_def)

subsection \<open>The dispatcher's steps\<close>

lemma good_submit:
  assumes inv: "jinv_at qs s" and d: "disp s = DRun (Submit c # as)" and a: "jheap (jqueue s) a = None"
    and q: "enqueue (Some a) c now (jqueue s) = Some q" and w: "signal_queue (workers s) ws"
  shows "good_step qs s (qs @ [a])
    (s\<lparr>jqueue := q, active_jobs := to_cint (active_jobs s + 1), disp := DRun as, workers := ws\<rparr>)"
    (is "good_step qs s ?qs ?t")
proof -
  note i = inv[unfolded jinv_at_def]
  obtain q' where "enqueue (Some a) c now (jqueue s) = Some q'" "queue_ok q' (qs @ [a])"
    "\<And>b. b \<noteq> a \<Longrightarrow> jheap q' b = None \<longleftrightarrow> jheap (jqueue s) b = None"
    "\<And>b. b \<noteq> a \<Longrightarrow> job_val q' b = job_val (jqueue s) b" "job_val q' a = (c, now)" "jheap q' a \<noteq> None"
    using enqueue_ok[OF conjunct1[OF i] a] by metis
  with q have e: "queue_ok q (qs @ [a])" "\<And>b. b \<noteq> a \<Longrightarrow> jheap q b = None \<longleftrightarrow> jheap (jqueue s) b = None"
    "\<And>b. b \<noteq> a \<Longrightarrow> cmd (the (jheap q b)) = cmd (the (jheap (jqueue s) b))" "cmd (the (jheap q a)) = c"
    by auto
  have aq: "a \<notin> set qs" using queue_ok_alloc[OF conjunct1[OF i]] a by blast
  have ab: "a \<notin> set (busy (workers s))" using i a by auto
  have n: "to_cint (active_jobs s + 1) = active_jobs s + 1" using i d by (intro to_cint_id) auto
  have cm: "map (commands_at q) qs = map (commands_at (jqueue s)) qs"
    by (rule commands_at_map) (use e(3) aq in metis)
  have alloc: "jheap q b \<noteq> None" if "b \<in> set (busy (workers s))" for b
  proof -
    have "b \<noteq> a" "jheap (jqueue s) b \<noteq> None" using that ab i by auto
    then show ?thesis using e(2)[of b] by simp
  qed
  have inv': "jinv_at ?qs ?t"
    unfolding jinv_at_def
  proof (intro conjI)
    show "distinct ((qs @ [a]) @ busy (workers ?t))" using i aq ab signal_queue_effect(1)[OF w] by auto
    show "\<forall>b \<in> set (busy (workers ?t)). jheap (jqueue ?t) b \<noteq> None"
      using alloc signal_queue_effect(1)[OF w] by simp
    show "WBlocked \<in> set (workers ?t) \<longrightarrow> length (qs @ [a]) \<le> testing (workers ?t)"
      using i signal_queue_effect(3)[OF w] by auto
  qed (use i d e(1) n signal_queue_effect[OF w] in auto)
  show ?thesis
  proof (rule good_stepI[OF inv'])
    show "mset (pending ?qs ?t) = mset (pending qs s)"
      using d e(4) signal_queue_sums(1)[OF w] by (simp add: pending_def cm commands_at_def)
    then have len: "length (pending ?qs ?t) = length (pending qs s)" by (metis size_mset)
    show "cost ?qs ?t < cost qs s"
      using signal_queue_sums(3)[OF w] signal_queue_effect(4)[OF w] d by (simp add: cost_def len)
    show "jobs_left ?qs ?t = jobs_left qs s"
      using d signal_queue_sums(2)[OF w] by (simp add: jobs_left_def submits_def)
  qed (use signal_queue_effect(4)[OF w] in simp_all)
qed

lemma good_move:
  assumes inv: "jinv_at qs s" and d: "todo (disp s) = ds @ as" "\<forall>x \<in> set ds. \<not> is_submit x"
    and t: "t = s\<lparr>disp := d'\<rparr>" "todo d' = as" "\<not> done_flag s" "d' \<noteq> DJoin" "d' \<noteq> DEnd"
      "\<And>bs. d' = DBlocked bs \<Longrightarrow> 0 < active_jobs s \<and> (bs = [] \<or> hd bs = WaitAll)"
    and c: "disp_cost (length (workers s)) d' < disp_cost (length (workers s)) (disp s) + length ds"
  shows "good_step qs s qs t"
proof (rule good_stepI)
  have ac: "concat (map action_cmds ds) = []" "submits ds = 0" "sum_list (map action_cost ds) = length ds"
    using d(2) by (induction ds; force simp: submits_def elim: is_submit.elims)+
  show "jinv_at qs t" using inv d(1) t by (auto simp: jinv_at_def)
  show p: "mset (pending qs t) = mset (pending qs s)" using d(1) t ac(1) by (simp add: pending_def)
  show "jobs_left qs t = jobs_left qs s" using d(1) t ac(2) by (simp add: jobs_left_def submits_def)
  have "length (pending qs t) = length (pending qs s)" using p by (metis size_mset)
  then show "cost qs t < cost qs s" using d(1) t ac(3) c by (simp add: cost_def)
qed (use t in simp_all)

lemma good_finish:
  assumes inv: "jinv_at qs s" and d: "disp s = DRun []" "\<not> active_jobs s > 0"
  shows "good_step qs s qs (s\<lparr>done_flag := True, disp := DJoin, workers := broadcast_queue (workers s)\<rparr>)"
    (is "good_step qs s qs ?t")
proof (rule good_stepI)
  have "active_jobs s = 0" using inv d(2) by (simp add: jinv_at_def)
  then show "jinv_at qs ?t" using inv d broadcast_effect by (simp add: jinv_at_def)
  show p: "mset (pending qs ?t) = mset (pending qs s)" using d by (simp add: pending_def broadcast_sums)
  have "length (pending qs ?t) = length (pending qs s)" using p by (metis size_mset)
  then show "cost qs ?t < cost qs s" using d broadcast_sums(3)[of "workers s"] by (simp add: cost_def broadcast_sums(4))
qed (use d in \<open>simp_all add: jobs_left_def broadcast_sums\<close>)

lemma good_join:
  assumes inv: "jinv_at qs s" and d: "disp s = DJoin" "\<forall>w \<in> set (workers s). w = WExit"
  shows "good_step qs s qs (s\<lparr>disp := DEnd,
       jos := (jos s)\<lparr>files := write_stats show_avg total_time (jstats s) (files (jos s))\<rparr>\<rparr>)"
  using inv d by (auto simp: good_step_def jinv_at_def runs_pending_def pending_def cost_def jobs_left_def
      write_stats_def counter_name_def)

subsection \<open>The workers' steps\<close>

text \<open>A worker moves on without touching the queue or the shared counters.\<close>

lemma good_worker:
  assumes inv: "jinv_at qs s" and w: "workers s = xs @ w # ys" "t = s\<lparr>workers := xs @ w' # ys\<rparr>"
    and same: "busy_addr w' = busy_addr w" "worker_cmds w' = worker_cmds w" "unfinished w' = unfinished w"
      "worker_cost w' < worker_cost w"
    and block: "w' = WBlocked \<Longrightarrow> qs = [] \<and> \<not> done_flag s" and test: "w = WTest \<Longrightarrow> qs = []"
    and ex: "w' = WExit \<Longrightarrow> done_flag s" and ne: "w \<noteq> WExit"
  shows "good_step qs s qs t"
proof (rule good_stepI)
  have b: "busy (workers t) = busy (workers s)" using w same(1) by simp
  have t: "jqueue t = jqueue s" "active_jobs t = active_jobs s" "disp t = disp s" "done_flag t = done_flag s"
    using w(2) by simp_all
  have nend: "disp s \<noteq> DEnd" using inv w(1) ne by (auto simp: jinv_at_def)
  have "testing (workers s) \<le> testing (workers t) \<or> qs = []" using w test by auto
  then show "jinv_at qs t"
    unfolding jinv_at_def b t using inv w block ex nend unfolding jinv_at_def by fastforce
  show p: "mset (pending qs t) = mset (pending qs s)" using w same(2) by (simp add: pending_def)
  have "length (pending qs t) = length (pending qs s)" using p by (metis size_mset)
  then show "cost qs t < cost qs s" using w same(4) by (simp add: cost_def)
  show "jobs_left qs t = jobs_left qs s" using w same(3) by (simp add: jobs_left_def)
qed (use w in simp_all)

lemma good_take:
  assumes inv: "jinv_at qs s" and w: "workers s = xs @ WTest # ys"
    and q: "queue_head (jqueue s) \<noteq> None" "dequeue (jqueue s) = Some (Some a, q)"
  shows "qs \<noteq> [] \<and> good_step qs s (tl qs) (s\<lparr>jqueue := q, workers := xs @ WRun a (commands_at q a) # ys\<rparr>)"
    (is "_ \<and> good_step qs s _ ?t")
proof -
  have qo: "queue_ok (jqueue s) qs" using inv by (simp add: jinv_at_def)
  obtain b bs where qs: "qs = b # bs" using queue_head_iff[OF qo] q(1) by (cases qs) auto
  obtain q' where "dequeue (jqueue s) = Some (Some b, q')" "queue_ok q' bs" "jheap q' = jheap (jqueue s)"
    using dequeue_ok qo qs by metis
  with q(2) have q: "b = a" "queue_ok q bs" "jheap q = jheap (jqueue s)" by auto
  have cm: "commands_at q = commands_at (jqueue s)" by (simp add: commands_at_def[abs_def] q(3))
  have al: "jheap (jqueue s) a \<noteq> None" using queue_ok_alloc[OF qo] qs q(1) by auto
  have nd: "\<not> done_flag s" "disp s \<noteq> DEnd" using inv qs by (auto simp: jinv_at_def)
  have inv': "jinv_at bs ?t" using inv w qs q al nd by (auto simp: jinv_at_def)
  have p: "mset (pending bs ?t) = mset (pending qs s)" using w qs q(1) by (simp add: pending_def cm)
  have l: "length (pending bs ?t) = length (pending qs s)" using p by (metis size_mset)
  have "good_step qs s bs ?t"
    by (rule good_stepI[OF inv' p]) (use w qs l in \<open>simp_all add: cost_def jobs_left_def\<close>)
  with qs show ?thesis by simp
qed

lemma good_cmd:
  assumes inv: "jinv_at qs s" and w: "workers s = xs @ WRun a (c # cs) # ys"
  shows "good_step qs s qs (s\<lparr>jos := run_cmd c (jos s), workers := xs @ WRun a cs # ys\<rparr>)"
    (is "good_step qs s qs ?t")
proof -
  have "jinv_at qs ?t" using inv w by (auto simp: jinv_at_def)
  moreover have "mset (pending qs s) = add_mset c (mset (pending qs ?t))" using w by (simp add: pending_def)
  moreover from this have "length (pending qs s) = Suc (length (pending qs ?t))" by (metis size_mset size_add_mset)
  then have "cost qs ?t < cost qs s" using w by (simp add: cost_def)
  ultimately show ?thesis using w by (auto simp: good_step_def runs_pending_def jobs_left_def)
qed

lemma good_stats:
  assumes inv: "jinv_at qs s" and w: "workers s = xs @ WStats a # ys"
  shows "good_step qs s qs (s\<lparr>jstats := update_stats x (jstats s), workers := xs @ WDone a # ys\<rparr>)"
    (is "good_step qs s qs ?t")
proof -
  have "jinv_at qs ?t" using inv w by (auto simp: jinv_at_def)
  moreover have "pending qs ?t = pending qs s" using w by (simp add: pending_def)
  moreover from this have "cost qs ?t < cost qs s" using w by (simp add: cost_def)
  ultimately show ?thesis using w by (auto simp: good_step_def runs_pending_def jobs_left_def)
qed

lemma signal_done_todo [simp]: "todo (signal_done d) = todo d"
  by (cases d) simp_all

lemma signal_done_disp:
  "signal_done d = DBlocked as \<longleftrightarrow> False" "signal_done d = DJoin \<longleftrightarrow> d = DJoin" "signal_done d = DEnd \<longleftrightarrow> d = DEnd"
  "disp_cost n (signal_done d) \<le> Suc (disp_cost n d)"
  by (cases d; simp)+

lemma good_done:
  assumes inv: "jinv_at qs s" and w: "workers s = xs @ WDone a # ys" and n: "n = to_cint (active_jobs s - 1)"
  shows "good_step qs s qs (s\<lparr>jqueue := free_job a (jqueue s), active_jobs := n,
       disp := (if n = 0 then signal_done (disp s) else disp s), workers := xs @ WTest # ys\<rparr>)"
    (is "good_step qs s qs ?t")
proof -
  note i = inv[unfolded jinv_at_def]
  have ac: "active_jobs s = int (length qs + length (busy (workers s)))" "active_jobs s < 2147483648" using i by auto
  then have m: "n = active_jobs s - 1" using n w by (simp add: to_cint_id)
  have aq: "a \<notin> set qs" "a \<notin> set (busy xs)" "a \<notin> set (busy ys)" using i w by auto
  have cm: "map (commands_at (free_job a (jqueue s))) qs = map (commands_at (jqueue s)) qs"
    by (rule commands_at_map) (use aq in \<open>auto simp: free_job_def\<close>)
  have nd: "\<not> done_flag s" using i w by auto
  have inv': "jinv_at qs ?t"
    unfolding jinv_at_def
  proof (intro conjI)
    show "queue_ok (jqueue ?t) qs" using free_job_ok i aq(1) by simp
    show "\<forall>b \<in> set (busy (workers ?t)). jheap (jqueue ?t) b \<noteq> None"
      using i w aq by (auto simp: free_job_def)
    show "active_jobs ?t = int (length qs + length (busy (workers ?t)))" using ac m w by simp
    show "\<forall>as. disp ?t = DBlocked as \<longrightarrow> 0 < active_jobs ?t \<and> (as = [] \<or> hd as = WaitAll)"
      using i m ac by (auto simp: signal_done_disp)
    show "done_flag ?t \<longleftrightarrow> disp ?t = DJoin \<or> disp ?t = DEnd" using i by (auto simp: signal_done_disp)
    show "disp ?t = DEnd \<longrightarrow> set (workers ?t) \<subseteq> {WExit}" using i nd by (auto simp: signal_done_disp)
  qed (use i w m nd in auto)
  have p: "mset (pending qs ?t) = mset (pending qs s)" using w by (simp add: pending_def cm)
  then have l: "length (pending qs ?t) = length (pending qs s)" by (metis size_mset)
  show ?thesis
  proof (rule good_stepI[OF inv' p])
    show "cost qs ?t < cost qs s"
      using w l signal_done_disp(4)[of "Suc (length xs + length ys)" "disp s"] by (simp add: cost_def)
  qed (use w in \<open>simp_all add: jobs_left_def\<close>)
qed

subsection \<open>Every step\<close>

lemma good_dstep:
  assumes inv: "jinv_at qs s" and st: "dstep s t"
  shows "\<exists>qs'. good_step qs s qs' t"
  using st
proof (cases rule: dstep.cases)
  case (d_submit c as a now q ws)
  then show ?thesis using good_submit[OF inv] by blast
next
  case (d_usleep n as)
  then show ?thesis using inv
    by (intro exI[of _ qs] good_move[OF inv, where ds = "[Usleep n]" and as = as and d' = "DRun as"])
      (auto simp: jinv_at_def)
next
  case (d_skip x as)
  then show ?thesis using inv
    by (intro exI[of _ qs] good_move[OF inv, where ds = "[x]" and as = as and d' = "DRun as"])
      (auto simp: jinv_at_def)
next
  case (d_wait as)
  then show ?thesis using inv
    by (intro exI[of _ qs] good_move[OF inv, where ds = "[]" and as = as and d' = "DBlocked as"])
      (auto simp: jinv_at_def)
next
  case (d_pass as)
  then show ?thesis using inv
    by (intro exI[of _ qs] good_move[OF inv, where ds = "[WaitAll]" and as = as and d' = "DRun as"])
      (auto simp: jinv_at_def)
next
  case d_finish
  then show ?thesis using good_finish[OF inv] by blast
next
  case (d_join show_avg total_time)
  then have "\<forall>w \<in> set (workers s). w = WExit" by simp
  with d_join show ?thesis using good_join[OF inv] by blast
qed

lemma good_wstep:
  assumes inv: "jinv_at qs s" and st: "wstep s t"
  shows "\<exists>qs'. good_step qs s qs' t"
  using st
proof (cases rule: wstep.cases)
  case (w_block xs ys)
  have "qs = []" using inv w_block queue_head_iff by (auto simp: jinv_at_def)
  with w_block show ?thesis
    by (intro exI[of _ qs] good_worker[OF inv w_block(2,1)]) auto
next
  case (w_exit xs ys)
  have "qs = []" using inv w_exit queue_head_iff by (auto simp: jinv_at_def)
  with w_exit show ?thesis
    by (intro exI[of _ qs] good_worker[OF inv w_exit(2,1)]) auto
next
  case (w_take xs ys q a)
  then show ?thesis using good_take[OF inv] by blast
next
  case (w_cmd xs a c cs ys)
  then show ?thesis using good_cmd[OF inv] by blast
next
  case (w_ran xs a ys)
  then show ?thesis by (intro exI[of _ qs] good_worker[OF inv w_ran(2,1)]) auto
next
  case (w_stats xs a ys t_end)
  then show ?thesis using good_stats[OF inv] by blast
next
  case (w_done xs a ys n)
  then show ?thesis using good_done[OF inv] by blast
qed

lemma good_jstep: "jinv_at qs s \<Longrightarrow> jstep s t \<Longrightarrow> \<exists>qs'. good_step qs s qs' t"
  using good_dstep good_wstep by (auto elim: jstep.cases)

text \<open>A spurious wakeup changes nothing but who tests its condition again.\<close>

lemma spurious_inv:
  assumes inv: "jinv_at qs s" and st: "jspurious s t"
  shows "jinv_at qs t \<and> pending qs t = pending qs s \<and> jos t = jos s \<and> jobs_left qs t = jobs_left qs s \<and>
    jstats t = jstats s \<and> length (workers t) = length (workers s)"
  using st
proof (cases rule: jspurious.cases)
  case (s_worker xs ys)
  have "disp s \<noteq> DEnd" "\<not> done_flag s" using inv s_worker by (auto simp: jinv_at_def)
  with s_worker inv show ?thesis by (auto simp: jinv_at_def pending_def jobs_left_def)
next
  case (s_dispatcher as)
  with inv show ?thesis by (auto simp: jinv_at_def pending_def jobs_left_def)
qed

lemma jinv_step: "jinv s \<Longrightarrow> jany s t \<Longrightarrow> jinv t"
  using good_jstep spurious_inv unfolding jinv_def good_step_def by blast

interpretation jobsys: invariant_machine "jstart acts n" "\<lambda>s t. jany s t" jinv for acts n
  by unfold_locales (auto intro: jinv_start jinv_step)

end
