(* ===== verification/Job_Props.thy ===== *)
theory Job_Props
  imports Job_System
begin

text \<open>
  The properties of the dispatcher and its workers in every reachable state and in every run,
  with one complete run of the program as the example they are instantiated on.
\<close>

abbreviation jreach :: "action list \<Rightarrow> nat \<Rightarrow> jsys \<Rightarrow> bool" where
  "jreach acts n \<equiv> reachable (jstart acts n) (\<lambda>s t. jany s t)"

section \<open>A complete run\<close>

text \<open>One worker and the file with the line \<open>worker increment 3\<close>.\<close>

definition ex_acts :: "action list" where
  "ex_acts = [Submit ''increment 3'', WaitAll]"

definition ex0 :: jsys where
  "ex0 = job_main (''worker increment 3'' @ [newline] @ ''dispatcher_wait'' @ [newline]) ''1'' ''5'' (\<lambda>_. None)"

definition ex_q :: jobq where
  "ex_q = \<lparr>jheap = [1 \<mapsto> \<lparr>cmd = ''increment 3'', submit_time = 7, job_next = None\<rparr>],
     queue_head = Some 1, queue_tail = Some 1\<rparr>"

definition ex1 :: jsys where
  "ex1 = ex0\<lparr>jqueue := ex_q, active_jobs := 1, disp := DRun [WaitAll], workers := [WTest]\<rparr>"

definition ex2 :: jsys where
  "ex2 = ex1\<lparr>jqueue := ex_q\<lparr>queue_head := None, queue_tail := None\<rparr>, workers := [WRun 1 [''increment 3'']]\<rparr>"

definition ex3 :: jsys where
  "ex3 = ex2\<lparr>jos := run_cmd ''increment 3'' (jos ex2), workers := [WRun 1 []]\<rparr>"

definition ex4 :: jsys where
  "ex4 = ex3\<lparr>workers := [WStats 1]\<rparr>"

definition ex5 :: jsys where
  "ex5 = ex4\<lparr>jstats := update_stats 12 (jstats ex4), workers := [WDone 1]\<rparr>"

definition ex6 :: jsys where
  "ex6 = ex5\<lparr>jqueue := free_job 1 (jqueue ex5), active_jobs := 0, disp := DRun [WaitAll], workers := [WTest]\<rparr>"

definition ex7 :: jsys where
  "ex7 = ex6\<lparr>disp := DRun []\<rparr>"

definition ex8 :: jsys where
  "ex8 = ex7\<lparr>done_flag := True, disp := DJoin, workers := [WTest]\<rparr>"

definition ex9 :: jsys where
  "ex9 = ex8\<lparr>workers := [WExit]\<rparr>"

definition ex10 :: jsys where
  "ex10 = ex9\<lparr>disp := DEnd, jos := (jos ex9)\<lparr>files := write_stats (\<lambda>_ _. ''12.000000'') 20 (jstats ex9) (files (jos ex9))\<rparr>\<rparr>"

lemmas ex_defs = ex1_def ex2_def ex3_def ex4_def ex5_def ex6_def ex7_def ex8_def ex9_def ex10_def

lemma ex0_fields:
  "jqueue ex0 = empty_queue" "active_jobs ex0 = 0" "\<not> done_flag ex0" "jstats ex0 = no_stats"
  "disp ex0 = DRun ex_acts" "workers ex0 = [WTest]"
proof -
  have "file_actions (''worker increment 3'' @ [newline] @ ''dispatcher_wait'' @ [newline]) = ex_acts"
    "atoi ''1'' = 1" by code_simp+
  then show "jqueue ex0 = empty_queue" "active_jobs ex0 = 0" "\<not> done_flag ex0" "jstats ex0 = no_stats"
    "disp ex0 = DRun ex_acts" "workers ex0 = [WTest]"
    by (simp_all add: ex0_def job_main_def Let_def)
qed

lemma ex0_start: "jstart ex_acts 1 ex0"
  by (simp add: jstart_def ex0_fields) (simp add: ex_acts_def)

lemma ex_steps:
  "jstep ex0 ex1" "jstep ex1 ex2" "jstep ex2 ex3" "jstep ex3 ex4" "jstep ex4 ex5" "jstep ex5 ex6"
  "jstep ex6 ex7" "jstep ex7 ex8" "jstep ex8 ex9" "jstep ex9 ex10"
proof -
  have "jstep ex0 (ex0\<lparr>jqueue := ex_q, active_jobs := to_cint (active_jobs ex0 + 1), disp := DRun [WaitAll], workers := workers ex0\<rparr>)"
    by (rule j_submit[where c = "''increment 3''" and a = 1 and now = 7])
      (simp_all add: ex0_fields ex_acts_def empty_queue_def enqueue_def ex_q_def signal_queue_def)
  then show "jstep ex0 ex1" by (simp add: ex1_def ex0_fields to_cint_def)
  have c: "commands_at (ex_q\<lparr>queue_head := None, queue_tail := None\<rparr>) 1 = [''increment 3'']"
    unfolding commands_at_def ex_q_def by (simp, code_simp)
  have "jstep ex1 (ex1\<lparr>jqueue := ex_q\<lparr>queue_head := None, queue_tail := None\<rparr>,
      workers := [] @ WRun 1 (commands_at (ex_q\<lparr>queue_head := None, queue_tail := None\<rparr>) 1) # []\<rparr>)"
    by (rule j_take) (simp_all add: ex1_def ex0_fields ex_q_def dequeue_def)
  then show "jstep ex1 ex2" unfolding c by (simp add: ex2_def)
  have "jstep ex2 (ex2\<lparr>jos := run_cmd ''increment 3'' (jos ex2), workers := [] @ WRun 1 [] # []\<rparr>)"
    by (rule j_cmd) (simp add: ex2_def)
  then show "jstep ex2 ex3" by (simp add: ex3_def)
  have "jstep ex3 (ex3\<lparr>workers := [] @ WStats 1 # []\<rparr>)" by (rule j_ran) (simp add: ex3_def)
  then show "jstep ex3 ex4" by (simp add: ex4_def)
  have "jstep ex4 (ex4\<lparr>jstats := update_stats (to_ll (19 - submit_time (the (jheap (jqueue ex4) 1)))) (jstats ex4),
      workers := [] @ WDone 1 # []\<rparr>)"
    by (rule j_stats) (simp add: ex4_def)
  moreover have "to_ll (19 - submit_time (the (jheap (jqueue ex4) 1))) = 12"
    by (simp add: ex4_def ex3_def ex2_def ex_q_def to_ll_def)
  ultimately show "jstep ex4 ex5" by (simp add: ex5_def)
  have a5: "active_jobs ex5 = 1" "disp ex5 = DRun [WaitAll]"
    by (simp_all add: ex5_def ex4_def ex3_def ex2_def ex1_def)
  have "jstep ex5 (ex5\<lparr>jqueue := free_job 1 (jqueue ex5), active_jobs := 0,
      disp := (if (0::cint) = 0 then signal_done (disp ex5) else disp ex5), workers := [] @ WTest # []\<rparr>)"
    by (rule j_done) (simp_all add: a5 to_cint_def, simp add: ex5_def)
  then show "jstep ex5 ex6" using a5(2) by (simp add: ex6_def)
  have a6: "disp ex6 = DRun [WaitAll]" "active_jobs ex6 = 0" "workers ex6 = [WTest]"
    using a5 by (simp_all add: ex6_def)
  show "jstep ex6 ex7" unfolding ex7_def by (rule j_pass) (simp_all add: a6)
  have "jstep ex7 (ex7\<lparr>done_flag := True, disp := DJoin, workers := broadcast_queue (workers ex7)\<rparr>)"
    by (rule j_finish) (simp_all add: ex7_def a6)
  then show "jstep ex7 ex8" by (simp add: ex8_def ex7_def a6 broadcast_queue_def)
  have "jstep ex8 (ex8\<lparr>workers := [] @ WExit # []\<rparr>)"
    by (rule j_exit) (simp_all add: ex8_def ex7_def a6, simp add: ex6_def ex5_def ex4_def ex3_def ex2_def free_job_def)
  then show "jstep ex8 ex9" by (simp add: ex9_def)
  show "jstep ex9 ex10" unfolding ex10_def by (rule j_join) (simp_all add: ex9_def ex8_def)
qed

lemma ex_reach: "jreach ex_acts 1 ex1" "jreach ex_acts 1 ex2" "jreach ex_acts 1 ex6" "jreach ex_acts 1 ex10"
proof -
  note r = reach_step[where step = "\<lambda>s t. jany s t", OF _ disjI1]
  have 0: "jreach ex_acts 1 ex0" by (rule reach_start) (rule ex0_start)
  show 1: "jreach ex_acts 1 ex1" by (rule r[OF 0 ex_steps(1)])
  show 2: "jreach ex_acts 1 ex2" by (rule r[OF 1 ex_steps(2)])
  have 3: "jreach ex_acts 1 ex3" by (rule r[OF 2 ex_steps(3)])
  have 4: "jreach ex_acts 1 ex4" by (rule r[OF 3 ex_steps(4)])
  have 5: "jreach ex_acts 1 ex5" by (rule r[OF 4 ex_steps(5)])
  show 6: "jreach ex_acts 1 ex6" by (rule r[OF 5 ex_steps(6)])
  have 7: "jreach ex_acts 1 ex7" by (rule r[OF 6 ex_steps(7)])
  have 8: "jreach ex_acts 1 ex8" by (rule r[OF 7 ex_steps(8)])
  have 9: "jreach ex_acts 1 ex9" by (rule r[OF 8 ex_steps(9)])
  show "jreach ex_acts 1 ex10" by (rule r[OF 9 ex_steps(10)])
qed

section \<open>Jobs are accounted for\<close>

text \<open>C22: In every reachable state of dispatcher and workers, spurious wakeups included, the linked
  list is well formed, active_jobs is exactly the number of queued jobs plus the number of
  workers that have one, no two workers have the same job, and no job that a worker still
  reads has been freed.\<close>

theorem active_jobs_exact:
  assumes "jreach acts n s"
  shows "(\<exists>q. queue_rep (jqueue s) q \<and> active_jobs s = int (length q + length (busy (workers s)))) \<and>
    distinct (busy (workers s)) \<and> (\<forall>a \<in> set (busy (workers s)). jheap (jqueue s) a \<noteq> None)"
proof -
  obtain qs where i: "jinv_at qs s" using jobsys.reachable_inv[OF assms] by (auto simp: jinv_def)
  then have "queue_rep (jqueue s) (map (job_val (jqueue s)) qs)" by (auto simp: queue_rep_def jinv_at_def)
  then have "\<exists>q. queue_rep (jqueue s) q \<and> active_jobs s = int (length q + length (busy (workers s)))"
    using i by (intro exI[of _ "map (job_val (jqueue s)) qs"]) (simp add: jinv_at_def)
  then show ?thesis using i by (auto simp: jinv_at_def)
qed

theorem active_jobs_exact_witness: "busy (workers ex2) = [1] \<and> jheap (jqueue ex2) 1 \<noteq> None"
proof -
  have "busy (workers ex2) = [1]" by (simp add: ex2_def)
  then show ?thesis using active_jobs_exact[OF ex_reach(2)] by simp
qed

lemma stats_count_left:
  assumes "jreach acts n s"
  shows "\<exists>qs. jinv_at qs s \<and> stats_count (jstats s) = int (submits acts) - int (jobs_left qs s) \<and>
    jobs_left qs s \<le> submits acts \<and> submits acts < 2147483648"
  using assms
proof (induction rule: reachable.induct)
  case (reach_start s)
  then have "jinv_at [] s" "jobs_left [] s = submits acts"
    by (auto simp: jstart_def jinv_at_def queue_ok_def empty_queue_def busy_def jobs_left_def)
  moreover have "submits acts \<le> length acts" by (simp add: submits_def)
  ultimately show ?case using reach_start by (auto simp: jstart_def no_stats_def intro!: exI[of _ "[]"])
next
  case (reach_step s t)
  obtain qs where qs: "jinv_at qs s" "stats_count (jstats s) = int (submits acts) - int (jobs_left qs s)"
    "jobs_left qs s \<le> submits acts" "submits acts < 2147483648" using reach_step.IH by blast
  show ?case
  proof (cases "jstep s t")
    case True
    obtain qs' where g: "good_step qs s qs' t" using good_jstep[OF qs(1) True] by blast
    show ?thesis
    proof (cases "jobs_left qs' t = jobs_left qs s \<and> jstats t = jstats s")
      case True
      with g qs show ?thesis by (intro exI[of _ qs']) (simp add: good_step_def)
    next
      case False
      with g obtain x where x: "Suc (jobs_left qs' t) = jobs_left qs s" "jstats t = update_stats x (jstats s)"
        by (auto simp: good_step_def)
      have "to_ll (stats_count (jstats s) + 1) = stats_count (jstats s) + 1"
        using qs by (intro to_ll_id) auto
      with x g qs show ?thesis by (intro exI[of _ qs']) (auto simp: good_step_def update_stats_def)
    qed
  next
    case False
    then show ?thesis using reach_step(2) spurious_inv[OF qs(1)] qs by fastforce
  qed
qed

text \<open>C23: dispatcher_wait and the final wait of main wait for every job: when the dispatcher finds
  active_jobs not positive and goes on, the queue is empty, no worker has a job, and the
  statistics count every job submitted so far, those still to be read excepted.\<close>

theorem wait_waits_for_all:
  assumes "jreach acts n s" "\<not> active_jobs s > 0"
  shows "queue_head (jqueue s) = None \<and> busy (workers s) = [] \<and>
    stats_count (jstats s) = int (submits acts) - int (submits (todo (disp s)))"
proof -
  obtain qs where i: "jinv_at qs s" "stats_count (jstats s) = int (submits acts) - int (jobs_left qs s)"
    using stats_count_left[OF assms(1)] by blast
  have "active_jobs s = int (length qs + length (busy (workers s)))" using i(1) by (simp add: jinv_at_def)
  then have "length qs + length (busy (workers s)) = 0" using assms(2) by linarith
  then have b: "qs = []" "busy (workers s) = []" by simp_all
  have "unfinished w \<le> length (busy_addr w)" for w by (cases w) auto
  then have "sum_list (map unfinished ws) \<le> length (busy ws)" for ws
    by (induction ws) (auto intro: add_mono)
  then have "sum_list (map unfinished (workers s)) = 0" using b(2) by (metis le_zero_eq list.size(3))
  then show ?thesis using i b queue_head_iff[of "jqueue s" qs] by (simp add: jobs_left_def jinv_at_def)
qed

theorem wait_waits_for_all_witness: "queue_head (jqueue ex6) = None \<and> stats_count (jstats ex6) = 1"
proof -
  have "\<not> active_jobs ex6 > 0" "disp ex6 = DRun [WaitAll]" by (simp_all add: ex_defs)
  with wait_waits_for_all[OF ex_reach(3)] show ?thesis by (simp add: submits_def ex_acts_def)
qed

section \<open>No deadlock, and termination\<close>

lemma heap_finite:
  assumes "jreach acts n s"
  shows "finite (dom (jheap (jqueue s)))"
  using assms
proof (induction rule: reachable.induct)
  case (reach_start s)
  then show ?case by (simp add: jstart_def empty_queue_def)
next
  case (reach_step s t)
  have e: "finite (dom (jheap q'))" if "enqueue (Some a) c now q = Some q'" "finite (dom (jheap q))" for a c now q q'
    using that by (auto simp: enqueue_def Let_def split: option.splits)
  have d: "jheap q' = jheap q" if "dequeue q = Some (r, q')" for q r q'
    using that by (auto simp: dequeue_def Let_def split: option.splits if_splits)
  have "finite (dom (jheap (jqueue t)))" if "jstep s t"
    using that
  proof (cases rule: jstep.cases)
    case of_dispatcher
    then show ?thesis using reach_step.IH by (cases rule: dstep.cases) (auto dest: e)
  next
    case of_worker
    then show ?thesis
    proof (cases rule: wstep.cases)
      case (w_take xs ys q a)
      then show ?thesis using d[OF w_take(4)] reach_step.IH by simp
    next
      case (w_done xs a ys n)
      have "dom ((jheap (jqueue s))(a := None)) \<subseteq> dom (jheap (jqueue s))" by auto
      with w_done reach_step.IH show ?thesis by (simp add: free_job_def rev_finite_subset)
    qed (use reach_step.IH in auto)
  qed
  moreover have "finite (dom (jheap (jqueue t)))" if "jspurious s t"
    using that reach_step.IH by (cases rule: jspurious.cases) auto
  ultimately show ?case using reach_step(2) by blast
qed

lemma worker_progress:
  assumes inv: "jinv_at qs s" and w: "w \<in> set (workers s)" "w \<noteq> WExit" "w \<noteq> WBlocked"
  shows "\<exists>t. jstep s t"
proof -
  obtain xs ys where ws: "workers s = xs @ w # ys" using split_list[OF w(1)] by blast
  have qo: "queue_ok (jqueue s) qs" using inv by (simp add: jinv_at_def)
  show ?thesis
  proof (cases w)
    case WTest
    note ws' = ws[unfolded WTest]
    show ?thesis
    proof (cases qs)
      case Nil
      then have "queue_head (jqueue s) = None" using queue_head_iff[OF qo] by simp
      with ws' show ?thesis using j_block[OF ws'] j_exit[OF ws'] by blast
    next
      case (Cons a bs)
      then have h: "queue_head (jqueue s) \<noteq> None" using queue_head_iff[OF qo] by simp
      obtain q where "dequeue (jqueue s) = Some (Some a, q)" using dequeue_ok qo Cons by metis
      from j_take[OF ws' h this] show ?thesis by blast
    qed
  next
    case (WRun a cs)
    then show ?thesis using ws j_cmd j_ran by (cases cs) blast+
  qed (use ws w j_stats j_done in blast)+
qed

lemma progress:
  assumes "jreach acts n s" "workers s \<noteq> []" "disp s \<noteq> DEnd"
  shows "\<exists>t. jstep s t"
proof -
  obtain qs where i: "jinv_at qs s" using jobsys.reachable_inv[OF assms(1)] by (auto simp: jinv_def)
  show ?thesis
  proof (cases "disp s")
    case (DRun as)
    show ?thesis
    proof (cases as)
      case Nil
      then show ?thesis using DRun j_wait[of s as] j_finish[of s] by blast
    next
      case (Cons x bs)
      show ?thesis
      proof (cases x)
        case (Submit c)
        obtain a where a: "jheap (jqueue s) a = None"
          using ex_new_if_finite[OF infinite_UNIV_nat heap_finite[OF assms(1)]] by auto
        obtain q where q: "enqueue (Some a) c 0 (jqueue s) = Some q"
          using enqueue_ok[of "jqueue s" qs a c 0] i a unfolding jinv_at_def by metis
        have "\<exists>ws. signal_queue (workers s) ws"
        proof (cases "WBlocked \<in> set (workers s)")
          case True
          then show ?thesis using split_list[OF True] by (auto simp: signal_queue_def)
        qed (auto simp: signal_queue_def)
        then show ?thesis using j_submit[OF _ a q] DRun Cons Submit by blast
      next
        case (Usleep m)
        then show ?thesis using DRun Cons j_usleep by blast
      next
        case WaitAll
        then show ?thesis using DRun Cons j_wait[of s as] j_pass[of s bs] by auto
      qed (use DRun Cons j_skip in blast)+
    qed
  next
    case (DBlocked as)
    then have ac: "0 < active_jobs s" "active_jobs s = int (length qs + length (busy (workers s)))" "\<not> done_flag s"
      using i by (auto simp: jinv_at_def)
    have nx: "WExit \<notin> set (workers s)" using i ac(3) by (auto simp: jinv_at_def)
    show ?thesis
    proof (cases "\<forall>w \<in> set (workers s). w = WBlocked")
      case True
      then have "busy (workers s) = []" by (auto simp: busy_def)
      then have "0 < length qs" using ac by simp
      moreover have "WBlocked \<in> set (workers s)" using True assms(2) by (metis last_in_set)
      then have "length qs \<le> testing (workers s)" using i by (simp add: jinv_at_def)
      moreover have "testing (workers s) = 0" using True by (auto simp: testing_def filter_empty_conv)
      ultimately show ?thesis by simp
    next
      case False
      then show ?thesis using worker_progress[OF i] nx by metis
    qed
  next
    case DJoin
    show ?thesis
    proof (cases "\<forall>w \<in> set (workers s). w = WExit")
      case True
      then have "join_workers (workers s)" by simp
      then show ?thesis using j_join[OF DJoin] by blast
    next
      case False
      moreover have "WBlocked \<notin> set (workers s)" using i DJoin by (auto simp: jinv_at_def)
      ultimately show ?thesis using worker_progress[OF i] by metis
    qed
  qed (use assms(3) in simp)
qed

lemma steps_cost:
  assumes "(jstep ^^ k) s t" "jinv_at qs s"
  shows "\<exists>qs'. jinv_at qs' t \<and> cost qs' t + k \<le> cost qs s \<and> length (workers t) = length (workers s)"
  using assms
proof (induction k arbitrary: t)
  case 0
  then show ?case by auto
next
  case (Suc k)
  then obtain u where u: "(jstep ^^ k) s u" "jstep u t" by auto
  obtain qs' where q: "jinv_at qs' u" "cost qs' u + k \<le> cost qs s" "length (workers u) = length (workers s)"
    using Suc.IH[OF u(1) Suc.prems(2)] by blast
  obtain qs'' where "good_step qs' u qs'' t" using good_jstep[OF q(1) u(2)] by blast
  with q show ?case by (intro exI[of _ qs'']) (simp add: good_step_def)
qed

lemma jreach_steps: "(jstep ^^ k) s t \<Longrightarrow> jreach acts n s \<Longrightarrow> jreach acts n t"
proof (induction k arbitrary: t)
  case (Suc k)
  then show ?case by (auto intro: reachable.reach_step)
qed simp

lemma start_cost:
  assumes "jstart acts n s"
  shows "jinv_at [] s" "cost [] s = length (concat (map action_cmds acts)) + sum_list (map action_cost acts) + 2 * n + 3"
proof -
  have "concat (map worker_cmds (replicate n WTest)) = []" by (induction n) simp_all
  moreover have "sum_list (map worker_cost (replicate n WTest)) = n" by (induction n) simp_all
  ultimately show "cost [] s = length (concat (map action_cmds acts)) + sum_list (map action_cost acts) + 2 * n + 3"
    using assms by (simp add: jstart_def cost_def pending_def)
  show "jinv_at [] s" using assms by (auto simp: jstart_def jinv_at_def queue_ok_def empty_queue_def busy_def)
qed

text \<open>C24: The program terminates and cannot deadlock. Started with at least one worker, it makes,
  whatever the threads' interleaving, at most as many steps as the commands of all submitted
  jobs plus 8 for each submitted job, 1 for each other line and 3 plus twice the number of
  workers (spurious wakeups aside), and a state in which no thread can step is the end: the
  dispatcher has ended and every worker has been joined.\<close>

theorem jobs_terminate:
  assumes "jstart acts n s" "0 < n" "(jstep ^^ k) s t"
  shows "k \<le> length (concat (map action_cmds acts)) + sum_list (map action_cost acts) + 2 * n + 3 \<and>
    ((\<nexists>u. jstep t u) \<longrightarrow> disp t = DEnd \<and> workers t = replicate n WExit)"
proof -
  note c = start_cost[OF assms(1)]
  obtain qs where q: "jinv_at qs t" "cost qs t + k \<le> cost [] s" "length (workers t) = length (workers s)"
    using steps_cost[OF assms(3) c(1)] by blast
  have l: "length (workers t) = n" using q(3) assms(1) by (simp add: jstart_def)
  have "jreach acts n s" using assms(1) by (rule reach_start)
  then have r: "jreach acts n t" by (rule jreach_steps[OF assms(3)])
  have "disp t = DEnd \<and> workers t = replicate n WExit" if "\<nexists>u. jstep t u"
  proof -
    have e: "disp t = DEnd" using progress[OF r] that l assms(2) by auto
    then have "set (workers t) \<subseteq> {WExit}" using q(1) by (simp add: jinv_at_def)
    then have "\<forall>w \<in> set (workers t). w = WExit" by blast
    then show ?thesis using e l by (simp add: replicate_eqI)
  qed
  moreover have "k \<le> length (concat (map action_cmds acts)) + sum_list (map action_cost acts) + 2 * n + 3"
    using q(2) c(2) by linarith
  ultimately show ?thesis by blast
qed

lemma ex_run: "(jstep ^^ 10) ex0 ex10"
  using ex_steps by (simp add: numeral_eq_Suc relcompp_apply) blast

theorem jobs_terminate_witness: "(10::nat) \<le> length (concat (map action_cmds ex_acts)) + 14"
  using jobs_terminate[OF ex0_start _ ex_run] by (simp add: ex_acts_def)

section \<open>The counters at the end\<close>

lemma total_delta_mset: "mset xs = mset ys \<Longrightarrow> total_delta c xs = total_delta c ys"
  unfolding total_delta_def by (metis mset_map sum_mset_sum_list)

text \<open>The value of a counter plus what the pending commands will add to it never changes.\<close>

lemma counter_conserved:
  assumes "jany\<^sup>*\<^sup>* s0 t" "jstart acts n s0" "files (jos s0) (counter_name c) = Some (dec v)"
    and "c < 100" "\<bar>v\<bar> + int (length (concat (map action_cmds acts))) < 9223372036854775807"
  shows "\<exists>qs w. jinv_at qs t \<and> files (jos t) (counter_name c) = Some (dec w) \<and>
    w + total_delta c (pending qs t) = v + total_delta c (concat (map action_cmds acts)) \<and>
    \<bar>w\<bar> + int (length (pending qs t)) < 9223372036854775807"
  using assms(1)
proof (induction rule: rtranclp_induct)
  case base
  have "concat (map worker_cmds (replicate n WTest)) = []" by (induction n) simp_all
  then have "pending [] s0 = concat (map action_cmds acts)" using assms(2) by (simp add: jstart_def pending_def)
  then show ?case using start_cost(1)[OF assms(2)] assms(3,5) by (intro exI[of _ "[]"] exI[of _ v]) simp
next
  case (step s t)
  obtain qs w where i: "jinv_at qs s" "files (jos s) (counter_name c) = Some (dec w)"
    "w + total_delta c (pending qs s) = v + total_delta c (concat (map action_cmds acts))"
    "\<bar>w\<bar> + int (length (pending qs s)) < 9223372036854775807" using step.IH by blast
  show ?case
  proof (cases "jstep s t")
    case True
    obtain qs' where g: "jinv_at qs' t" "runs_pending qs s qs' t"
      using good_jstep[OF i(1) True] by (auto simp: good_step_def)
    show ?thesis
    proof (cases "mset (pending qs' t) = mset (pending qs s) \<and>
        (\<forall>c. files (jos t) (counter_name c) = files (jos s) (counter_name c))")
      case True
      then have "length (pending qs' t) = length (pending qs s)" by (metis size_mset)
      with True g(1) i total_delta_mset[of "pending qs' t" "pending qs s" c] show ?thesis
        by (intro exI[of _ qs'] exI[of _ w]) simp
    next
      case False
      with g(2) obtain d where d: "mset (pending qs s) = add_mset d (mset (pending qs' t))" "jos t = run_cmd d (jos s)"
        unfolding runs_pending_def by blast
      then have m: "mset (pending qs s) = mset (d # pending qs' t)" by simp
      have len: "length (pending qs s) = Suc (length (pending qs' t))" using m by (metis size_mset length_Cons)
      have "files (jos t) (counter_name c) = Some (dec (w + delta c d))"
        unfolding d(2) using i(2,4) assms(4) by (intro run_cmd_counter) auto
      moreover have "w + delta c d + total_delta c (pending qs' t) = v + total_delta c (concat (map action_cmds acts))"
        using total_delta_mset[OF m, of c] i(3) by simp
      moreover have "\<bar>w + delta c d\<bar> + int (length (pending qs' t)) < 9223372036854775807"
        using i(4) len delta_bound[of c d] by linarith
      ultimately show ?thesis using g(1) by blast
    qed
  next
    case False
    then have "jspurious s t" using step(2) by blast
    from spurious_inv[OF i(1) this] i show ?thesis by (intro exI[of _ qs] exI[of _ w]) simp
  qed
qed

lemma jreach_from: "jany\<^sup>*\<^sup>* s0 t \<Longrightarrow> jstart acts n s0 \<Longrightarrow> jreach acts n t"
  by (rule jobsys.reachable_steps[OF _ reachable.reach_start])

text \<open>C25: The final counters. When the program has ended, after any interleaving of the threads
  and any spurious wakeups, every counter file that held a number v at the start holds v plus
  the increments minus the decrements of this counter in all the jobs of the file, with their
  repetitions unfolded; all jobs have been counted in the statistics, the queue is empty and
  every worker has exited.\<close>

theorem final_counters:
  assumes "jstart acts n s0" "files (jos s0) (counter_name c) = Some (dec v)" "c < 100"
    and "\<bar>v\<bar> + int (length (concat (map action_cmds acts))) < 9223372036854775807"
    and "jany\<^sup>*\<^sup>* s0 t" "disp t = DEnd"
  shows "files (jos t) (counter_name c) = Some (dec (v + total_delta c (concat (map action_cmds acts)))) \<and>
    stats_count (jstats t) = int (submits acts) \<and> queue_head (jqueue t) = None \<and> set (workers t) \<subseteq> {WExit}"
proof -
  obtain qs w where i: "jinv_at qs t" "files (jos t) (counter_name c) = Some (dec w)"
    "w + total_delta c (pending qs t) = v + total_delta c (concat (map action_cmds acts))"
    using counter_conserved[OF assms(5,1-4)] by blast
  have "done_flag t" "set (workers t) \<subseteq> {WExit}" using i(1) assms(6) by (simp_all add: jinv_at_def)
  then have e: "active_jobs t = 0" "set (workers t) \<subseteq> {WExit}" using i(1) by (simp_all add: jinv_at_def)
  have "active_jobs t = int (length qs + length (busy (workers t)))" using i(1) by (simp add: jinv_at_def)
  then have "length qs = 0" using e(1) by linarith
  then have qs: "qs = []" by simp
  have "concat (map worker_cmds ws) = []" if "set ws \<subseteq> {WExit}" for ws
    using that by (induction ws) auto
  then have "pending qs t = []" using e qs assms(6) by (simp add: pending_def)
  moreover have "queue_head (jqueue t) = None" "stats_count (jstats t) = int (submits acts)"
    using wait_waits_for_all[OF jreach_from[OF assms(5,1)]] e(1) assms(6) by (simp_all add: submits_def)
  ultimately show ?thesis using i(2,3) e(2) by simp
qed

theorem final_counters_witness:
  "files (jos ex10) (counter_name 3) = Some ''1'' \<and> stats_count (jstats ex10) = 1"
proof -
  have "jany\<^sup>*\<^sup>* ex0 ex10"
    using relpowp_imp_rtranclp[OF ex_run] rtranclp_mono[of jstep "\<lambda>s t. jany s t"] by blast
  have d: "dec 0 = ''0''" "dec 1 = ''1''" "atoi ''5'' = 5"
    "concat (map action_cmds ex_acts) = [''increment 3'']" "total_delta 3 [''increment 3''] = 1"
    by code_simp+
  have f: "files (jos ex0) (counter_name 3) = Some (dec 0)"
    by (simp add: ex0_def job_main_def create_counters_def d Let_def upt_rec[of _ 5])
  from final_counters[OF ex0_start f _ _ \<open>jany\<^sup>*\<^sup>* ex0 ex10\<close>] show ?thesis
    unfolding d(4,5) by (simp add: d(2) ex10_def ex_acts_def submits_def)
qed

section \<open>No workers\<close>

text \<open>C26: A flaw of main: nothing checks that there is a worker. Started with no worker thread,
  which is what atoi gives for a number of threads of 0 or below or for text that is not a
  number, on a file that submits a job, the program never ends, in no interleaving.\<close>

theorem no_workers_no_end:
  assumes "jreach acts 0 s" "0 < submits acts"
  shows "disp s \<noteq> DEnd \<and> workers s = []"
proof -
  have "workers s = [] \<and> disp s \<noteq> DJoin \<and> disp s \<noteq> DEnd"
    using assms(1)
  proof (induction rule: reachable.induct)
    case (reach_start s)
    then show ?case by (simp add: jstart_def)
  next
    case (reach_step s t)
    obtain qs where qs: "jinv_at qs s" "stats_count (jstats s) = int (submits acts) - int (jobs_left qs s)"
      using stats_count_left[OF reach_step(1)] by blast
    have z: "stats_count (jstats s) = 0"
      using reach_step(1)
    proof (induction rule: reachable.induct)
      case (reach_step u v)
      have w: "workers u = []"
      proof -
        obtain qs where "jinv_at qs u" using jobsys.reachable_inv[OF reach_step(1)] by (auto simp: jinv_def)
        have "length (workers u) = 0"
          using reach_step(1)
        proof (induction rule: reachable.induct)
          case (reach_step x y)
          obtain qs where q: "jinv_at qs x" using jobsys.reachable_inv[OF reach_step(1)] by (auto simp: jinv_def)
          from reach_step(2) show ?case
            using good_jstep[OF q] spurious_inv[OF q] reach_step.IH by (auto simp: good_step_def)
        qed (simp add: jstart_def)
        then show ?thesis by simp
      qed
      from reach_step(2) show ?case
      proof
        assume "jstep u v"
        then show ?thesis using reach_step.IH w by (auto elim!: jstepE dstepE wstepE)
      next
        assume "jspurious u v"
        then show ?thesis using reach_step.IH by cases auto
      qed
    qed (simp add: jstart_def no_stats_def)
    have w: "workers s = []" using reach_step.IH by simp
    have pos: "active_jobs s > 0" if "disp s = DRun []"
    proof -
      have "jobs_left qs s = length qs" using that w by (simp add: jobs_left_def submits_def)
      then have "length qs = submits acts" using qs(2) z by simp
      then show ?thesis using qs(1) assms(2) by (simp add: jinv_at_def)
    qed
    from reach_step(2) show ?case
    proof
      assume "jstep s t"
      then show ?thesis
        using reach_step.IH w pos by (auto simp: signal_queue_def elim!: jstepE dstepE wstepE)
    next
      assume "jspurious s t"
      then show ?thesis using reach_step.IH by cases auto
    qed
  qed
  then show ?thesis by blast
qed

definition ex_submit :: "action list" where
  "ex_submit = [Submit ''increment 3'']"

theorem no_workers_no_end_witness:
  "disp (job_main (''worker increment 3'' @ [newline]) ''zero'' ''5'' (\<lambda>_. None)) \<noteq> DEnd"
proof -
  let ?s = "job_main (''worker increment 3'' @ [newline]) ''zero'' ''5'' (\<lambda>_. None)"
  have d: "file_actions (''worker increment 3'' @ [newline]) = ex_submit" "atoi ''zero'' = 0" by code_simp+
  have "jstart ex_submit 0 ?s" using d by (simp add: jstart_def job_main_def Let_def) (simp add: ex_submit_def)
  then have "jreach ex_submit 0 ?s" by (rule reachable.reach_start)
  from no_workers_no_end[OF this] show ?thesis by (simp add: submits_def ex_submit_def)
qed

end
