(* ===== verification/Job_Logs.thy ===== *)
theory Job_Logs
  imports Job_System
begin

text \<open>
  What surrounds the work of the job programs: the start of \<open>main\<close> with its two errors, and the log
  files. Logging does not change what the threads do, so the logs are kept beside the state
  (\<open>lstep\<close>): a step of a thread that takes or has run a job adds a line to its log. \<open>log_ok\<close> says
  what the logs look like at any moment. A log file is taken to open, and to be none of the
  files the jobs use.
\<close>

section \<open>The text of the logs\<close>

definition thread_log_name :: "nat \<Rightarrow> string" where
  "thread_log_name i = ''thread'' @ dec02 i @ ''.txt''"

definition start_line :: "int \<Rightarrow> string \<Rightarrow> string" where
  "start_line t_start c = ''TIME '' @ dec t_start @ '': START job '' @ c @ [newline]"

definition end_line :: "int \<Rightarrow> string \<Rightarrow> string" where
  "end_line t_end c = ''TIME '' @ dec t_end @ '': END job '' @ c @ [newline]"

text \<open>A line of the command file without its newline, and what the dispatcher's log has of it.\<close>

definition line_text :: "string \<Rightarrow> string" where
  "line_text bytes =
     (let line = c_str bytes in if line \<noteq> [] \<and> last line = newline then butlast line else line)"

definition read_line :: "int \<Rightarrow> string \<Rightarrow> string" where
  "read_line now bytes =
     (if line_text bytes = [] then []
      else ''TIME '' @ dec now @ '': read cmd line: '' @ line_text bytes @ [newline])"

text \<open>\<open>dispatcher.txt\<close> after the whole file; \<open>clock\<close> is the time at each line.\<close>

definition dispatcher_log :: "(nat \<Rightarrow> int) \<Rightarrow> string \<Rightarrow> string" where
  "dispatcher_log clock body =
     concat (map2 (\<lambda>i bytes. read_line (clock i) bytes) [0..<length (fgets_lines body)] (fgets_lines body))"

section \<open>The start of main\<close>

datatype job_start = JUsage string | JNoFile files | JRuns jsys bool

text \<open>
  The command file is opened when the counters have been created; without it the program ends
  (\<open>exit\<close>) before any job is read. The flag is \<open>log_enabled\<close>.
\<close>

definition dispatcher_main :: "string \<Rightarrow> string list \<Rightarrow> files \<Rightarrow> job_start" where
  "dispatcher_main prog args fs =
     (case args of
        [cmdfile, threads_arg, counters_arg, log_arg] \<Rightarrow>
          (let fs' = create_counters (min 100 (atoi counters_arg)) fs
           in case fs' cmdfile of
                None \<Rightarrow> JNoFile fs'
              | Some body \<Rightarrow> JRuns (job_main body threads_arg counters_arg fs) (atoi log_arg \<noteq> 0))
      | _ \<Rightarrow> JUsage (''Usage: '' @ prog @ '' cmdfile num_threads num_counters log_enabled'' @ [newline]))"

section \<open>The threads with their logs\<close>

definition cmd_at :: "jsys \<Rightarrow> nat \<Rightarrow> string" where
  "cmd_at s a = cmd (the (jheap (jqueue s) a))"

text \<open>What a step from \<open>s\<close> to \<open>t\<close> adds to the log of worker \<open>i\<close>.\<close>

fun log_entry :: "int \<Rightarrow> jsys \<Rightarrow> jsys \<Rightarrow> worker \<Rightarrow> worker \<Rightarrow> string" where
  "log_entry now s t WTest (WRun a cs) = start_line now (cmd_at t a)"
| "log_entry now s t (WRun a []) (WStats b) = end_line now (cmd_at s a)"
| "log_entry now s t w w' = []"

inductive lstep :: "jsys \<times> (nat \<Rightarrow> string) \<Rightarrow> jsys \<times> (nat \<Rightarrow> string) \<Rightarrow> bool" where
  "jany s t \<Longrightarrow> lstep (s, L) (t, \<lambda>i. L i @ log_entry now s t (workers s ! i) (workers t ! i))"

section \<open>What is in them\<close>

lemma enqueue_keeps_cmd:
  assumes "enqueue (Some a) c now q = Some q'" "jheap q a = None" "jheap q b \<noteq> None"
  shows "cmd (the (jheap q' b)) = cmd (the (jheap q b))"
  using assms by (auto simp: enqueue_def Let_def split: option.splits)

lemma dequeue_heap: "dequeue q = Some (r, q') \<Longrightarrow> jheap q' = jheap q"
  by (auto simp: dequeue_def Let_def split: option.splits if_splits)

lemma busy_nth: "i < length ws \<Longrightarrow> ws ! i = WRun a cs \<Longrightarrow> a \<in> set (busy ws)"
  unfolding busy_def by (force simp: in_set_conv_nth)

lemma busy_split: "distinct (busy (xs @ w # ys)) \<Longrightarrow> a \<in> set (busy_addr w) \<Longrightarrow> i < length (xs @ w # ys) \<Longrightarrow>
   i \<noteq> length xs \<Longrightarrow> (xs @ w # ys) ! i = WRun b cs \<Longrightarrow> b \<noteq> a"
proof -
  assume a: "distinct (busy (xs @ w # ys))" "a \<in> set (busy_addr w)" "i < length (xs @ w # ys)" "i \<noteq> length xs"
    "(xs @ w # ys) ! i = WRun b cs"
  have "b \<in> set (busy xs) \<union> set (busy ys)"
  proof (cases "i < length xs")
    case True
    then show ?thesis using a(5) busy_nth[of i xs b cs] by (simp add: nth_append)
  next
    case False
    then obtain j where "i = length xs + Suc j" using a(4) by (metis add_Suc_right less_imp_Suc_add linorder_neqE_nat)
    then show ?thesis using a(3,5) busy_nth[of j ys b cs] by (simp add: nth_append)
  qed
  then show "b \<noteq> a" using a(1,2) by auto
qed

text \<open>How a step changes a worker, and that the job it runs keeps its text.\<close>

inductive worker_move :: "jsys \<Rightarrow> jsys \<Rightarrow> worker \<Rightarrow> worker \<Rightarrow> bool" for s t where
  mv_same: "\<forall>a cs. w = WRun a cs \<longrightarrow> cmd_at t a = cmd_at s a \<Longrightarrow> worker_move s t w w"
| mv_take: "worker_move s t WTest (WRun a cs)"
| mv_run: "cmd_at t a = cmd_at s a \<Longrightarrow> worker_move s t (WRun a (c # cs)) (WRun a cs)"
| mv_ran: "worker_move s t (WRun a []) (WStats a)"
| mv_other: "\<forall>a cs. w \<noteq> WRun a cs \<Longrightarrow> \<forall>a cs. w' \<noteq> WRun a cs \<Longrightarrow> worker_move s t w w'"

lemma move_one:
  assumes "workers s = xs @ w # ys" "workers t = xs @ w' # ys" "worker_move s t w w'"
    and "\<And>i b cs. i < length (workers s) \<Longrightarrow> i \<noteq> length xs \<Longrightarrow> workers s ! i = WRun b cs \<Longrightarrow> cmd_at t b = cmd_at s b"
    and "i < length (workers s)"
  shows "worker_move s t (workers s ! i) (workers t ! i)"
proof (cases "i = length xs")
  case True
  then show ?thesis using assms(1-3) by simp
next
  case False
  then have "workers t ! i = workers s ! i" using assms(1,2) by (auto simp: nth_append nth_Cons split: nat.splits)
  then show ?thesis using assms(4)[OF assms(5) False] by (simp add: mv_same)
qed

lemma wakes_move:
  assumes "\<And>i. i < length ws \<Longrightarrow> ws' ! i = ws ! i \<or> ws ! i = WBlocked \<and> ws' ! i = WTest" "i < length ws"
    and "\<And>a cs. ws ! i = WRun a cs \<Longrightarrow> cmd_at t a = cmd_at s a"
  shows "worker_move s t (ws ! i) (ws' ! i)"
proof -
  consider "ws' ! i = ws ! i" | "ws ! i = WBlocked" "ws' ! i = WTest" using assms(1)[OF assms(2)] by blast
  then show ?thesis by cases (use assms(3) in \<open>auto intro: mv_same mv_other\<close>)
qed

lemma signal_queue_nth:
  "signal_queue ws ws' \<Longrightarrow> i < length ws \<Longrightarrow> ws' ! i = ws ! i \<or> ws ! i = WBlocked \<and> ws' ! i = WTest"
  by (auto simp: signal_queue_def nth_append nth_Cons split: nat.splits)

lemma broadcast_queue_nth:
  "i < length ws \<Longrightarrow> broadcast_queue ws ! i = ws ! i \<or> ws ! i = WBlocked \<and> broadcast_queue ws ! i = WTest"
  by (simp add: broadcast_queue_def)

lemma dstep_moves:
  assumes "jinv s" "dstep s t" "i < length (workers s)"
  shows "length (workers t) = length (workers s) \<and> worker_move s t (workers s ! i) (workers t ! i)"
  using assms(2)
proof (cases rule: dstep.cases)
  case (d_submit c as a now q ws)
  have k: "cmd_at t b = cmd_at s b" if w: "workers s ! i = WRun b cs" for b cs
  proof -
    have "jheap (jqueue s) b \<noteq> None" using assms(1) busy_nth[OF assms(3) w] by (auto simp: jinv_def jinv_at_def)
    then show ?thesis using enqueue_keeps_cmd[OF d_submit(4,3)] d_submit(1) by (simp add: cmd_at_def)
  qed
  have "worker_move s t (workers s ! i) (ws ! i)"
    by (rule wakes_move[OF signal_queue_nth[OF d_submit(5)] assms(3)]) (use k in auto)
  then show ?thesis using d_submit(1) signal_queue_effect(4)[OF d_submit(5)] by simp
next
  case d_finish
  have "worker_move s t (workers s ! i) (broadcast_queue (workers s) ! i)"
    by (rule wakes_move[OF broadcast_queue_nth assms(3)]) (simp_all add: d_finish(1) cmd_at_def)
  then show ?thesis using d_finish(1) by (simp add: broadcast_sums)
qed (auto intro: mv_same simp: cmd_at_def)

lemma wstep_moves:
  assumes "jinv s" "wstep s t" "i < length (workers s)"
  shows "length (workers t) = length (workers s) \<and> worker_move s t (workers s ! i) (workers t ! i)"
  using assms(2)
proof (cases rule: wstep.cases)
  case (w_block xs ys)
  then show ?thesis using move_one[OF w_block(2), of t WBlocked i] assms(3) by (auto intro: mv_other simp: cmd_at_def)
next
  case (w_exit xs ys)
  then show ?thesis using move_one[OF w_exit(2), of t WExit i] assms(3) by (auto intro: mv_other simp: cmd_at_def)
next
  case (w_take xs ys a q)
  then show ?thesis using move_one[OF w_take(2), of t "WRun a (commands_at q a)" i] assms(3) dequeue_heap[OF w_take(4)]
    by (auto intro: mv_take simp: cmd_at_def)
next
  case (w_cmd xs a c cs ys)
  then have "worker_move s t (WRun a (c # cs)) (WRun a cs)" by (intro mv_run) (simp add: cmd_at_def)
  then show ?thesis using move_one[OF w_cmd(2), of t "WRun a cs" i] assms(3) by (auto simp: w_cmd cmd_at_def)
next
  case (w_ran xs a ys)
  then show ?thesis using move_one[OF w_ran(2), of t "WStats a" i] assms(3) by (auto intro: mv_ran simp: cmd_at_def)
next
  case (w_stats xs a ys t_end)
  then show ?thesis using move_one[OF w_stats(2), of t "WDone a" i] assms(3) by (auto intro: mv_other simp: cmd_at_def)
next
  case (w_done xs a ys n)
  have d: "distinct (busy (xs @ WDone a # ys))"
    using assms(1) unfolding w_done(2)[symmetric] by (auto simp: jinv_def jinv_at_def)
  have "cmd_at t b = cmd_at s b" if "j < length (workers s)" "j \<noteq> length xs" "workers s ! j = WRun b cs" for j b cs
  proof -
    have "b \<noteq> a" using busy_split[OF d, of a j b cs] that unfolding w_done(2) by simp
    then show ?thesis by (simp add: w_done(1) cmd_at_def free_job_def)
  qed
  then have "worker_move s t (workers s ! i) (workers t ! i)"
    by (intro move_one[OF w_done(2), where w' = WTest, OF _ _ _ assms(3)]) (auto simp: w_done(1) intro: mv_other)
  then show ?thesis by (simp add: w_done(1,2))
qed

lemma jstep_moves:
  assumes "jinv s" "jany s t" "i < length (workers s)"
  shows "length (workers t) = length (workers s) \<and> worker_move s t (workers s ! i) (workers t ! i)"
  using assms(2)
proof
  assume "jstep s t"
  then show ?thesis using dstep_moves[OF assms(1) _ assms(3)] wstep_moves[OF assms(1) _ assms(3)] by (auto elim: jstepE)
next
  assume "jspurious s t"
  then show ?thesis
  proof (cases rule: jspurious.cases)
    case (s_worker xs ys)
    then show ?thesis using move_one[OF s_worker(2), of t WTest i] assms(3) by (auto intro: mv_other simp: cmd_at_def)
  qed (auto intro: mv_same simp: cmd_at_def)
qed

lemma jany_workers: "jany s t \<Longrightarrow> length (workers t) = length (workers s)"
  by (auto elim!: jstepE dstepE wstepE jspurious.cases simp: signal_queue_effect(4) broadcast_sums(4))

text \<open>
  At any moment the log of a thread is a sequence of jobs, each with its first and its last
  line, and the first line of the job the thread is running.
\<close>

definition job_lines :: "(int \<times> int \<times> string) list \<Rightarrow> string" where
  "job_lines es = concat (map (\<lambda>(t_start, t_end, c). start_line t_start c @ end_line t_end c) es)"

fun running_line :: "int \<Rightarrow> jsys \<Rightarrow> worker \<Rightarrow> string" where
  "running_line t_start s (WRun a cs) = start_line t_start (cmd_at s a)"
| "running_line t_start s w = []"

definition log_ok :: "jsys \<times> (nat \<Rightarrow> string) \<Rightarrow> bool" where
  "log_ok = (\<lambda>(s, L). jinv s \<and>
     (\<forall>i<length (workers s). \<exists>es t_start. L i = job_lines es @ running_line t_start s (workers s ! i)))"

lemma log_move:
  assumes "worker_move s t w w'" "l = job_lines es @ running_line t0 s w"
  shows "\<exists>es t_start. l @ log_entry now s t w w' = job_lines es @ running_line t_start t w'"
  using assms(1)
proof cases
  case mv_same
  then have "l @ log_entry now s t w w' = job_lines es @ running_line t0 t w'" using assms(2) by (cases w) auto
  then show ?thesis by blast
next
  case (mv_take a cs)
  then have "l @ log_entry now s t w w' = job_lines es @ running_line now t w'" using assms(2) by simp
  then show ?thesis by blast
next
  case (mv_run a c cs)
  then have "l @ log_entry now s t w w' = job_lines es @ running_line t0 t w'" using assms(2) by simp
  then show ?thesis by blast
next
  case (mv_ran a)
  then have "l @ log_entry now s t w w' = job_lines (es @ [(t0, now, cmd_at s a)]) @ running_line now t w'"
    using assms(2) by (simp add: job_lines_def)
  then show ?thesis by blast
next
  case mv_other
  then have "log_entry now s t w w' = []" "running_line t0 s w = []" "running_line t0 t w' = []"
    by (cases w; cases w'; auto)+
  then show ?thesis using assms(2) by (metis append_Nil2)
qed

definition log_start :: "action list \<Rightarrow> nat \<Rightarrow> jsys \<times> (nat \<Rightarrow> string) \<Rightarrow> bool" where
  "log_start acts n = (\<lambda>(s, L). jstart acts n s \<and> L = (\<lambda>_. []))"

interpretation logs: invariant_machine "log_start acts n" lstep log_ok for acts n
proof
  fix x assume "log_start acts n x"
  then obtain s where s: "x = (s, \<lambda>_. [])" "jstart acts n s" by (auto simp: log_start_def)
  have "running_line 0 s (workers s ! i) = []" if "i < length (workers s)" for i
    using s(2) that by (simp add: jstart_def)
  then have "\<exists>es t_start. [] = job_lines es @ running_line t_start s (workers s ! i)" if "i < length (workers s)" for i
    using that by (intro exI[of _ "[]"] exI[of _ 0]) (simp add: job_lines_def)
  then show "log_ok x" using s jinv_start by (simp add: log_ok_def)
next
  fix x y assume ok: "log_ok x" and st: "lstep x y"
  from st show "log_ok y"
  proof cases
    case (1 s t L now)
    have inv: "jinv s" and log: "\<And>i. i < length (workers s) \<Longrightarrow> \<exists>es t_start. L i = job_lines es @ running_line t_start s (workers s ! i)"
      using ok 1(1) by (auto simp: log_ok_def)
    have "\<exists>es t_start. L i @ log_entry now s t (workers s ! i) (workers t ! i) =
        job_lines es @ running_line t_start t (workers t ! i)" if "i < length (workers t)" for i
    proof -
      have "i < length (workers s)" using that jany_workers[OF 1(3)] by simp
      then show ?thesis using jstep_moves[OF inv 1(3)] log log_move by meson
    qed
    then show ?thesis using jinv_step[OF inv 1(3)] by (simp add: 1(2) log_ok_def)
  qed
qed

text \<open>Logging leaves the threads as they are: a logged run is a run, and every run can be logged.\<close>

lemma logged_runs:
  "reachable (log_start acts n) lstep (s, L) \<Longrightarrow> reachable (jstart acts n) jany s"
proof (induction "(s, L)" arbitrary: s L rule: reachable.induct)
  case reach_start
  then show ?case by (auto simp: log_start_def intro: reachable.reach_start)
next
  case (reach_step x)
  from reach_step(3) obtain s0 L0 where x: "x = (s0, L0)" "jany s0 s" by (auto elim: lstep.cases)
  show ?case by (rule reachable.reach_step) (rule reach_step(2)[OF x(1)], rule x(2))
qed

lemma runs_logged: "reachable (jstart acts n) jany s \<Longrightarrow> \<exists>L. reachable (log_start acts n) lstep (s, L)"
proof (induction rule: reachable.induct)
  case (reach_start s)
  then show ?case by (auto simp: log_start_def intro: reachable.reach_start)
next
  case (reach_step s t)
  then obtain L where "reachable (log_start acts n) lstep (s, L)" by blast
  then have "reachable (log_start acts n) lstep (t, \<lambda>i. L i @ log_entry 0 s t (workers s ! i) (workers t ! i))"
    by (rule reachable.reach_step) (rule lstep.intros[OF reach_step(2)])
  then show ?case by blast
qed

lemma thread_logs:
  assumes "reachable (log_start acts n) lstep (s, L)" "i < length (workers s)"
  shows "\<exists>es t_start. L i = job_lines es @ running_line t_start s (workers s ! i)"
  using logs.reachable_inv[OF assms(1)] assms(2) by (simp add: log_ok_def)

text \<open>The dispatcher logs exactly the lines it does not skip.\<close>

lemma read_line_skip: "read_line now bytes = [] \<longleftrightarrow> parse_line bytes = Skip"
  by (simp add: read_line_def line_text_def parse_line_def Let_def)

lemma dispatcher_main_runs:
  "dispatcher_main prog args fs = JRuns s e \<longleftrightarrow>
   (\<exists>f nt nc le body. args = [f, nt, nc, le] \<and> create_counters (min 100 (atoi nc)) fs f = Some body \<and>
      s = job_main body nt nc fs \<and> e = (atoi le \<noteq> 0))"
  by (auto simp: dispatcher_main_def Let_def split: list.splits option.splits)

end
