(* ===== verification/Chat_Server.thy ===== *)
theory Chat_Server
  imports C_Text
begin

text \<open>
  \<open>hw3server.c\<close>. The state is the list of the first \<open>num_clients\<close> entries of the array
  \<open>clients\<close>; an entry's buffer is the list of the \<open>buf_len\<close> bytes read and not yet processed
  (the code keeps a null byte behind them). The sockets are arguments: what \<open>accept\<close> and
  \<open>read\<close> deliver, and which descriptors \<open>select\<close> reports. \<open>None\<close> as a result is a write past
  the end of \<open>formatted_msg\<close>.
\<close>

section \<open>The code\<close>

definition MAX_CLIENTS :: nat where
  "MAX_CLIENTS = 16"

definition MAX_MSG_LEN :: nat where
  "MAX_MSG_LEN = 256"

record client =
  socket_fd :: int
  cname :: string
  cip :: string
  cbuffer :: string

datatype sockop = Send int string | Close int

definition broadcast_message :: "string \<Rightarrow> client list \<Rightarrow> sockop list" where
  "broadcast_message msg cs = map (\<lambda>c. Send (socket_fd c) msg) cs"

definition find_client_by_name :: "string \<Rightarrow> client list \<Rightarrow> nat option" where
  "find_client_by_name nm cs = first_index (\<lambda>c. cname c = nm) cs"

definition remove_client :: "int \<Rightarrow> client list \<Rightarrow> sockop list \<times> client list" where
  "remove_client fd cs =
     (case first_index (\<lambda>c. socket_fd c = fd) cs of None \<Rightarrow> ([], cs)
      | Some i \<Rightarrow> ([Close fd], butlast (if i < length cs - 1 then cs[i := last cs] else cs)))"

text \<open>The C string without the newline it may end in.\<close>

definition chomp :: "string \<Rightarrow> string" where
  "chomp s = (if s \<noteq> [] \<and> last s = newline then butlast s else s)"

text \<open>\<open>sprintf(formatted_msg, "%s: %s\n", ...)\<close> into an array of \<open>2 * MAX_MSG_LEN\<close> bytes.\<close>

definition format_msg :: "string \<Rightarrow> string \<Rightarrow> string option" where
  "format_msg sender message =
     (let m = sender @ '': '' @ message @ [newline]
      in if length m + 1 \<le> MAX_MSG_LEN * 2 then Some m else None)"

definition process_message :: "nat \<Rightarrow> string \<Rightarrow> client list \<Rightarrow> sockop list option" where
  "process_message i message cs =
     (let m = chomp message in
      if m \<noteq> [] \<and> hd m = CHR ''@''
      then (case first_index (\<lambda>c. c = CHR '' '') (tl m) of None \<Rightarrow> Some []
            | Some k \<Rightarrow>
                (case find_client_by_name (take k (tl m)) cs of None \<Rightarrow> Some []
                 | Some j \<Rightarrow>
                     (case format_msg (cname (cs ! i)) m of None \<Rightarrow> None
                      | Some f \<Rightarrow> Some [Send (socket_fd (cs ! j)) f])))
      else (case format_msg (cname (cs ! i)) m of None \<Rightarrow> None
            | Some f \<Rightarrow> Some (broadcast_message f cs)))"

text \<open>A new connection: the first bytes read from it are the client's name.\<close>

definition accept_client :: "int \<Rightarrow> string \<Rightarrow> string \<Rightarrow> client list \<Rightarrow> sockop list \<times> client list" where
  "accept_client fd ip bytes cs =
     (if length bytes > 0 \<and> length cs < MAX_CLIENTS
      then ([], cs @ [\<lparr>socket_fd = fd, cname = chomp (c_str bytes), cip = ip, cbuffer = []\<rparr>])
      else ([Close fd], cs))"

text \<open>The loop that takes the complete lines out of a client's buffer and processes them.\<close>

function drain :: "nat \<Rightarrow> client list \<Rightarrow> string \<Rightarrow> (sockop list \<times> string) option" where
  "drain i cs b =
     (case first_index (\<lambda>c. c = newline) (c_str b) of None \<Rightarrow> Some ([], b)
      | Some k \<Rightarrow>
          (case process_message i (take (Suc k) b) cs of None \<Rightarrow> None
           | Some os \<Rightarrow>
               (case drain i cs (drop (Suc k) b) of None \<Rightarrow> None
                | Some (os', r) \<Rightarrow> Some (os @ os', r))))"
  by pat_completeness auto
termination
proof (relation "measure (\<lambda>(i, cs, b). length b)")
  fix i :: nat and cs :: "client list" and b :: string and k :: nat and os :: "sockop list"
  assume "first_index (\<lambda>c. c = newline) (c_str b) = Some k"
  then have "k < length b" using first_index_SomeD length_c_str[of b] by fastforce
  then show "((i, cs, drop (Suc k) b), i, cs, b) \<in> measure (\<lambda>(i, cs, b). length b)" by simp
qed simp

declare drain.simps [simp del]

text \<open>
  One client whose descriptor is ready: a full buffer without a newline is processed as a
  message first; then the client is read, and removed at the end of its stream. \<open>recv n\<close> is
  what \<open>read\<close> delivers when asked for \<open>n\<close> bytes; the empty string stands for 0 and errors.
  The last component says whether the client was removed.
\<close>

definition serve_client ::
  "nat \<Rightarrow> (nat \<Rightarrow> string) \<Rightarrow> client list \<Rightarrow> (sockop list \<times> client list \<times> bool) option" where
  "serve_client i recv cs =
     (let b = cbuffer (cs ! i); full = (length b \<ge> MAX_MSG_LEN - 1) in
      case (if full then process_message i (c_str b) cs else Some []) of None \<Rightarrow> None
      | Some os \<Rightarrow>
          (let b1 = (if full then [] else b); bytes = recv (MAX_MSG_LEN - length b1 - 1) in
           if bytes = []
           then (let (os', cs') = remove_client (socket_fd (cs ! i)) cs in Some (os @ os', cs', True))
           else (case drain i cs (b1 @ bytes) of None \<Rightarrow> None
                 | Some (os', r) \<Rightarrow> Some (os @ os', cs[i := (cs ! i)\<lparr>cbuffer := r\<rparr>], False))))"

lemma length_remove_client:
  "i < length cs \<Longrightarrow> length (snd (remove_client (socket_fd (cs ! i)) cs)) < length cs"
  using first_index_None[of "\<lambda>c. socket_fd c = socket_fd (cs ! i)" cs]
  by (auto simp: remove_client_def split: option.splits)

lemma serve_client_length:
  "serve_client i recv cs = Some (os, cs', removed) \<Longrightarrow> i < length cs \<Longrightarrow>
   if removed then length cs' < length cs else length cs' = length cs"
  using length_remove_client[of i cs]
  by (auto simp: serve_client_def Let_def split: option.splits if_splits prod.splits)

text \<open>
  The loop over the clients. Removing a client moves the last one into its place, and the
  code's \<open>i--\<close> makes the loop visit the place again.
\<close>

function client_loop ::
  "nat \<Rightarrow> (int \<Rightarrow> bool) \<Rightarrow> (int \<Rightarrow> nat \<Rightarrow> string) \<Rightarrow> client list \<Rightarrow> (sockop list \<times> client list) option" where
  "client_loop i ready recv cs =
     (if i < length cs
      then (let fd = socket_fd (cs ! i) in
            if ready fd
            then (case serve_client i (recv fd) cs of None \<Rightarrow> None
                  | Some (os, cs', removed) \<Rightarrow>
                      (case client_loop (if removed then i else Suc i) ready recv cs' of None \<Rightarrow> None
                       | Some (os', cs'') \<Rightarrow> Some (os @ os', cs'')))
            else client_loop (Suc i) ready recv cs)
      else Some ([], cs))"
  by pat_completeness auto
termination
  by (relation "measure (\<lambda>(i, ready, recv, cs). length cs - i)")
    (auto dest: serve_client_length split: if_splits)

declare client_loop.simps [simp del]

text \<open>
  One iteration of the main loop after \<open>select\<close>: the descriptors watched are those of the
  clients there are before \<open>accept\<close>.
\<close>

definition server_round ::
  "(int \<times> string \<times> string) option \<Rightarrow> (int \<Rightarrow> bool) \<Rightarrow> (int \<Rightarrow> nat \<Rightarrow> string) \<Rightarrow> client list \<Rightarrow>
   (sockop list \<times> client list) option" where
  "server_round conn ready recv cs =
     (let watched = socket_fd ` set cs;
          (os, cs1) = (case conn of None \<Rightarrow> ([], cs) | Some (fd, ip, bytes) \<Rightarrow> accept_client fd ip bytes cs)
      in case client_loop 0 (\<lambda>fd. ready fd \<and> fd \<in> watched) recv cs1 of None \<Rightarrow> None
         | Some (os', cs2) \<Rightarrow> Some (os @ os', cs2))"

section \<open>Lines of a buffer\<close>

text \<open>Specification: the complete lines at the start of a buffer, and what is left.\<close>

function frames :: "string \<Rightarrow> string list \<times> string" where
  "frames b =
     (case first_index (\<lambda>c. c = newline) (c_str b) of None \<Rightarrow> ([], b)
      | Some k \<Rightarrow> (let (ms, r) = frames (drop (Suc k) b) in (take (Suc k) b # ms, r)))"
  by pat_completeness auto
termination
proof (relation "measure length")
  fix b :: string and k :: nat
  assume "first_index (\<lambda>c. c = newline) (c_str b) = Some k"
  then have "k < length b" using first_index_SomeD length_c_str[of b] by fastforce
  then show "(drop (Suc k) b, b) \<in> measure length" by simp
qed simp

declare frames.simps [simp del]

fun process_all :: "nat \<Rightarrow> string list \<Rightarrow> client list \<Rightarrow> sockop list option" where
  "process_all i [] cs = Some []"
| "process_all i (m # ms) cs =
     (case process_message i m cs of None \<Rightarrow> None
      | Some os \<Rightarrow> (case process_all i ms cs of None \<Rightarrow> None | Some os' \<Rightarrow> Some (os @ os')))"

lemma drain_frames:
  "drain i cs b = map_option (\<lambda>os. (os, snd (frames b))) (process_all i (fst (frames b)) cs)"
proof (induction i cs b rule: drain.induct)
  case (1 i cs b)
  show ?case
  proof (cases "first_index (\<lambda>c. c = newline) (c_str b)")
    case None
    then show ?thesis by (simp add: drain.simps[of i cs b] frames.simps[of b])
  next
    case (Some k)
    then show ?thesis
      using "1.IH"[OF Some]
      by (cases "process_message i (take (Suc k) b) cs"; cases "process_all i (fst (frames (drop (Suc k) b))) cs")
        (simp_all add: drain.simps[of i cs b] frames.simps[of b] case_prod_beta)
  qed
qed

lemma frames_None: "first_index (\<lambda>c. c = newline) (c_str b) = None \<Longrightarrow> frames b = ([], b)"
  by (simp add: frames.simps[of b])

lemma frames_Some:
  "first_index (\<lambda>c. c = newline) (c_str b) = Some k \<Longrightarrow>
   frames b = (take (Suc k) b # fst (frames (drop (Suc k) b)), snd (frames (drop (Suc k) b)))"
  by (simp add: frames.simps[of b] case_prod_beta)

lemma frames_rest: "concat (fst (frames b)) @ snd (frames b) = b"
proof (induction b rule: frames.induct)
  case (1 b)
  show ?case
  proof (cases "first_index (\<lambda>c. c = newline) (c_str b)")
    case None
    then show ?thesis by (simp add: frames_None)
  next
    case (Some k)
    have "concat (fst (frames b)) @ snd (frames b) =
        take (Suc k) b @ concat (fst (frames (drop (Suc k) b))) @ snd (frames (drop (Suc k) b))"
      by (simp add: frames_Some[OF Some])
    then show ?thesis using "1.IH"[OF Some] by (simp only: append_take_drop_id)
  qed
qed

lemma frames_rest_open: "newline \<notin> set (c_str (snd (frames b)))"
proof (induction b rule: frames.induct)
  case (1 b)
  show ?case
  proof (cases "first_index (\<lambda>c. c = newline) (c_str b)")
    case None
    then show ?thesis using first_index_None[of "\<lambda>c. c = newline" "c_str b"] by (auto simp: frames_None)
  next
    case (Some k)
    show ?thesis using "1.IH"[OF Some] by (simp add: frames_Some[OF Some])
  qed
qed

lemma frames_lines: "\<forall>m \<in> set (fst (frames b)). \<exists>l. m = l @ [newline] \<and> newline \<notin> set l \<and> nul \<notin> set m"
proof (induction b rule: frames.induct)
  case (1 b)
  show ?case
  proof (cases "first_index (\<lambda>c. c = newline) (c_str b)")
    case None
    then show ?thesis by (simp add: frames_None)
  next
    case (Some k)
    note k = first_index_SomeD[OF Some]
    have p: "take (Suc k) b = take (Suc k) (c_str b)"
    proof -
      have "c_str b = take (length (c_str b)) b" unfolding c_str_def by (rule takeWhile_eq_take)
      then have "take (Suc k) (c_str b) = take (min (Suc k) (length (c_str b))) b" by (metis take_take)
      then show ?thesis using k by (simp add: min_def Suc_le_eq)
    qed
    then have e: "take (Suc k) b = take k (c_str b) @ [newline]" using k by (simp add: take_Suc_conv_app_nth)
    have "newline \<notin> set (take k (c_str b))" using k by (auto simp: in_set_conv_nth)
    moreover have "nul \<notin> set (take (Suc k) b)" using p c_str_no_nul by (metis in_set_takeD)
    ultimately have "\<exists>l. take (Suc k) b = l @ [newline] \<and> newline \<notin> set l \<and> nul \<notin> set (take (Suc k) b)" using e by blast
    then show ?thesis using "1.IH"[OF Some] by (simp add: frames_Some[OF Some])
  qed
qed

end
