(* ===== verification/Chat_Inv.thy ===== *)
theory Chat_Inv
  imports Chat_Server "HOL-Library.Multiset"
begin

text \<open>
  The chat server as a machine: one step is one iteration of its main loop, and \<open>server_ok\<close> is
  its invariant (interpretation \<open>chat\<close> of \<open>invariant_machine\<close>). The loop over the clients, in
  which removed clients are replaced under way, is compared with serving each client on its own
  (\<open>round_after\<close>), and \<open>heard\<close> is what a client says in the bytes that arrive from it.
\<close>

section \<open>The invariant\<close>

definition client_ok :: "client \<Rightarrow> bool" where
  "client_ok c \<longleftrightarrow> length (cname c) < MAX_MSG_LEN \<and> nul \<notin> set (cname c) \<and>
     length (cbuffer c) < MAX_MSG_LEN \<and> newline \<notin> set (c_str (cbuffer c))"

definition server_ok :: "client list \<Rightarrow> bool" where
  "server_ok cs \<longleftrightarrow> length cs \<le> MAX_CLIENTS \<and> distinct (map socket_fd cs) \<and> (\<forall>c \<in> set cs. client_ok c)"

text \<open>What the sockets deliver: never more than asked for, and a new descriptor not in use.\<close>

definition sockets_ok ::
  "(int \<times> string \<times> string) option \<Rightarrow> (int \<Rightarrow> nat \<Rightarrow> string) \<Rightarrow> client list \<Rightarrow> bool" where
  "sockets_ok conn recv cs \<longleftrightarrow> (\<forall>fd n. length (recv fd n) \<le> n) \<and>
     (case conn of None \<Rightarrow> True
      | Some (fd, ip, bytes) \<Rightarrow> length bytes \<le> MAX_MSG_LEN - 1 \<and> fd \<notin> socket_fd ` set cs)"

inductive chat_step :: "client list \<Rightarrow> client list \<Rightarrow> bool" where
  round: "sockets_ok conn recv cs \<Longrightarrow> server_round conn ready recv cs = Some (os, cs') \<Longrightarrow> chat_step cs cs'"

definition chat_start :: "client list \<Rightarrow> bool" where
  "chat_start cs \<longleftrightarrow> cs = []"

section \<open>One round serves every ready client once\<close>

text \<open>Specification: what a ready client becomes, on its own; \<open>None\<close> when it is removed.\<close>

definition kept_buffer :: "client \<Rightarrow> string" where
  "kept_buffer c = (if length (cbuffer c) \<ge> MAX_MSG_LEN - 1 then [] else cbuffer c)"

definition client_after :: "(int \<Rightarrow> nat \<Rightarrow> string) \<Rightarrow> client \<Rightarrow> client option" where
  "client_after recv c =
     (let bytes = recv (socket_fd c) (MAX_MSG_LEN - length (kept_buffer c) - 1)
      in if bytes = [] then None else Some (c\<lparr>cbuffer := snd (frames (kept_buffer c @ bytes))\<rparr>))"

definition round_after :: "(int \<Rightarrow> bool) \<Rightarrow> (int \<Rightarrow> nat \<Rightarrow> string) \<Rightarrow> client \<Rightarrow> client option" where
  "round_after ready recv c = (if ready (socket_fd c) then client_after recv c else Some c)"

lemma mset_map_filter: "mset xs = mset ys \<Longrightarrow> mset (List.map_filter f xs) = mset (List.map_filter f ys)"
  by (simp add: List.map_filter_def)

lemma length_map_filter: "length (List.map_filter f xs) \<le> length xs"
  by (simp add: List.map_filter_def)

lemma round_after_gone: "ready (socket_fd c) \<Longrightarrow> client_after recv c = None \<Longrightarrow> round_after ready recv c = None"
  and round_after_served:
    "ready (socket_fd c) \<Longrightarrow> client_after recv c = Some c' \<Longrightarrow> round_after ready recv c = Some c'"
  and round_after_waiting: "\<not> ready (socket_fd c) \<Longrightarrow> round_after ready recv c = Some c"
  by (simp_all add: round_after_def)

lemma first_fd:
  assumes "distinct (map socket_fd cs)" "i < length cs"
  shows "first_index (\<lambda>c. socket_fd c = socket_fd (cs ! i)) cs = Some i"
proof -
  have "socket_fd (cs ! j) \<noteq> socket_fd (cs ! i)" if "j < i" for j
    using assms that distinct_conv_nth[of "map socket_fd cs"] by force
  then show ?thesis using assms(2) by (simp add: first_index_Some_iff)
qed

text \<open>Taking out entry \<open>i\<close> by moving the last one into its place.\<close>

lemma remove_swap:
  assumes "i < length cs"
  defines "cs' \<equiv> butlast (if i < length cs - 1 then cs[i := last cs] else cs)"
  shows "take i cs' = take i cs" "mset (drop i cs') = mset (drop (Suc i) cs)"
proof -
  obtain xs c ys where cs: "cs = xs @ c # ys" "length xs = i" using id_take_nth_drop[OF assms(1)] assms(1)
    by (metis length_take min.absorb4)
  have "take i cs' = take i cs \<and> mset (drop i cs') = mset (drop (Suc i) cs)"
  proof (cases ys rule: rev_cases)
    case Nil
    then show ?thesis using cs by (simp add: cs'_def)
  next
    case (snoc zs z)
    then have "cs' = xs @ z # zs"
      using cs by (simp add: cs'_def list_update_append butlast_append)
    then show ?thesis using cs snoc by simp
  qed
  then show "take i cs' = take i cs" "mset (drop i cs') = mset (drop (Suc i) cs)" by blast+
qed

lemma serve_client_cases:
  assumes "serve_client i (recv (socket_fd (cs ! i))) cs = Some (os, cs', removed)" "i < length cs"
    "distinct (map socket_fd cs)"
  obtains (gone) "removed" "client_after recv (cs ! i) = None"
      "cs' = butlast (if i < length cs - 1 then cs[i := last cs] else cs)"
  | (served) c' where "\<not> removed" "client_after recv (cs ! i) = Some c'" "cs' = cs[i := c']"
proof -
  let ?c = "cs ! i"
  let ?bytes = "recv (socket_fd ?c) (MAX_MSG_LEN - length (kept_buffer ?c) - 1)"
  show ?thesis
  proof (cases "?bytes = []")
    case True
    then show ?thesis
      using assms first_fd[OF assms(3,2)]
      by (intro gone) (auto simp: serve_client_def Let_def kept_buffer_def client_after_def remove_client_def
          split: option.splits if_splits)
  next
    case False
    then have "drain i cs (kept_buffer ?c @ ?bytes) \<noteq> None" "\<not> removed"
      "cs' = cs[i := ?c\<lparr>cbuffer := snd (the (drain i cs (kept_buffer ?c @ ?bytes)))\<rparr>]"
      using assms(1) by (auto simp: serve_client_def Let_def kept_buffer_def split: option.splits if_splits)
    then show ?thesis using False
      by (intro served) (auto simp: client_after_def Let_def drain_frames)
  qed
qed

lemma client_after_fd: "client_after recv c = Some c' \<Longrightarrow> socket_fd c' = socket_fd c \<and> cname c' = cname c"
  by (auto simp: client_after_def Let_def split: if_splits)

lemma client_loop_serves:
  assumes "client_loop i ready recv cs = Some (os, cs')" "distinct (map socket_fd cs)" "i \<le> length cs"
  shows "mset cs' = mset (take i cs) + mset (List.map_filter (round_after ready recv) (drop i cs))"
  using assms
proof (induction i ready recv cs arbitrary: os cs' rule: client_loop.induct)
  case (1 i ready recv cs)
  show ?case
  proof (cases "i < length cs")
    case False
    then have "cs' = cs" using "1.prems"(1) by (simp add: client_loop.simps[of i ready recv cs])
    then show ?thesis using False by (simp add: List.map_filter_def)
  next
    case i: True
    let ?c = "cs ! i"
    have d: "drop i cs = ?c # drop (Suc i) cs" using i by (simp add: Cons_nth_drop_Suc)
    have tk: "mset (take (Suc i) cs) = add_mset ?c (mset (take i cs))" using i by (simp add: take_Suc_conv_app_nth)
    show ?thesis
    proof (cases "ready (socket_fd ?c)")
      case False
      then have "client_loop (Suc i) ready recv cs = Some (os, cs')"
        using "1.prems"(1) i by (simp add: client_loop.simps[of i ready recv cs] Let_def)
      from "1.IH"(2)[OF i refl False this "1.prems"(2)] i tk d show ?thesis
        by (simp add: map_filter_simps round_after_waiting[of ready ?c, OF False])
    next
      case r: True
      obtain os1 cs1 removed where s: "serve_client i (recv (socket_fd ?c)) cs = Some (os1, cs1, removed)"
        using "1.prems"(1) i r by (auto simp: client_loop.simps[of i ready recv cs] Let_def split: option.splits)
      then obtain os2 where l: "client_loop (if removed then i else Suc i) ready recv cs1 = Some (os2, cs')"
        using "1.prems"(1) i r by (auto simp: client_loop.simps[of i ready recv cs] Let_def split: option.splits)
      note IH = "1.IH"(1)[OF i refl r s refl refl l]
      show ?thesis
        using s i "1.prems"(2)
      proof (cases rule: serve_client_cases)
        case gone
        note rs = remove_swap[OF i, folded gone(3)]
        have "mset (map socket_fd cs1) = mset (map socket_fd (take i cs1 @ drop i cs1))" by simp
        also have "\<dots> = mset (map socket_fd (take i cs)) + mset (map socket_fd (drop (Suc i) cs))"
          using rs by (simp only: map_append mset_append mset_map)
        finally have ms: "mset (map socket_fd cs1) =
          mset (map socket_fd (take i cs)) + mset (map socket_fd (drop (Suc i) cs))" .
        have e: "map socket_fd cs = map socket_fd (take i cs) @ socket_fd ?c # map socket_fd (drop (Suc i) cs)"
          by (subst id_take_nth_drop[OF i]) simp
        have "mset (socket_fd ?c # map socket_fd cs1) = mset (map socket_fd cs)"
          by (subst e) (use ms in simp)
        then have "distinct (socket_fd ?c # map socket_fd cs1)" using "1.prems"(2) mset_eq_imp_distinct_iff by blast
        then have "distinct (map socket_fd cs1)" by simp
        moreover have "i \<le> length cs1" using i gone(3) by auto
        ultimately have "mset cs' = mset (take i cs1) + mset (List.map_filter (round_after ready recv) (drop i cs1))"
          using IH gone(1) by simp
        also have "\<dots> = mset (take i cs) + mset (List.map_filter (round_after ready recv) (drop (Suc i) cs))"
          using rs mset_map_filter by metis
        finally show ?thesis using d by (simp add: map_filter_simps round_after_gone[of ready ?c, OF r gone(2)])
      next
        case (served c')
        have "map socket_fd cs1 = map socket_fd cs"
          using served(3) client_after_fd[OF served(2)] i by (metis map_update nth_map length_map list_update_id)
        then have "mset cs' = mset (take (Suc i) cs1) + mset (List.map_filter (round_after ready recv) (drop (Suc i) cs1))"
          using IH served(1,3) "1.prems"(2) i by simp
        then show ?thesis using served(3) d i
          by (simp add: map_filter_simps round_after_served[of ready ?c, OF r served(2)] take_Suc_conv_app_nth)
      qed
    qed
  qed
qed

lemma server_round_split:
  assumes "server_round conn ready recv cs = Some (os, cs')"
  obtains cs1 os2 where
    "cs1 = (case conn of None \<Rightarrow> cs | Some (fd, ip, bytes) \<Rightarrow> snd (accept_client fd ip bytes cs))"
    "client_loop 0 (\<lambda>fd. ready fd \<and> fd \<in> socket_fd ` set cs) recv cs1 = Some (os2, cs')"
  using assms by (auto simp: server_round_def Let_def split: option.splits prod.splits)

lemma length_chomp: "length (chomp s) \<le> length s"
  by (simp add: chomp_def)

lemma set_chomp: "set (chomp s) \<subseteq> set s"
  by (auto simp: chomp_def dest: in_set_butlastD)

lemma accept_ok:
  assumes "server_ok cs" "sockets_ok (Some (fd, ip, bytes)) recv cs"
  shows "server_ok (snd (accept_client fd ip bytes cs))"
proof -
  have "length (chomp (c_str bytes)) < MAX_MSG_LEN"
    using length_chomp[of "c_str bytes"] length_c_str[of bytes] assms(2)
    by (simp add: sockets_ok_def MAX_MSG_LEN_def)
  moreover have "nul \<notin> set (chomp (c_str bytes))" using set_chomp c_str_no_nul by blast
  ultimately show ?thesis
    using assms by (auto simp: accept_client_def server_ok_def client_ok_def sockets_ok_def MAX_MSG_LEN_def c_str_def)
qed

lemma frames_rest_length: "length (snd (frames b)) \<le> length b"
proof -
  have "length b = length (concat (fst (frames b)) @ snd (frames b))" by (simp only: frames_rest)
  then show ?thesis by simp
qed

lemma client_after_ok:
  assumes "client_ok c" "client_after recv c = Some c'" "\<forall>fd n. length (recv fd n) \<le> n"
  shows "client_ok c'"
proof -
  let ?b = "kept_buffer c" and ?x = "recv (socket_fd c) (MAX_MSG_LEN - length (kept_buffer c) - 1)"
  have c': "c' = c\<lparr>cbuffer := snd (frames (?b @ ?x))\<rparr>" using assms(2) by (auto simp: client_after_def Let_def split: if_splits)
  have "length ?b < MAX_MSG_LEN" by (simp add: kept_buffer_def MAX_MSG_LEN_def)
  moreover have "length ?x \<le> MAX_MSG_LEN - length ?b - 1" using assms(3) by blast
  ultimately have "length (?b @ ?x) < MAX_MSG_LEN" by simp
  then have "length (snd (frames (?b @ ?x))) < MAX_MSG_LEN" using frames_rest_length[of "?b @ ?x"] by linarith
  then show ?thesis using assms(1) frames_rest_open[of "?b @ ?x"] by (simp add: c' client_ok_def)
qed

lemma map_filter_fds:
  assumes "\<And>c c'. f c = Some c' \<Longrightarrow> socket_fd c' = socket_fd c" "distinct (map socket_fd cs)"
  shows "distinct (map socket_fd (List.map_filter f cs))"
    "set (map socket_fd (List.map_filter f cs)) \<subseteq> set (map socket_fd cs)"
  using assms(2)
proof (induction cs)
  case (Cons c cs)
  { case 1
    then show ?case using Cons.IH assms(1)[of c] by (cases "f c") (auto simp: List.map_filter_def) }
  { case 2
    then show ?case using Cons.IH(2) assms(1)[of c] by (cases "f c") (auto simp: List.map_filter_def) }
qed (simp_all add: List.map_filter_def)

lemma round_ok:
  assumes "server_ok cs" "sockets_ok conn recv cs" "server_round conn ready recv cs = Some (os, cs')"
  shows "server_ok cs'"
proof -
  obtain cs1 os2 where r: "cs1 = (case conn of None \<Rightarrow> cs | Some (fd, ip, bytes) \<Rightarrow> snd (accept_client fd ip bytes cs))"
    "client_loop 0 (\<lambda>fd. ready fd \<and> fd \<in> socket_fd ` set cs) recv cs1 = Some (os2, cs')"
    by (rule server_round_split[OF assms(3)])
  let ?f = "round_after (\<lambda>fd. ready fd \<and> fd \<in> socket_fd ` set cs) recv"
  have ok: "server_ok cs1" using r(1) assms(1,2) accept_ok by (auto split: option.splits)
  then have d: "distinct (map socket_fd cs1)" by (simp add: server_ok_def)
  have m: "mset cs' = mset (List.map_filter ?f cs1)" using client_loop_serves[OF r(2) d] by simp
  have fd: "socket_fd c' = socket_fd c" if "?f c = Some c'" for c c'
    using that client_after_fd by (auto simp: round_after_def split: if_splits)
  have "mset (map socket_fd cs') = mset (map socket_fd (List.map_filter ?f cs1))" using m by simp
  then have "distinct (map socket_fd cs')" using map_filter_fds(1)[of ?f, OF fd d] mset_eq_imp_distinct_iff by blast
  moreover have "length cs' \<le> length cs1"
    using m length_map_filter[of ?f cs1] mset_eq_length by metis
  moreover have "client_ok c'" if "c' \<in> set cs'" for c'
  proof -
    have "c' \<in> set (List.map_filter ?f cs1)" using that m by (metis set_mset_mset)
    then obtain c where c: "c \<in> set cs1" "?f c = Some c'" by (auto simp: List.map_filter_def)
    have rl: "\<forall>fd n. length (recv fd n) \<le> n" using assms(2) by (simp add: sockets_ok_def)
    have "client_ok c" using ok c(1) by (simp add: server_ok_def)
    then show ?thesis using c(2) client_after_ok[OF _ _ rl] by (auto simp: round_after_def split: if_splits)
  qed
  ultimately show ?thesis using ok by (simp add: server_ok_def)
qed

interpretation chat: invariant_machine chat_start chat_step server_ok
proof unfold_locales
  fix cs assume "chat_start cs"
  then show "server_ok cs" by (simp add: chat_start_def server_ok_def)
next
  fix cs cs' assume "server_ok cs" "chat_step cs cs'"
  then show "server_ok cs'" using round_ok by (auto elim: chat_step.cases)
qed

section \<open>What a client says\<close>

text \<open>
  Specification: the messages processed when \<open>bytes\<close> arrive behind the buffer \<open>b\<close>, and the
  buffer afterwards; then the same for the chunks of a stream.
\<close>

definition hear :: "string \<Rightarrow> string \<Rightarrow> string list \<times> string" where
  "hear b bytes =
     (if length b \<ge> MAX_MSG_LEN - 1
      then (c_str b # fst (frames bytes), snd (frames bytes)) else frames (b @ bytes))"

fun heard :: "string \<Rightarrow> string list \<Rightarrow> string list \<times> string" where
  "heard b [] = ([], b)"
| "heard b (x # xs) = (let (ms, b') = hear b x; (ms', b'') = heard b' xs in (ms @ ms', b''))"

lemma serve_client_hears:
  assumes "recv (MAX_MSG_LEN - length (kept_buffer (cs ! i)) - 1) = bytes" "bytes \<noteq> []"
  shows "serve_client i recv cs =
    map_option (\<lambda>os. (os, cs[i := (cs ! i)\<lparr>cbuffer := snd (hear (cbuffer (cs ! i)) bytes)\<rparr>], False))
      (process_all i (fst (hear (cbuffer (cs ! i)) bytes)) cs)"
  using assms
  by (auto simp: serve_client_def Let_def kept_buffer_def hear_def drain_frames split: option.splits)

section \<open>Who gets a message\<close>

text \<open>
  Specification: a message \<open>@name rest\<close> is for the first client of that name, one that starts
  with \<open>@\<close> and has no space is for nobody, and every other message is for all clients.
\<close>

definition recipients :: "string \<Rightarrow> client list \<Rightarrow> client list" where
  "recipients m cs =
     (if m \<noteq> [] \<and> hd m = CHR ''@''
      then (if CHR '' '' \<in> set (tl m)
            then take 1 (filter (\<lambda>c. cname c = takeWhile (\<lambda>x. x \<noteq> CHR '' '') (tl m)) cs) else [])
      else cs)"

definition chat_line :: "string \<Rightarrow> string \<Rightarrow> string" where
  "chat_line sender m = sender @ '': '' @ m @ [newline]"

lemma first_index_filter:
  "take 1 (filter P xs) = (case first_index P xs of None \<Rightarrow> [] | Some i \<Rightarrow> [xs ! i])"
  by (induction xs) (auto split: option.splits)

lemma take_first_index:
  "first_index P xs = Some k \<Longrightarrow> take k xs = takeWhile (\<lambda>x. \<not> P x) xs"
  by (induction xs arbitrary: k) (auto split: if_splits)

lemma first_index_space: "first_index (\<lambda>c. c = x) s = None \<longleftrightarrow> x \<notin> set s"
  by (auto simp: first_index_None)

lemma format_msg_eq:
  "format_msg s m = (if length s + length m \<le> 508 then Some (chat_line s m) else None)"
  by (simp add: format_msg_def chat_line_def MAX_MSG_LEN_def Let_def)

lemma process_message_eq:
  assumes "i < length cs"
  shows "process_message i msg cs =
    (let m = chomp msg; to = recipients m cs
     in if to = [] \<or> length (cname (cs ! i)) + length m \<le> 508
        then Some (map (\<lambda>c. Send (socket_fd c) (chat_line (cname (cs ! i)) m)) to) else None)"
proof (cases "chomp msg \<noteq> [] \<and> hd (chomp msg) = CHR ''@''")
  case False
  moreover have "cs \<noteq> []" using assms by auto
  ultimately show ?thesis
    by (simp only: process_message_def recipients_def Let_def if_False format_msg_eq broadcast_message_def)
      (simp add: Let_def)
next
  case True
  let ?r = "tl (chomp msg)"
  show ?thesis
  proof (cases "first_index (\<lambda>c. c = CHR '' '') ?r")
    case None
    then show ?thesis
      using True first_index_space[of "CHR '' ''" ?r] by (simp add: process_message_def recipients_def Let_def)
  next
    case (Some k)
    then have sp: "CHR '' '' \<in> set ?r" using first_index_space[of "CHR '' ''" ?r] by auto
    have tk: "take k ?r = takeWhile (\<lambda>x. x \<noteq> CHR '' '') ?r" using take_first_index[OF Some] .
    show ?thesis
      using True Some sp tk first_index_filter[of "\<lambda>c. cname c = takeWhile (\<lambda>x. x \<noteq> CHR '' '') ?r" cs]
      by (cases "first_index (\<lambda>c. cname c = takeWhile (\<lambda>x. x \<noteq> CHR '' '') ?r) cs")
        (simp_all add: process_message_def recipients_def Let_def find_client_by_name_def format_msg_eq)
  qed
qed

text \<open>The bytes a client has in its buffer play no part in it.\<close>

lemma first_index_field: "first_index (\<lambda>c. f c = x) xs = first_index (\<lambda>y. y = x) (map f xs)"
  by (induction xs) auto

lemma broadcast_message_map: "broadcast_message x cs = map (\<lambda>fd. Send fd x) (map socket_fd cs)"
  by (simp add: broadcast_message_def)

lemma map_update_same: "i < length xs \<Longrightarrow> (map f xs)[i := f (xs ! i)] = map f xs"
  by (metis list_update_id length_map nth_map)

lemma process_message_buffer:
  assumes "i < length cs"
  shows "process_message i msg (cs[i := (cs ! i)\<lparr>cbuffer := b\<rparr>]) = process_message i msg cs"
proof -
  define cs' where "cs' = cs[i := (cs ! i)\<lparr>cbuffer := b\<rparr>]"
  have nm: "map cname cs' = map cname cs" and fd: "map socket_fd cs' = map socket_fd cs"
    using assms by (simp_all add: cs'_def map_update map_update_same)
  have l: "length cs' = length cs" by (simp add: cs'_def)
  have f: "find_client_by_name x cs' = find_client_by_name x cs" for x
    by (metis find_client_by_name_def first_index_field nm)
  have b: "broadcast_message x cs' = broadcast_message x cs" for x
    by (metis broadcast_message_map fd)
  have n: "cname (cs' ! i) = cname (cs ! i)" using assms nm l by (metis nth_map)
  have s: "socket_fd (cs' ! j) = socket_fd (cs ! j)" if "find_client_by_name y cs = Some j" for y j
    using that first_index_SomeD nth_map[of j cs socket_fd] nth_map[of j cs' socket_fd] fd l
    unfolding find_client_by_name_def by metis
  have "process_message i msg cs' = process_message i msg cs"
    by (auto simp: process_message_def f n b Let_def split: option.splits dest: s)
  then show ?thesis by (simp add: cs'_def)
qed

lemma process_all_buffer:
  "i < length cs \<Longrightarrow> process_all i ms (cs[i := (cs ! i)\<lparr>cbuffer := b\<rparr>]) = process_all i ms cs"
  by (induction ms) (simp_all add: process_message_buffer cong: option.case_cong)

end
