(* ===== verification/Chat_Lines.thy ===== *)
theory Chat_Lines
  imports Chat_Server
begin

text \<open>
  Text as a sequence of lines, cut anywhere into chunks: what the client and the server, which
  both take the complete lines out of a buffer, see of it (\<open>frames\<close> of \<open>Chat_Server\<close>).
\<close>

definition line_ok :: "string \<Rightarrow> bool" where
  "line_ok l \<longleftrightarrow> newline \<notin> set l \<and> nul \<notin> set l \<and> length l < MAX_MSG_LEN - 1"

abbreviation ended :: "string \<Rightarrow> string" where
  "ended l \<equiv> l @ [newline]"

definition join_lines :: "string list \<Rightarrow> string" where
  "join_lines ls = concat (map ended ls)"

lemma join_lines_simps [simp]:
  "join_lines [] = []" "join_lines (l # ls) = l @ newline # join_lines ls"
  "join_lines (ls @ ls') = join_lines ls @ join_lines ls'"
  by (simp_all add: join_lines_def)

lemma frames_line:
  assumes "line_ok l"
  shows "frames (l @ newline # s) = (ended l # fst (frames s), snd (frames s))"
proof -
  have "c_str (l @ newline # s) = l @ newline # c_str s"
  proof -
    have "takeWhile (\<lambda>c. c \<noteq> nul) (l @ newline # s) = l @ takeWhile (\<lambda>c. c \<noteq> nul) (newline # s)"
      by (rule takeWhile_append2) (use assms in \<open>auto simp: line_ok_def\<close>)
    then show ?thesis by (simp add: c_str_def)
  qed
  moreover have "\<forall>j < length l. l ! j \<noteq> newline" using assms nth_mem unfolding line_ok_def by metis
  ultimately have "first_index (\<lambda>c. c = newline) (c_str (l @ newline # s)) = Some (length l)"
    by (simp add: first_index_Some_iff nth_append)
  then show ?thesis by (simp add: frames_Some)
qed

lemma frames_join:
  "\<forall>l \<in> set ls. line_ok l \<Longrightarrow> newline \<notin> set p \<Longrightarrow> frames (join_lines ls @ p) = (map ended ls, p)"
proof (induction ls)
  case Nil
  then have "newline \<notin> set (c_str p)" unfolding c_str_def by (metis set_takeWhileD)
  then have "first_index (\<lambda>c. c = newline) (c_str p) = None" by (auto simp: first_index_None)
  then show ?case by (simp add: frames_None)
qed (simp add: frames_line)

text \<open>A prefix of the lines is some complete lines and the start of the next one.\<close>

lemma prefix_of_lines:
  assumes "\<forall>l \<in> set ls. line_ok l" "p @ q = join_lines ls"
  obtains ls1 ls2 r where "ls = ls1 @ ls2" "p = join_lines ls1 @ r" "r @ q = join_lines ls2"
    "newline \<notin> set r" "length r < MAX_MSG_LEN - 1"
  using assms
proof (induction ls arbitrary: p thesis)
  case Nil
  then show ?case using Nil.prems(1)[of "[]" "[]" "[]"] by (simp add: MAX_MSG_LEN_def)
next
  case (Cons l ls)
  have lk: "line_ok l" using Cons.prems(2) by simp
  show ?case
  proof (cases "length p \<le> length l")
    case True
    have "p @ q = l @ newline # join_lines ls" using Cons.prems(3) by simp
    then have "p = take (length p) l" using True by (metis append_eq_conv_conj take_append diff_is_0_eq' take0 append_Nil2)
    then have "newline \<notin> set p" "length p < MAX_MSG_LEN - 1"
      using lk True by (auto simp: line_ok_def dest: in_set_takeD) (metis in_set_takeD)
    then show ?thesis using Cons.prems(1)[of "[]" "l # ls" p] Cons.prems(3) by simp
  next
    case False
    have e: "p @ q = ended l @ join_lines ls" using Cons.prems(3) by simp
    then obtain p' where p: "p = ended l @ p'" "p' @ q = join_lines ls"
      using False by (auto simp: append_eq_append_conv2 append_eq_Cons_conv)
    obtain ls1 ls2 r where "ls = ls1 @ ls2" "p' = join_lines ls1 @ r" "r @ q = join_lines ls2"
      "newline \<notin> set r" "length r < MAX_MSG_LEN - 1"
      using Cons.IH[OF _ _ p(2)] Cons.prems(2) by auto
    then show ?thesis using Cons.prems(1)[of "l # ls1" ls2 r] p by simp
  qed
qed

text \<open>So taking lines out of a buffer that such a chunk is appended to leaves a short rest.\<close>

lemma frames_chunk:
  assumes "\<forall>l \<in> set ls. line_ok l" "b @ x @ q = join_lines ls"
  obtains ls1 ls2 r where "ls = ls1 @ ls2" "frames (b @ x) = (map ended ls1, r)" "r @ q = join_lines ls2"
    "newline \<notin> set r" "length r < MAX_MSG_LEN - 1"
proof -
  obtain ls1 ls2 r where a: "ls = ls1 @ ls2" "b @ x = join_lines ls1 @ r" "r @ q = join_lines ls2"
    "newline \<notin> set r" "length r < MAX_MSG_LEN - 1"
    using prefix_of_lines[of ls "b @ x" q] assms by (metis append.assoc)
  then have "frames (b @ x) = (map ended ls1, r)" using frames_join[of ls1 r] assms(1) by simp
  then show thesis using that a by blast
qed

lemma lines_nil: "newline \<notin> set (join_lines ls) \<Longrightarrow> ls = []"
  by (cases ls) auto

end
