(* ===== verification/Chat_Client.thy ===== *)
theory Chat_Client
  imports Chat_Lines
begin

text \<open>
  \<open>hw3client.c\<close>. The state is the content of \<open>input_buffer\<close>, the \<open>input_len\<close> bytes typed and not
  yet sent. What the two descriptors deliver is the argument of a round; the operations on them
  are its result. \<open>None\<close> as the next state is the end of the program.
\<close>

datatype clientop = Show string | Write string | Hangup

text \<open>\<open>sprintf(buffer, "%s\n", my_name)\<close> and the write; \<open>None\<close> is a write past the end of \<open>buffer\<close>.\<close>

definition client_hello :: "string \<Rightarrow> clientop list option" where
  "client_hello my_name =
     (let s = my_name @ [newline] in if length s + 1 \<le> MAX_MSG_LEN then Some [Write s] else None)"

text \<open>The loop that sends the complete lines; it ends the program behind a line \<open>!exit\<close>.\<close>

function send_lines :: "string \<Rightarrow> clientop list \<times> string option" where
  "send_lines b =
     (case first_index (\<lambda>c. c = newline) (c_str b) of None \<Rightarrow> ([], Some b)
      | Some k \<Rightarrow>
          (if has_prefix ''!exit'' b
           then ([Write (take (Suc k) b), Show (''client exiting'' @ [newline]), Hangup], None)
           else (let (os, r) = send_lines (drop (Suc k) b) in (Write (take (Suc k) b) # os, r))))"
  by pat_completeness auto
termination
proof (relation "measure length")
  fix b :: string and k :: nat
  assume "first_index (\<lambda>c. c = newline) (c_str b) = Some k"
  then have "k < length b" using first_index_SomeD length_c_str[of b] by fastforce
  then show "(drop (Suc k) b, b) \<in> measure length" by simp
qed simp

declare send_lines.simps [simp del]

text \<open>\<open>bytes\<close> typed; the empty string is the end of the input or an error.\<close>

definition client_typed :: "string \<Rightarrow> string \<Rightarrow> clientop list \<times> string option" where
  "client_typed bytes b =
     (if bytes = [] then ([Hangup], None)
      else (case send_lines (b @ bytes) of
              (os, None) \<Rightarrow> (os, None)
            | (os, Some r) \<Rightarrow>
                if length r \<ge> MAX_MSG_LEN - 1 then (os @ [Write r], Some []) else (os, Some r)))"

text \<open>One iteration of the main loop: \<open>None\<close> for a descriptor that is not ready.\<close>

definition client_round :: "string option \<Rightarrow> string option \<Rightarrow> string \<Rightarrow> clientop list \<times> string option" where
  "client_round from_server from_user b =
     (let typed = (case from_user of None \<Rightarrow> ([], Some b) | Some bytes \<Rightarrow> client_typed bytes b)
      in case from_server of None \<Rightarrow> typed
         | Some [] \<Rightarrow> ([Show (''Server disconnected.'' @ [newline]), Hangup], None)
         | Some bytes \<Rightarrow> (Show (c_str bytes) # fst typed, snd typed))"

fun client_run :: "(string option \<times> string option) list \<Rightarrow> string \<Rightarrow> clientop list \<times> string option" where
  "client_run [] b = ([], Some b)"
| "client_run ((srv, usr) # evs) b =
     (case client_round srv usr b of
        (os, None) \<Rightarrow> (os, None)
      | (os, Some b') \<Rightarrow> (let (os', r) = client_run evs b' in (os @ os', r)))"

section \<open>What is sent\<close>

fun sent :: "clientop list \<Rightarrow> string" where
  "sent [] = []"
| "sent (Write s # os) = s @ sent os"
| "sent (Show s # os) = sent os"
| "sent (Hangup # os) = sent os"

lemma sent_append [simp]: "sent (os @ os') = sent os @ sent os'"
  by (induction os rule: sent.induct) auto

text \<open>The bytes typed in a list of events.\<close>

definition typed_in :: "(string option \<times> string option) list \<Rightarrow> string" where
  "typed_in evs = concat (map (\<lambda>(srv, usr). case usr of None \<Rightarrow> [] | Some bytes \<Rightarrow> bytes) evs)"

lemma typed_in_simps [simp]:
  "typed_in [] = []" "typed_in ((srv, None) # evs) = typed_in evs"
  "typed_in ((srv, Some bytes) # evs) = bytes @ typed_in evs"
  by (simp_all add: typed_in_def)

lemma send_lines_None: "first_index (\<lambda>c. c = newline) (c_str b) = None \<Longrightarrow> send_lines b = ([], Some b)"
  by (simp add: send_lines.simps[of b])

lemma send_lines_exit:
  "first_index (\<lambda>c. c = newline) (c_str b) = Some k \<Longrightarrow> has_prefix ''!exit'' b \<Longrightarrow>
   send_lines b = ([Write (take (Suc k) b), Show (''client exiting'' @ [newline]), Hangup], None)"
  by (simp add: send_lines.simps[of b])

lemma send_lines_more:
  "first_index (\<lambda>c. c = newline) (c_str b) = Some k \<Longrightarrow> \<not> has_prefix ''!exit'' b \<Longrightarrow>
   send_lines b = (Write (take (Suc k) b) # fst (send_lines (drop (Suc k) b)), snd (send_lines (drop (Suc k) b)))"
  by (simp add: send_lines.simps[of b] case_prod_beta)

lemma send_lines_sent:
  "send_lines b = (os, e) \<Longrightarrow> case e of Some r \<Rightarrow> sent os @ r = b | None \<Rightarrow> \<exists>rest. sent os @ rest = b"
proof (induction b arbitrary: os e rule: send_lines.induct)
  case (1 b)
  show ?case
  proof (cases "first_index (\<lambda>c. c = newline) (c_str b)")
    case None
    then show ?thesis using 1 by (auto simp: send_lines_None)
  next
    case (Some k)
    show ?thesis
    proof (cases "has_prefix ''!exit'' b")
      case True
      then show ?thesis using "1.prems" append_take_drop_id[of "Suc k" b]
        by (auto simp: send_lines_exit[OF Some] simp del: append_take_drop_id)
    next
      case False
      obtain os' e' where d: "send_lines (drop (Suc k) b) = (os', e')" by fastforce
      then have "os = Write (take (Suc k) b) # os'" "e = e'"
        using "1.prems" by (auto simp: send_lines_more[OF Some False])
      moreover have "case e' of Some r \<Rightarrow> sent os' @ r = drop (Suc k) b
        | None \<Rightarrow> \<exists>rest. sent os' @ rest = drop (Suc k) b" using "1.IH"[OF Some False d] .
      ultimately show ?thesis
        by (auto split: option.splits) (metis append_take_drop_id)+
    qed
  qed
qed

lemma client_typed_sent:
  assumes "client_typed bytes b = (os, e)"
  shows "case e of Some r \<Rightarrow> sent os @ r = b @ bytes | None \<Rightarrow> \<exists>rest. sent os @ rest = b @ bytes"
proof (cases "bytes = []")
  case True
  then show ?thesis using assms by (auto simp: client_typed_def)
next
  case False
  obtain os' e' where s: "send_lines (b @ bytes) = (os', e')" by fastforce
  show ?thesis using send_lines_sent[OF s] assms False s
    by (auto simp: client_typed_def split: option.splits if_splits)
qed

lemma client_round_sent:
  assumes "client_round srv usr b = (os, e)"
  shows "case e of Some r \<Rightarrow> sent os @ r = b @ typed_in [(srv, usr)]
    | None \<Rightarrow> \<exists>rest. sent os @ rest = b @ typed_in [(srv, usr)]"
proof -
  obtain os' e' where t: "(case usr of None \<Rightarrow> ([], Some b) | Some bytes \<Rightarrow> client_typed bytes b) = (os', e')"
    by fastforce
  then have "case e' of Some r \<Rightarrow> sent os' @ r = b @ typed_in [(srv, usr)]
    | None \<Rightarrow> \<exists>rest. sent os' @ rest = b @ typed_in [(srv, usr)]"
    using client_typed_sent by (cases usr) auto
  moreover have "(\<exists>x. os = Show x # os') \<and> e = e' \<or> os = os' \<and> e = e' \<or> sent os = [] \<and> e = None"
    using assms t by (auto simp: client_round_def Let_def split: option.splits list.splits)
  ultimately show ?thesis by (auto split: option.splits)
qed

lemma client_run_sent:
  "client_run evs b = (os, e) \<Longrightarrow>
   case e of Some r \<Rightarrow> sent os @ r = b @ typed_in evs | None \<Rightarrow> \<exists>rest. sent os @ rest = b @ typed_in evs"
proof (induction evs arbitrary: b os e)
  case Nil
  then show ?case by auto
next
  case (Cons ev evs)
  obtain srv usr where ev: "ev = (srv, usr)" by fastforce
  obtain os1 e1 where r: "client_round srv usr b = (os1, e1)" by fastforce
  have t: "typed_in (ev # evs) = typed_in [(srv, usr)] @ typed_in evs" by (simp add: typed_in_def ev)
  show ?case
  proof (cases e1)
    case None
    then have "os = os1" "e = None" using Cons.prems r by (auto simp: ev)
    moreover obtain rest where "sent os1 @ rest = b @ typed_in [(srv, usr)]" using client_round_sent[OF r] None by auto
    then have "sent os1 @ rest @ typed_in evs = b @ typed_in (ev # evs)" by (metis append.assoc t)
    ultimately show ?thesis by auto
  next
    case (Some b')
    obtain os2 where c: "client_run evs b' = (os2, e)" "os = os1 @ os2"
      using Cons.prems r Some by (auto simp: ev split: prod.splits)
    have "sent os1 @ b' = b @ typed_in [(srv, usr)]" using client_round_sent[OF r] Some by simp
    then have h: "sent os1 @ b' @ typed_in evs = b @ typed_in (ev # evs)" by (metis append.assoc t)
    show ?thesis
    proof (cases e)
      case None
      then obtain rest where "sent os2 @ rest = b' @ typed_in evs" using Cons.IH[OF c(1)] by auto
      then have "sent os @ rest = b @ typed_in (ev # evs)" using h c(2) by (metis append.assoc sent_append)
      then show ?thesis using None by auto
    next
      case (Some r')
      then have "sent os2 @ r' = b' @ typed_in evs" using Cons.IH[OF c(1)] by auto
      then show ?thesis using h c(2) Some by simp
    qed
  qed
qed

text \<open>
  Between two rounds the buffer has room for at least one byte: \<open>read\<close> is never asked for 0 bytes,
  whose result would be taken for the end of the input.
\<close>

lemma client_round_short:
  "client_round srv usr b = (os, Some r) \<Longrightarrow> length b < MAX_MSG_LEN - 1 \<Longrightarrow> length r < MAX_MSG_LEN - 1"
  by (auto simp: client_round_def Let_def client_typed_def MAX_MSG_LEN_def split: option.splits list.splits if_splits prod.splits)

lemma client_run_short:
  "client_run evs b = (os, Some r) \<Longrightarrow> length b < MAX_MSG_LEN - 1 \<Longrightarrow> length r < MAX_MSG_LEN - 1"
  by (induction evs b arbitrary: os rule: client_run.induct)
    (auto split: option.splits prod.splits dest: client_round_short)

section \<open>Lines typed\<close>

lemma exit_line:
  assumes "first_index (\<lambda>c. c = newline) (c_str b) = Some k" "has_prefix ''!exit'' b"
  shows "has_prefix ''!exit'' (take (Suc k) b)"
proof -
  obtain s where s: "b = ''!exit'' @ s" using assms(2) has_prefix_iff by blast
  have c: "c_str b = ''!exit'' @ c_str s" by (simp add: s c_str_def)
  note k = first_index_SomeD[OF assms(1)]
  have "k \<ge> 5"
  proof (rule ccontr)
    assume "\<not> k \<ge> 5"
    then have "k \<in> {0,1,2,3,4}" by auto
    then show False using k by (auto simp: c)
  qed
  then show ?thesis by (simp add: s has_prefix_def)
qed

lemma send_lines_frames:
  "\<forall>m \<in> set (fst (frames b)). \<not> has_prefix ''!exit'' m \<Longrightarrow>
   send_lines b = (map Write (fst (frames b)), Some (snd (frames b)))"
proof (induction b rule: frames.induct)
  case (1 b)
  show ?case
  proof (cases "first_index (\<lambda>c. c = newline) (c_str b)")
    case None
    then show ?thesis by (simp add: send_lines_None frames_None)
  next
    case (Some k)
    have "\<not> has_prefix ''!exit'' b" using exit_line[OF Some] "1.prems" by (auto simp: frames_Some[OF Some])
    then show ?thesis using "1.IH"[OF Some] "1.prems" by (simp add: send_lines_more[OF Some] frames_Some[OF Some])
  qed
qed

text \<open>Events without a disconnection, an end of the input or an error.\<close>

definition uneventful :: "(string option \<times> string option) list \<Rightarrow> bool" where
  "uneventful evs \<longleftrightarrow> (\<forall>(srv, usr) \<in> set evs. srv \<noteq> Some [] \<and> usr \<noteq> Some [])"

lemma client_sends_lines:
  assumes "\<forall>l \<in> set ls. line_ok l \<and> \<not> has_prefix ''!exit'' (ended l)" "b @ typed_in evs = join_lines ls"
    "newline \<notin> set b" "length b < MAX_MSG_LEN - 1" "uneventful evs"
  shows "snd (client_run evs b) = Some []"
  using assms
proof (induction evs arbitrary: b ls)
  case Nil
  then show ?case using lines_nil[of ls] by simp
next
  case (Cons ev evs)
  obtain srv usr where ev: "ev = (srv, usr)" by fastforce
  have u: "srv \<noteq> Some []" "usr \<noteq> Some []" "uneventful evs" using Cons.prems(5) by (auto simp: ev uneventful_def)
  show ?case
  proof (cases usr)
    case None
    then have "snd (client_round srv usr b) = Some b"
      using u(1) by (auto simp: client_round_def Let_def split: option.splits list.splits)
    moreover have "snd (client_run evs b) = Some []"
      using Cons.IH[OF Cons.prems(1) _ Cons.prems(3,4) u(3)] Cons.prems(2) ev None by simp
    ultimately show ?thesis by (auto simp: ev case_prod_beta)
  next
    case (Some x)
    have "b @ x @ typed_in evs = join_lines ls" using Cons.prems(2) by (simp add: ev Some)
    then obtain ls1 ls2 r where f: "ls = ls1 @ ls2" "frames (b @ x) = (map ended ls1, r)"
      "r @ typed_in evs = join_lines ls2" "newline \<notin> set r" "length r < MAX_MSG_LEN - 1"
      using frames_chunk[of ls b x "typed_in evs"] Cons.prems(1) by metis
    have "send_lines (b @ x) = (map Write (map ended ls1), Some r)"
      using send_lines_frames[of "b @ x"] Cons.prems(1) f(1,2) by simp
    then have "snd (client_typed x b) = Some r" using u(2) f(5) by (simp add: client_typed_def Some)
    then have "snd (client_round srv usr b) = Some r"
      using u(1) by (auto simp: client_round_def Let_def Some split: option.splits list.splits)
    moreover have "snd (client_run evs r) = Some []"
      using Cons.IH[OF _ f(3,4,5) u(3)] Cons.prems(1) f(1) by simp
    ultimately show ?thesis by (auto simp: ev case_prod_beta)
  qed
qed

end
