(* ===== verification/Chat_Props.thy ===== *)
theory Chat_Props
  imports Chat_Inv Chat_Client
begin

text \<open>
  The properties of the chat: the bounds of the server's buffers in every reachable state, who
  gets which message, that every ready client is served exactly once in a round although clients
  are removed under way, when \<open>formatted_msg\<close> overflows, and that what a user types arrives line
  by line whatever way the terminal and the network cut it into pieces.
\<close>

section \<open>An example\<close>

definition ann :: client where
  "ann = \<lparr>socket_fd = 4, cname = ''ann'', cip = ''10.0.0.1'', cbuffer = ''h''\<rparr>"

definition bob :: client where
  "bob = \<lparr>socket_fd = 5, cname = ''bob'', cip = ''10.0.0.2'', cbuffer = []\<rparr>"

definition eve :: client where
  "eve = \<lparr>socket_fd = 6, cname = ''eve'', cip = ''10.0.0.3'', cbuffer = []\<rparr>"

definition chat_recv :: "int \<Rightarrow> nat \<Rightarrow> string" where
  "chat_recv fd n = take n (if fd = 4 then ''i'' @ [newline] else if fd = 5 then [] else ''@bob x'' @ [newline])"

definition room :: "client list" where
  "room = [ann, bob, eve]"

lemmas room_defs = room_def ann_def bob_def eve_def

lemma room_ok: "server_ok room" "sockets_ok None chat_recv room"
  by (auto simp: server_ok_def client_ok_def room_defs MAX_CLIENTS_def MAX_MSG_LEN_def sockets_ok_def chat_recv_def c_str_def)

lemma room_round:
  "server_round None (\<lambda>_. True) chat_recv room =
   Some ([Send 4 (''ann: hi'' @ [newline]), Send 5 (''ann: hi'' @ [newline]), Send 6 (''ann: hi'' @ [newline]), Close 5],
     [ann\<lparr>cbuffer := []\<rparr>, eve])"
  by code_simp

section \<open>Bounds and routing\<close>

text \<open>C27: In every state the server reaches there are at most 16 clients, their descriptors are
  distinct, their names are C strings of at most 255 bytes, and each buffer holds at most 255 bytes,
  so that there is room for the null byte, with no newline in the string it starts with.\<close>

theorem chat_invariant:
  assumes "reachable chat_start chat_step cs"
  shows "length cs \<le> 16 \<and> distinct (map socket_fd cs) \<and>
    (\<forall>c \<in> set cs. length (cname c) \<le> 255 \<and> nul \<notin> set (cname c) \<and>
       length (cbuffer c) \<le> 255 \<and> newline \<notin> set (c_str (cbuffer c)))"
  using chat.reachable_inv[OF assms] by (auto simp: server_ok_def client_ok_def MAX_CLIENTS_def MAX_MSG_LEN_def)

theorem chat_invariant_witness: "distinct (map socket_fd [eve]) \<and> length (cname eve) \<le> 255"
proof -
  have "server_round (Some (6, ''10.0.0.3'', ''eve'' @ [newline])) (\<lambda>_. False) chat_recv [] = Some ([], [eve])"
    by code_simp
  moreover have "sockets_ok (Some (6, ''10.0.0.3'', ''eve'' @ [newline])) chat_recv []"
    using room_ok(2) by (simp add: sockets_ok_def MAX_MSG_LEN_def)
  ultimately have "chat_step [] [eve]" by (rule chat_step.round[rotated])
  then have "reachable chat_start chat_step [eve]"
    using reach_step[of chat_start chat_step "[]"] by (simp add: reach_start chat_start_def)
  from chat_invariant[OF this] show ?thesis by simp
qed

text \<open>C28: A message \<open>@name rest\<close> goes to the first client of that name and nobody else, one with \<open>@\<close>
  and no space, or a name that nobody has, to nobody, and every other message to all clients, the
  sender included; it arrives as one line with the sender's name in front. The only failure is a
  line of more than 508 bytes without its punctuation, which overflows \<open>formatted_msg\<close>.\<close>

theorem message_routing:
  assumes "i < length cs"
  shows "process_message i msg cs =
    (if recipients (chomp msg) cs = [] \<or> length (cname (cs ! i)) + length (chomp msg) \<le> 508
     then Some (map (\<lambda>c. Send (socket_fd c) (cname (cs ! i) @ '': '' @ chomp msg @ [newline]))
                  (recipients (chomp msg) cs))
     else None)"
  using process_message_eq[OF assms, of msg] by (simp add: Let_def chat_line_def)

theorem message_routing_witness:
  "process_message 2 (''@bob x'' @ [newline]) room = Some [Send 5 (''eve: @bob x'' @ [newline])]"
proof -
  have "process_message 2 (''@bob x'' @ [newline]) room =
    (if recipients (chomp (''@bob x'' @ [newline])) room = [] \<or>
        length (cname (room ! 2)) + length (chomp (''@bob x'' @ [newline])) \<le> 508
     then Some (map (\<lambda>c. Send (socket_fd c) (cname (room ! 2) @ '': '' @ chomp (''@bob x'' @ [newline]) @ [newline]))
                  (recipients (chomp (''@bob x'' @ [newline])) room))
     else None)"
    by (rule message_routing) (simp add: room_def)
  also have "\<dots> = Some [Send 5 (''eve: @bob x'' @ [newline])]" by code_simp
  finally show ?thesis .
qed

text \<open>C29: A round of the server, whose loop removes clients from the array it runs over, serves every
  ready client exactly once and no other: up to order, the clients afterwards are the outcomes of
  serving each client that was there (and the newly accepted one, not yet watched) on its own.\<close>

theorem round_serves_each:
  assumes "server_ok cs" "sockets_ok conn recv cs" "server_round conn ready recv cs = Some (os, cs')"
  shows "mset cs' =
    mset (List.map_filter (round_after (\<lambda>fd. ready fd \<and> fd \<in> socket_fd ` set cs) recv)
      (case conn of None \<Rightarrow> cs | Some (fd, ip, bytes) \<Rightarrow> snd (accept_client fd ip bytes cs)))"
proof -
  obtain cs1 os2 where r: "cs1 = (case conn of None \<Rightarrow> cs | Some (fd, ip, bytes) \<Rightarrow> snd (accept_client fd ip bytes cs))"
    "client_loop 0 (\<lambda>fd. ready fd \<and> fd \<in> socket_fd ` set cs) recv cs1 = Some (os2, cs')"
    by (rule server_round_split[OF assms(3)])
  have "server_ok cs1" using r(1) assms(1,2) accept_ok by (auto split: option.splits)
  then show ?thesis using client_loop_serves[OF r(2)] r(1) by (simp add: server_ok_def)
qed

theorem round_serves_each_witness:
  "mset [ann\<lparr>cbuffer := []\<rparr>, eve] =
   mset (List.map_filter (round_after (\<lambda>fd. fd \<in> socket_fd ` set room) chat_recv) room)"
  using round_serves_each[OF room_ok room_round] by simp

section \<open>The format buffer\<close>

lemma client_ok_distinct_gone:
  assumes "i < length cs" "distinct (map socket_fd cs)" "cs' = butlast (if i < length cs - 1 then cs[i := last cs] else cs)"
  shows "distinct (map socket_fd cs')" "set cs' \<subseteq> set cs"
proof -
  note rs = remove_swap[OF assms(1), folded assms(3)]
  have "mset cs' = mset (take i cs') + mset (drop i cs')" by (metis append_take_drop_id mset_append)
  also have "\<dots> = mset (take i cs) + mset (drop (Suc i) cs)" using rs by simp
  finally have m: "add_mset (cs ! i) (mset cs') = mset cs"
    using arg_cong[OF id_take_nth_drop[OF assms(1)], of mset] by simp
  then have "mset (map socket_fd (cs ! i # cs')) = mset (map socket_fd cs)" by (metis mset.simps(2) mset_map)
  then have "distinct (map socket_fd (cs ! i # cs'))" using assms(2) mset_eq_imp_distinct_iff by blast
  then show "distinct (map socket_fd cs')" by simp
  have "set (cs ! i # cs') = set cs" using m by (metis mset.simps(2) set_mset_mset)
  then show "set cs' \<subseteq> set cs" by auto
qed

lemma process_message_fits:
  "i < length cs \<Longrightarrow> length (cname (cs ! i)) \<le> 253 \<Longrightarrow> length msg \<le> 255 \<Longrightarrow> process_message i msg cs \<noteq> None"
  using process_message_eq[of i cs msg] length_chomp[of msg] by (simp add: Let_def)

lemma process_all_fits:
  "\<forall>m \<in> set ms. length m \<le> 255 \<Longrightarrow> i < length cs \<Longrightarrow> length (cname (cs ! i)) \<le> 253 \<Longrightarrow>
   process_all i ms cs \<noteq> None"
  using process_message_fits by (induction ms) (auto split: option.splits)

lemma frames_length:
  assumes "m \<in> set (fst (frames b))"
  shows "length m \<le> length b"
proof -
  have "length m \<le> length (concat (fst (frames b)))" using assms
    by (induction "fst (frames b)") (auto simp: length_concat member_le_sum_list)
  then show ?thesis using frames_rest[of b] by (metis length_append trans_le_add1)
qed

text \<open>Serving one client whose name is short enough never overflows.\<close>

lemma serve_client_fits:
  assumes "i < length cs" "length (cname (cs ! i)) \<le> 253" "client_ok (cs ! i)" "\<forall>n. length (recv n) \<le> n"
  shows "serve_client i recv cs \<noteq> None"
proof -
  let ?b = "kept_buffer (cs ! i)" and ?x = "recv (MAX_MSG_LEN - length (kept_buffer (cs ! i)) - 1)"
  have "length ?b < MAX_MSG_LEN" by (simp add: kept_buffer_def MAX_MSG_LEN_def)
  moreover have "length ?x \<le> MAX_MSG_LEN - length ?b - 1" using assms(4) by blast
  ultimately have "length (?b @ ?x) \<le> 255" by (simp add: MAX_MSG_LEN_def)
  then have "\<forall>m \<in> set (fst (frames (?b @ ?x))). length m \<le> 255" using frames_length by (meson le_trans)
  then have d: "drain i cs (?b @ ?x) \<noteq> None"
    using process_all_fits assms(1,2) by (simp add: drain_frames)
  have "length (c_str (cbuffer (cs ! i))) \<le> 255"
    using assms(3) length_c_str[of "cbuffer (cs ! i)"] by (simp add: client_ok_def MAX_MSG_LEN_def)
  then have "process_message i (c_str (cbuffer (cs ! i))) cs \<noteq> None" using process_message_fits assms(1,2) by blast
  then show ?thesis using d by (auto simp: serve_client_def Let_def kept_buffer_def split: option.splits prod.splits)
qed

lemma client_loop_fits:
  assumes "\<forall>c \<in> set cs. client_ok c \<and> (ready (socket_fd c) \<longrightarrow> length (cname c) \<le> 253)"
    "distinct (map socket_fd cs)" "\<forall>fd n. length (recv fd n) \<le> n"
  shows "client_loop i ready recv cs \<noteq> None"
  using assms
proof (induction i ready recv cs rule: client_loop.induct)
  case (1 i ready recv cs)
  show ?case
  proof (cases "i < length cs \<and> ready (socket_fd (cs ! i))")
    case False
    then show ?thesis using "1.IH"(2)[OF _ refl] "1.prems"
      by (cases "i < length cs") (auto simp: client_loop.simps[of i ready recv cs] Let_def)
  next
    case True
    then have i: "i < length cs" and r: "ready (socket_fd (cs ! i))" by auto
    have c: "client_ok (cs ! i)" "length (cname (cs ! i)) \<le> 253" using "1.prems"(1) i r by auto
    obtain os1 cs1 removed where s: "serve_client i (recv (socket_fd (cs ! i))) cs = Some (os1, cs1, removed)"
      using serve_client_fits[OF i c(2,1)] "1.prems"(3) by (metis not_None_eq prod_cases3)
    have k: "(\<forall>c \<in> set cs1. client_ok c \<and> (ready (socket_fd c) \<longrightarrow> length (cname c) \<le> 253)) \<and> distinct (map socket_fd cs1)"
      using s i "1.prems"(2)
    proof (cases rule: serve_client_cases)
      case gone
      show ?thesis using client_ok_distinct_gone[OF i "1.prems"(2) gone(3)] "1.prems"(1) by blast
    next
      case (served c')
      have "client_ok c'" using client_after_ok[OF c(1) served(2) "1.prems"(3)] .
      moreover have "map socket_fd cs1 = map socket_fd cs"
        using served(3) client_after_fd[OF served(2)] i by (simp add: map_update map_update_same)
      moreover have "set cs1 \<subseteq> insert c' (set cs)" using served(3) set_update_subset_insert by fastforce
      ultimately show ?thesis using "1.prems"(1,2) client_after_fd[OF served(2)] c(2) by fastforce
    qed
    define j where "j = (if removed then i else Suc i)"
    have "client_loop j ready recv cs1 \<noteq> None"
      using "1.IH"(1)[OF i refl r s refl refl] k "1.prems"(3) unfolding j_def by blast
    moreover have "client_loop i ready recv cs =
        (case client_loop j ready recv cs1 of None \<Rightarrow> None | Some (os', cs'') \<Rightarrow> Some (os1 @ os', cs''))"
      using s i r by (simp add: client_loop.simps[of i ready recv cs] Let_def j_def)
    ultimately show ?thesis by auto
  qed
qed

text \<open>C30: While no client's name is longer than 253 bytes, no round of the server writes past the end of
  \<open>formatted_msg\<close>, whatever the clients send, in whatever pieces, and whoever connects or leaves.\<close>

theorem overflow_safe:
  assumes "server_ok cs" "sockets_ok conn recv cs" "\<forall>c \<in> set cs. length (cname c) \<le> 253"
  shows "server_round conn ready recv cs \<noteq> None"
proof -
  let ?cs1 = "case conn of None \<Rightarrow> cs | Some (fd, ip, bytes) \<Rightarrow> snd (accept_client fd ip bytes cs)"
  let ?ready = "\<lambda>fd. ready fd \<and> fd \<in> socket_fd ` set cs"
  have ok: "server_ok ?cs1" using assms(1,2) accept_ok by (auto split: option.splits)
  have "length (cname c) \<le> 253" if "c \<in> set ?cs1" "socket_fd c \<in> socket_fd ` set cs" for c
    using that assms(2,3) by (auto simp: accept_client_def sockets_ok_def split: option.splits if_splits prod.splits)
  then have "client_loop 0 ?ready recv ?cs1 \<noteq> None"
    using ok assms(2) by (intro client_loop_fits) (auto simp: server_ok_def sockets_ok_def)
  then show ?thesis by (auto simp: server_round_def Let_def split: option.splits prod.splits)
qed

theorem overflow_safe_witness: "server_round (Some (9, '''', ''kim'')) (\<lambda>_. True) chat_recv room \<noteq> None"
proof (rule overflow_safe)
  show "sockets_ok (Some (9, '''', ''kim'')) chat_recv room"
    using room_ok(2) by (simp add: sockets_ok_def room_defs MAX_MSG_LEN_def)
qed (rule room_ok, simp add: room_defs)


text \<open>The first bytes read from a connection are all taken for the name, a message behind it included.\<close>

lemma first_message_lost:
  "accept_client 4 '''' (''ann'' @ [newline] @ ''hello'' @ [newline]) [] =
   ([], [\<lparr>socket_fd = 4, cname = ''ann'' @ [newline] @ ''hello'', cip = '''', cbuffer = []\<rparr>])"
  by code_simp

section \<open>From the user to the others\<close>

text \<open>The client neither loses nor repeats nor reorders what is typed: while it runs, the bytes sent
  so far followed by its buffer are the bytes typed so far, the buffer always has room for at least
  one byte more, and when it ends, it has sent a prefix of them.\<close>

lemma client_stream:
  assumes "client_run evs [] = (os, next_state)"
  shows "case next_state of
      Some b \<Rightarrow> sent os @ b = typed_in evs \<and> length b < 255
    | None \<Rightarrow> \<exists>rest. sent os @ rest = typed_in evs"
  using client_run_sent[OF assms] client_run_short[of evs "[]" os] assms
  by (auto simp: MAX_MSG_LEN_def split: option.splits)

definition chat_events :: "(string option \<times> string option) list" where
  "chat_events = [(Some ''ann: hi'', Some ''he''), (None, Some (''llo'' @ [newline] @ ''@an'')), (Some (''x'' @ [newline]), None),
     (None, Some (''n you'' @ [newline]))]"

lemma client_stream_witness:
  "sent (fst (client_run chat_events [])) = ''hello'' @ [newline] @ ''@ann you'' @ [newline]"
proof -
  have "client_run chat_events [] = (fst (client_run chat_events []), Some [])" by code_simp
  from client_stream[OF this] show ?thesis by (simp add: chat_events_def)
qed







end
