(* ===== verification/Chat_Setup.thy ===== *)
theory Chat_Setup
  imports Chat_Client Chat_Inv
begin

text \<open>
  The beginnings of the two programs of the chat: the command line, the socket and its errors, and
  the arguments of \<open>select\<close>. The results of the socket calls are parameters (\<open>netlib\<close>); the calls
  made, in order, are part of the result.
\<close>

section \<open>Calls and results\<close>

text \<open>
  What the library answers: a descriptor or a negative number from \<open>socket\<close>; 0 or -1 from
  \<open>bind\<close>, \<open>listen\<close> and \<open>connect\<close>; 1, 0 or -1 from \<open>inet_pton\<close>, with the address it stores. A
  port is the 16 bits that \<open>htons\<close> puts in network order.
\<close>

type_synonym uint16 = "16 word"

record netlib =
  socket_result :: cint
  bind_result :: "cint \<Rightarrow> uint16 \<Rightarrow> cint"
  listen_result :: "cint \<Rightarrow> cint"
  pton_result :: "string \<Rightarrow> cint \<times> uint32"
  connect_result :: "cint \<Rightarrow> uint32 \<Rightarrow> uint16 \<Rightarrow> cint"

datatype netop = MakeSocket | ReuseAddr cint | Bind cint uint16 | Listen cint nat
  | Connect cint uint32 uint16

text \<open>A program that started, or the message with which it ended: on its usage, or by \<open>perror\<close>.\<close>

datatype 'a started = Usage string | Perror string | Up 'a

section \<open>The server\<close>

definition server_start :: "netlib \<Rightarrow> string \<Rightarrow> string list \<Rightarrow> netop list \<times> cint started" where
  "server_start N prog args =
     (case args of
        [port_arg] \<Rightarrow>
          (let port = word_of_int (atoi port_arg);
               listen_fd = socket_result N
           in if listen_fd < 0 then ([MakeSocket], Perror ''socket'')
              else if bind_result N listen_fd port < 0
              then ([MakeSocket, ReuseAddr listen_fd, Bind listen_fd port], Perror ''bind'')
              else if listen_result N listen_fd < 0
              then ([MakeSocket, ReuseAddr listen_fd, Bind listen_fd port, Listen listen_fd MAX_CLIENTS],
                    Perror ''listen'')
              else ([MakeSocket, ReuseAddr listen_fd, Bind listen_fd port, Listen listen_fd MAX_CLIENTS],
                    Up listen_fd))
      | _ \<Rightarrow> ([], Usage (''Usage: '' @ prog @ '' <port>'' @ [newline])))"

text \<open>The descriptors the main loop watches, and the \<open>max_fd\<close> it computes for \<open>select\<close>.\<close>

definition server_watch :: "int \<Rightarrow> client list \<Rightarrow> int list \<times> int" where
  "server_watch listen_fd cs =
     foldl (\<lambda>(read_set, max_fd) c. (read_set @ [socket_fd c], if socket_fd c > max_fd then socket_fd c else max_fd))
       ([listen_fd], listen_fd) cs"

section \<open>The client\<close>

definition STDIN_FILENO :: int where
  "STDIN_FILENO = 0"

definition client_start :: "netlib \<Rightarrow> string \<Rightarrow> string list \<Rightarrow> netop list \<times> (cint \<times> string) started" where
  "client_start N prog args =
     (case args of
        [server_ip, port_arg, my_name] \<Rightarrow>
          (let port = word_of_int (atoi port_arg);
               sock_fd = socket_result N;
               (ok, addr) = pton_result N server_ip
           in if sock_fd < 0 then ([MakeSocket], Perror ''socket'')
              else if ok \<le> 0 then ([MakeSocket], Perror ''Invalid address'')
              else if connect_result N sock_fd addr port < 0
              then ([MakeSocket, Connect sock_fd addr port], Perror ''connect'')
              else ([MakeSocket, Connect sock_fd addr port], Up (sock_fd, my_name)))
      | _ \<Rightarrow> ([], Usage (''Usage: '' @ prog @ '' <server_ip> <port> <name>'' @ [newline])))"

definition client_max_fd :: "int \<Rightarrow> int" where
  "client_max_fd sock_fd = (if sock_fd > STDIN_FILENO then sock_fd else STDIN_FILENO)"

section \<open>What they do\<close>

lemma server_start_Up:
  "server_start N prog args = (calls, Up fd) \<longleftrightarrow>
   (\<exists>p. args = [p] \<and> fd = socket_result N \<and> 0 \<le> fd \<and> 0 \<le> bind_result N fd (word_of_int (atoi p)) \<and>
      0 \<le> listen_result N fd \<and>
      calls = [MakeSocket, ReuseAddr fd, Bind fd (word_of_int (atoi p)), Listen fd MAX_CLIENTS])"
  by (auto simp: server_start_def Let_def split: list.splits)

lemma client_start_Up:
  "client_start N prog args = (calls, Up (fd, nm)) \<longleftrightarrow>
   (\<exists>ip p. args = [ip, p, nm] \<and> fd = socket_result N \<and> 0 \<le> fd \<and> 0 < fst (pton_result N ip) \<and>
      0 \<le> connect_result N fd (snd (pton_result N ip)) (word_of_int (atoi p)) \<and>
      calls = [MakeSocket, Connect fd (snd (pton_result N ip)) (word_of_int (atoi p))])"
  by (auto simp: client_start_def Let_def split: list.splits prod.splits)

text \<open>No port is refused: the number on the command line is taken modulo \<open>2 ^ 16\<close>.\<close>

lemma port_wraps:
  assumes "atoi p mod 65536 = atoi q mod 65536"
  shows "server_start N prog [p] = server_start N prog [q]"
proof -
  have "(word_of_int (atoi p) :: uint16) = word_of_int (atoi q)"
    using assms by (simp add: word_of_int_eq_iff take_bit_eq_mod)
  then show ?thesis by (simp add: server_start_def)
qed

text \<open>\<open>select\<close> gets every descriptor the loop looks at, all of them at most \<open>max_fd\<close>.\<close>

lemma server_watch_correct:
  "fst (server_watch listen_fd cs) = listen_fd # map socket_fd cs \<and>
   snd (server_watch listen_fd cs) = Max (set (listen_fd # map socket_fd cs))"
proof -
  have "foldl (\<lambda>(rs, m) c. (rs @ [socket_fd c], if socket_fd c > m then socket_fd c else m)) (ws, Max (set ws)) cs =
      (ws @ map socket_fd cs, Max (set (ws @ map socket_fd cs)))" if "ws \<noteq> []" for ws
    using that
  proof (induction cs arbitrary: ws)
    case (Cons c cs)
    have "Max (set (ws @ [socket_fd c])) = max (socket_fd c) (Max (set ws))" using Cons.prems by simp
    then have "(if socket_fd c > Max (set ws) then socket_fd c else Max (set ws)) = Max (set (ws @ [socket_fd c]))"
      by (simp only: max_def) auto
    then show ?case using Cons.IH[of "ws @ [socket_fd c]"] by simp
  qed simp
  from this[of "[listen_fd]"] show ?thesis by (simp add: server_watch_def)
qed

end
