(* ===== verification/Chat_Main.thy ===== *)
theory Chat_Main
  imports Chat_Setup Chat_Inv
begin

text \<open>
  The two programs of the chat as a whole: the main loops around \<open>select\<close>, which may be
  interrupted or fail, the lines the server prints on its terminal, and \<open>main\<close> from the command
  line on. The state of the loops and what one round of them does are those of \<open>Chat_Server\<close> and
  \<open>Chat_Client\<close>.
\<close>

section \<open>What select answers\<close>

text \<open>Descriptors are ready, with what they deliver; or -1, with \<open>errno\<close> \<open>EINTR\<close> or another.\<close>

datatype 'e selected = Selected 'e | Interrupted | SelectError

text \<open>The rounds of a loop that goes on after \<open>EINTR\<close> and stops at another error.\<close>

fun rounds :: "'e selected list \<Rightarrow> 'e list" where
  "rounds [] = []"
| "rounds (Selected e # evs) = e # rounds evs"
| "rounds (Interrupted # evs) = rounds evs"
| "rounds (SelectError # evs) = []"

fun select_fails :: "'e selected list \<Rightarrow> bool" where
  "select_fails [] = False"
| "select_fails (Selected e # evs) = select_fails evs"
| "select_fails (Interrupted # evs) = select_fails evs"
| "select_fails (SelectError # evs) = True"

section \<open>The server\<close>

text \<open>The lines on the terminal.\<close>

datatype chatlog = Connected string string | Disconnected string

fun log_text :: "chatlog \<Rightarrow> string" where
  "log_text (Connected nm ip) = ''client '' @ nm @ '' connected from '' @ ip @ [newline]"
| "log_text (Disconnected nm) = ''client '' @ nm @ '' disconnected'' @ [newline]"

definition accept_log :: "string \<Rightarrow> string \<Rightarrow> client list \<Rightarrow> chatlog list" where
  "accept_log ip bytes cs =
     (if length bytes > 0 \<and> length cs < MAX_CLIENTS then [Connected (chomp (c_str bytes)) ip] else [])"

definition remove_log :: "int \<Rightarrow> client list \<Rightarrow> chatlog list" where
  "remove_log fd cs =
     (case first_index (\<lambda>c. socket_fd c = fd) cs of None \<Rightarrow> [] | Some i \<Rightarrow> [Disconnected (cname (cs ! i))])"

text \<open>What the loop over the clients prints: \<open>remove_client\<close> is its only source of output.\<close>

function loop_log :: "nat \<Rightarrow> (int \<Rightarrow> bool) \<Rightarrow> (int \<Rightarrow> nat \<Rightarrow> string) \<Rightarrow> client list \<Rightarrow> chatlog list" where
  "loop_log i ready recv cs =
     (if i < length cs
      then (let fd = socket_fd (cs ! i) in
            if ready fd
            then (case serve_client i (recv fd) cs of None \<Rightarrow> []
                  | Some (os, cs', removed) \<Rightarrow>
                      (if removed then remove_log fd cs else []) @
                      loop_log (if removed then i else Suc i) ready recv cs')
            else loop_log (Suc i) ready recv cs)
      else [])"
  by pat_completeness auto
termination
  by (relation "measure (\<lambda>(i, ready, recv, cs). length cs - i)")
    (auto dest: serve_client_length split: if_splits)

declare loop_log.simps [simp del]

type_synonym round_in = "(int \<times> string \<times> string) option \<times> (int \<Rightarrow> bool) \<times> (int \<Rightarrow> nat \<Rightarrow> string)"

definition round_log :: "round_in \<Rightarrow> client list \<Rightarrow> chatlog list" where
  "round_log e cs =
     (case e of (conn, ready, recv) \<Rightarrow>
        let watched = socket_fd ` set cs;
            (l, cs1) = (case conn of None \<Rightarrow> ([], cs)
               | Some (fd, ip, bytes) \<Rightarrow> (accept_log ip bytes cs, snd (accept_client fd ip bytes cs)))
        in l @ loop_log 0 (\<lambda>fd. ready fd \<and> fd \<in> watched) recv cs1)"

text \<open>
  The main loop: still serving, stopped by \<open>perror("select")\<close> and \<open>exit(1)\<close>, or past the end of
  \<open>formatted_msg\<close>.
\<close>

datatype server_end = Serving "client list" | SelectFailed | Overran

fun server_loop :: "round_in selected list \<Rightarrow> client list \<Rightarrow> sockop list \<times> chatlog list \<times> server_end" where
  "server_loop [] cs = ([], [], Serving cs)"
| "server_loop (Interrupted # evs) cs = server_loop evs cs"
| "server_loop (SelectError # evs) cs = ([], [], SelectFailed)"
| "server_loop (Selected (conn, ready, recv) # evs) cs =
     (case server_round conn ready recv cs of
        None \<Rightarrow> ([], round_log (conn, ready, recv) cs, Overran)
      | Some (os, cs') \<Rightarrow>
          (case server_loop evs cs' of
             (os', l, e) \<Rightarrow> (os @ os', round_log (conn, ready, recv) cs @ l, e)))"

definition server_main ::
  "netlib \<Rightarrow> string \<Rightarrow> string list \<Rightarrow> round_in selected list \<Rightarrow>
   netop list \<times> (sockop list \<times> chatlog list \<times> server_end) started" where
  "server_main N prog args evs =
     (case server_start N prog args of
        (calls, Usage m) \<Rightarrow> (calls, Usage m)
      | (calls, Perror m) \<Rightarrow> (calls, Perror m)
      | (calls, Up listen_fd) \<Rightarrow> (calls, Up (server_loop evs [])))"

section \<open>The client\<close>

datatype client_end = Typing string | Ended | ClientSelectFailed

fun client_session ::
  "(string option \<times> string option) selected list \<Rightarrow> string \<Rightarrow> clientop list \<times> client_end" where
  "client_session [] b = ([], Typing b)"
| "client_session (Interrupted # evs) b = client_session evs b"
| "client_session (SelectError # evs) b = ([], ClientSelectFailed)"
| "client_session (Selected (srv, usr) # evs) b =
     (case client_round srv usr b of
        (os, None) \<Rightarrow> (os, Ended)
      | (os, Some b') \<Rightarrow> (case client_session evs b' of (os', e) \<Rightarrow> (os @ os', e)))"

text \<open>
  The whole client on what its descriptors deliver: the calls, and the operations on the socket
  and the terminal, or \<open>None\<close> when the name does not fit the buffer.
\<close>

definition client_main ::
  "netlib \<Rightarrow> string \<Rightarrow> string list \<Rightarrow> (string option \<times> string option) selected list \<Rightarrow>
   netop list \<times> (clientop list \<times> client_end) option started" where
  "client_main N prog args evs =
     (case client_start N prog args of
        (calls, Usage m) \<Rightarrow> (calls, Usage m)
      | (calls, Perror m) \<Rightarrow> (calls, Perror m)
      | (calls, Up (sock_fd, my_name)) \<Rightarrow>
          (calls, Up (case client_hello my_name of None \<Rightarrow> None
                      | Some os \<Rightarrow> (case client_session evs [] of (os', e) \<Rightarrow> Some (os @ os', e)))))"

section \<open>The loops and their rounds\<close>

text \<open>The client's loop is \<open>client_run\<close> on the rounds that \<open>select\<close> grants.\<close>

lemma client_session_run:
  "client_session evs b =
     (case client_run (rounds evs) b of
        (os, None) \<Rightarrow> (os, Ended)
      | (os, Some b') \<Rightarrow> (os, if select_fails evs then ClientSelectFailed else Typing b'))"
  by (induction evs b rule: client_session.induct) (auto split: prod.splits option.splits)

text \<open>All that the client writes: its name and then what the user typed, without loss.\<close>

lemma client_main_sent:
  assumes "client_main N prog args evs = (calls, Up (Some (os, Typing rest)))"
  shows "\<exists>ip p nm. args = [ip, p, nm] \<and> length nm + 2 \<le> MAX_MSG_LEN \<and>
    sent os @ rest = nm @ [newline] @ typed_in (rounds evs)"
proof -
  obtain calls' fd nm where st: "client_start N prog args = (calls', Up (fd, nm))"
    using assms by (auto simp: client_main_def split: started.splits prod.splits)
  then obtain ip p where a: "args = [ip, p, nm]" by (auto simp: client_start_Up)
  have h: "client_hello nm = Some [Write (nm @ [newline])]" "length nm + 2 \<le> MAX_MSG_LEN"
    using assms st by (auto simp: client_main_def client_hello_def Let_def split: option.splits if_splits)
  obtain os' where r: "client_session evs [] = (os', Typing rest)" "os = Write (nm @ [newline]) # os'"
    using assms st h(1) by (auto simp: client_main_def split: prod.splits)
  then have "client_run (rounds evs) [] = (os', Some rest)"
    by (auto simp: client_session_run split: prod.splits option.splits if_splits)
  then show ?thesis using a h(2) r(2) client_run_sent by fastforce
qed

section \<open>Who is in the room\<close>

fun came :: "chatlog list \<Rightarrow> string list" where
  "came [] = []" | "came (Connected nm ip # l) = nm # came l" | "came (Disconnected nm # l) = came l"

fun went :: "chatlog list \<Rightarrow> string list" where
  "went [] = []" | "went (Connected nm ip # l) = went l" | "went (Disconnected nm # l) = nm # went l"

lemma came_went_append [simp]: "came (l @ l') = came l @ came l'" "went (l @ l') = went l @ went l'"
  by (induction l rule: came.induct) simp_all

lemma remove_log_exact:
  "mset (map cname (snd (remove_client fd cs))) + mset (went (remove_log fd cs)) = mset (map cname cs) \<and>
   came (remove_log fd cs) = []"
proof (cases "first_index (\<lambda>c. socket_fd c = fd) cs")
  case None
  then show ?thesis by (simp add: remove_client_def remove_log_def)
next
  case (Some i)
  then have i: "i < length cs" using first_index_SomeD by blast
  let ?r = "butlast (if i < length cs - 1 then cs[i := last cs] else cs)"
  note rs = remove_swap[OF i]
  have "mset ?r = mset (take i ?r) + mset (drop i ?r)" by (metis append_take_drop_id mset_append)
  then have "add_mset (cs ! i) (mset ?r) = mset (take i cs) + add_mset (cs ! i) (mset (drop (Suc i) cs))"
    using rs by simp
  also have "\<dots> = mset cs" by (subst (4) id_take_nth_drop[OF i]) simp
  finally have "image_mset cname (add_mset (cs ! i) (mset ?r)) = image_mset cname (mset cs)" by simp
  then show ?thesis using Some by (simp add: remove_client_def remove_log_def)
qed

lemma serve_client_names:
  assumes "serve_client i rv cs = Some (os, cs', removed)"
  shows "if removed then cs' = snd (remove_client (socket_fd (cs ! i)) cs) else map cname cs' = map cname cs"
  using assms
  by (cases "i < length cs") (auto simp: serve_client_def Let_def map_update map_update_same list_update_beyond
      split: option.splits if_splits prod.splits)

lemma loop_log_exact:
  "client_loop i ready recv cs = Some (os, cs') \<Longrightarrow>
   mset (map cname cs') + mset (went (loop_log i ready recv cs)) = mset (map cname cs) \<and>
   came (loop_log i ready recv cs) = []"
proof (induction i ready recv cs arbitrary: os cs' rule: client_loop.induct)
  case (1 i ready recv cs)
  note eqs = client_loop.simps[of i ready recv cs] loop_log.simps[of i ready recv cs]
  consider "\<not> i < length cs" | "i < length cs" "\<not> ready (socket_fd (cs ! i))" | "i < length cs" "ready (socket_fd (cs ! i))"
    by blast
  then show ?case
  proof cases
    case 1
    then have "loop_log i ready recv cs = []" by (simp add: eqs)
    moreover have "cs' = cs" using 1 "1.prems" by (simp add: eqs)
    ultimately show ?thesis by simp
  next
    case 2
    then have "client_loop (Suc i) ready recv cs = Some (os, cs')" using "1.prems" by (simp add: eqs Let_def)
    then show ?thesis using "1.IH"(2)[OF 2(1) refl 2(2)] 2 by (simp add: eqs Let_def)
  next
    case 3
    obtain os1 cs1 removed where s: "serve_client i (recv (socket_fd (cs ! i))) cs = Some (os1, cs1, removed)"
      using "1.prems" 3 by (auto simp: eqs Let_def split: option.splits)
    then obtain os2 where l: "client_loop (if removed then i else Suc i) ready recv cs1 = Some (os2, cs')"
      using "1.prems" 3 by (auto simp: eqs Let_def split: option.splits)
    note IH = "1.IH"(1)[OF 3(1) refl 3(2) s refl refl l]
    define l1 l2 where "l1 = (if removed then remove_log (socket_fd (cs ! i)) cs else [])"
      and "l2 = loop_log (if removed then i else Suc i) ready recv cs1"
    have lg: "loop_log i ready recv cs = l1 @ l2" using 3 s by (simp add: eqs Let_def l1_def l2_def)
    have 1: "mset (map cname cs1) + mset (went l1) = mset (map cname cs)" "came l1 = []"
      using serve_client_names[OF s] remove_log_exact[of "socket_fd (cs ! i)" cs]
      by (cases removed; simp add: l1_def)+
    have 2: "mset (map cname cs') + mset (went l2) = mset (map cname cs1)" "came l2 = []"
      using IH by (simp_all add: l2_def)
    have "mset (map cname cs') + mset (went (l1 @ l2)) = (mset (map cname cs') + mset (went l2)) + mset (went l1)"
      by (simp add: ac_simps)
    also have "\<dots> = mset (map cname cs)" by (simp only: 1(1) 2(1))
    finally have "mset (map cname cs') + mset (went (l1 @ l2)) = mset (map cname cs)" .
    then show ?thesis unfolding lg using 1(2) 2(2) by simp
  qed
qed

lemma round_log_exact:
  assumes "server_round conn ready recv cs = Some (os, cs')"
  shows "mset (map cname cs') + mset (went (round_log (conn, ready, recv) cs)) =
    mset (map cname cs) + mset (came (round_log (conn, ready, recv) cs))"
proof -
  let ?ready = "\<lambda>fd. ready fd \<and> fd \<in> socket_fd ` set cs"
  let ?cs1 = "case conn of None \<Rightarrow> cs | Some (fd, ip, bytes) \<Rightarrow> snd (accept_client fd ip bytes cs)"
  let ?l = "case conn of None \<Rightarrow> [] | Some (fd, ip, bytes) \<Rightarrow> accept_log ip bytes cs"
  obtain cs1 os2 where "cs1 = ?cs1" "client_loop 0 ?ready recv cs1 = Some (os2, cs')"
    by (rule server_round_split[OF assms])
  then have r: "client_loop 0 ?ready recv ?cs1 = Some (os2, cs')" by simp
  have "mset (map cname ?cs1) = mset (map cname cs) + mset (came ?l)" "went ?l = []"
    by (auto simp: accept_client_def accept_log_def split: option.splits)
  moreover have "round_log (conn, ready, recv) cs = ?l @ loop_log 0 ?ready recv ?cs1"
    by (cases conn) (simp_all add: round_log_def Let_def case_prod_beta)
  ultimately show ?thesis using loop_log_exact[OF r] by simp
qed

lemma server_loop_exact:
  "server_loop evs cs = (os, l, Serving cs') \<Longrightarrow>
   mset (map cname cs') + mset (went l) = mset (map cname cs) + mset (came l)"
proof (induction evs cs arbitrary: os l rule: server_loop.induct)
  case (4 conn ready recv evs cs)
  then obtain os1 cs1 where r: "server_round conn ready recv cs = Some (os1, cs1)"
    by (auto split: option.splits)
  obtain os2 l2 where l: "server_loop evs cs1 = (os2, l2, Serving cs')" "l = round_log (conn, ready, recv) cs @ l2"
    using "4.prems" r by (auto split: prod.splits)
  have "(mset (map cname cs') + mset (went l2)) + (mset (map cname cs1) + mset (went (round_log (conn, ready, recv) cs))) =
    (mset (map cname cs1) + mset (came l2)) + (mset (map cname cs) + mset (came (round_log (conn, ready, recv) cs)))"
    using "4.IH"[OF r refl l(1)] round_log_exact[OF r] by simp
  then show ?case unfolding l(2) by (simp add: ac_simps)
qed auto

section \<open>Whole sessions\<close>

text \<open>The sockets keep to \<open>sockets_ok\<close> in every round.\<close>

fun sockets_behave :: "round_in list \<Rightarrow> client list \<Rightarrow> bool" where
  "sockets_behave [] cs = True"
| "sockets_behave ((conn, ready, recv) # evs) cs =
     (sockets_ok conn recv cs \<and>
      (case server_round conn ready recv cs of None \<Rightarrow> True | Some (os, cs') \<Rightarrow> sockets_behave evs cs'))"

lemma server_loop_reaches:
  "server_loop evs cs = (os, l, Serving cs') \<Longrightarrow> sockets_behave (rounds evs) cs \<Longrightarrow>
   reachable chat_start chat_step cs \<Longrightarrow> reachable chat_start chat_step cs'"
proof (induction evs cs arbitrary: os l rule: server_loop.induct)
  case (4 conn ready recv evs cs)
  then obtain os1 cs1 where r: "server_round conn ready recv cs = Some (os1, cs1)"
    by (auto split: option.splits)
  obtain os2 l2 where l: "server_loop evs cs1 = (os2, l2, Serving cs')"
    using "4.prems"(1) r by (auto split: prod.splits)
  have "chat_step cs cs1" "sockets_behave (rounds evs) cs1"
    using "4.prems"(2) r by (auto intro: chat_step.round)
  then show ?case using "4.IH"[OF r refl l] "4.prems"(3) by (blast intro: reach_step)
qed auto

lemma server_loop_rounds:
  "server_loop evs cs = (os, l, Serving cs') \<Longrightarrow>
   \<not> select_fails evs \<and> server_loop (map Selected (rounds evs)) cs = (os, l, Serving cs')"
  by (induction evs cs arbitrary: os l rule: server_loop.induct) (auto split: option.splits prod.splits)

text \<open>C40: The server from its command line on. While it serves, the names it has announced on the
  terminal as connected are, with multiplicity, those announced as disconnected and those of the clients in its
  table: nobody enters or leaves the table unannounced, in whatever order clients come, speak
  and go; interrupted calls of select make no difference, and no other error of select has
  occurred; and when the sockets keep to their contract, the table is one of the reachable
  states, with at most 16 clients.\<close>

theorem server_session:
  assumes "server_main N prog args evs = (calls, Up (os, log, Serving cs))"
  shows "mset (map cname cs) + mset (went log) = mset (came log) \<and> \<not> select_fails evs \<and>
    server_main N prog args (map Selected (rounds evs)) = (calls, Up (os, log, Serving cs)) \<and>
    (sockets_behave (rounds evs) [] \<longrightarrow> reachable chat_start chat_step cs \<and> length cs \<le> 16)"
proof -
  have r: "server_loop evs [] = (os, log, Serving cs)"
    using assms by (auto simp: server_main_def split: started.splits prod.splits)
  have "reachable chat_start chat_step []" by (rule reach_start) (simp add: chat_start_def)
  then have "sockets_behave (rounds evs) [] \<longrightarrow> reachable chat_start chat_step cs \<and> length cs \<le> 16"
    using server_loop_reaches[OF r] chat.reachable_inv by (auto simp: server_ok_def MAX_CLIENTS_def)
  moreover have "server_main N prog args (map Selected (rounds evs)) = (calls, Up (os, log, Serving cs))"
    using assms server_loop_rounds[OF r] by (auto simp: server_main_def split: started.splits prod.splits)
  ultimately show ?thesis using server_loop_exact[OF r] server_loop_rounds[OF r] by simp
qed

definition demo_net :: netlib where
  "demo_net = \<lparr>socket_result = 3, bind_result = (\<lambda>_ _. 0), listen_result = (\<lambda>_. 0),
     pton_result = (\<lambda>_. (1, 0x7F000001)), connect_result = (\<lambda>_ _ _. 0)\<rparr>"

text \<open>Two clients come, the call is interrupted, the first one leaves.\<close>

definition demo_rounds :: "round_in selected list" where
  "demo_rounds = [Selected (Some (4, ''10.0.0.1'', ''ann'' @ [newline]), \<lambda>_. False, \<lambda>_ _. []),
     Selected (Some (5, ''10.0.0.2'', ''bob'' @ [newline]), \<lambda>_. False, \<lambda>_ _. []), Interrupted,
     Selected (None, \<lambda>fd. fd = 4, \<lambda>_ _. [])]"

theorem server_session_witness:
  "server_main demo_net ''hw3server'' [''8080''] demo_rounds =
     ([MakeSocket, ReuseAddr 3, Bind 3 8080, Listen 3 16],
      Up ([Close 4], [Connected ''ann'' ''10.0.0.1'', Connected ''bob'' ''10.0.0.2'', Disconnected ''ann''],
        Serving [\<lparr>socket_fd = 5, cname = ''bob'', cip = ''10.0.0.2'', cbuffer = []\<rparr>])) \<and>
   mset [''bob''] + mset [''ann''] = mset [''ann'', ''bob'']"
proof -
  have h: "server_main demo_net ''hw3server'' [''8080''] demo_rounds =
     ([MakeSocket, ReuseAddr 3, Bind 3 8080, Listen 3 16],
      Up ([Close 4], [Connected ''ann'' ''10.0.0.1'', Connected ''bob'' ''10.0.0.2'', Disconnected ''ann''],
        Serving [\<lparr>socket_fd = 5, cname = ''bob'', cip = ''10.0.0.2'', cbuffer = []\<rparr>]))"
    by code_simp
  then show ?thesis using server_session[OF h] by simp
qed

end
