(* ===== verification/Spec2Isabelle.thy ===== *)
theory Spec2Isabelle
  imports Xv6_Props Xv6_TreeProps Xv6_OpProps Xv6_SchedProps Xv6_CallProps Xv6_PsProps Test_Props Job_Props Job_Logs Chat_Props Chat_Main
begin

text \<open>
  \<^bold>\<open>The repository\<close> holds four course assignments: a modified xv6 kernel with three new system
  calls and the program \<open>ps\<close> (\<open>hw4\<close>), a dispatcher that hands jobs to worker threads
  (\<open>hw2_314619107_206926602\<close>), and a chat server with its client (\<open>hw3_206926602_314619107\<close>). They
  share no code; here they share \<open>OS_Prelude\<close> (C integers, the search loop over an array, the
  locale \<open>invariant_machine\<close>, which each of the three interprets with its own steps, and
  \<open>simulation\<close>, which adds an abstract machine) and \<open>C_Text\<close> (the C library's functions on text).

  \<^bold>\<open>The kernel.\<close> \<open>Xv6_State\<close> has the data of \<open>proc.h\<close>: the process table is a list, a
  \<open>struct proc *\<close> an index into it. \<open>Xv6_Proc\<close> has the functions of \<open>proc.c\<close>, one definition for
  what happens between taking and releasing \<open>ptable.lock\<close>. \<open>Xv6_Kernel\<close> composes them into the
  step relation \<open>kstep\<close>: any CPU may take the next critical section of the process it runs, of its
  scheduler or of an interrupt. \<open>Xv6_Inv\<close>, \<open>Xv6_Steps\<close>, \<open>Xv6_Fork\<close> and \<open>Xv6_Exit\<close> prove that each
  piece keeps the invariant \<open>kinv\<close>, and \<open>Xv6_Pids\<close> adds the one on the pids that free slots still
  carry. \<open>Xv6_Info\<close> has \<open>getNumProc\<close>, \<open>getMaxPid\<close>, \<open>getProcInfo\<close> and \<open>procdump\<close>, \<open>Xv6_Syscall\<close> the
  argument checks, the dispatch table and the wrappers of \<open>syscall.c\<close> and \<open>sysproc.c\<close>, and
  \<open>Xv6_Ps\<close> the program \<open>ps.c\<close>, each system call of which may see another state. \<open>Xv6_Demo\<close> is a
  small run on which the properties are instantiated. \<open>Xv6_Tree\<close> states what the whole table
  promises to programs: \<open>tree\<close> reads a tree of pids off a kernel state, \<open>tree_step\<close> is a machine
  of three steps on such trees, and the kernel refines it (interpretation \<open>ptree\<close>). \<open>Xv6_User\<close> is
  the way in from a C program: the prototypes of \<open>user.h\<close>, the stubs of \<open>usys.S\<close> and the words a
  call puts on the stack; its lemmas follow the arguments to the kernel function and the result
  back. The properties: \<open>Xv6_TreeProps\<close> (the refinement, step by step and call by call),
  \<open>Xv6_Props\<close> (pids, parents, CPUs, no lost wakeup, the new system calls, \<open>fork\<close>), \<open>Xv6_OpProps\<close>
  (\<open>exit\<close>, \<open>wait\<close>, \<open>kill\<close> on every branch), \<open>Xv6_SchedProps\<close> (lock discipline of \<open>sleep\<close>, \<open>sched\<close>,
  the scheduler's choice, \<open>growproc\<close>), \<open>Xv6_CallProps\<close> (arguments stay inside the process,
  dispatch, calls from C) and \<open>Xv6_PsProps\<close> (what reaches user memory, and what \<open>ps\<close> prints). The
  other kernel files are not in the repository; their functions are the fields of \<open>kext\<close>, and the
  constants of \<open>param.h\<close> and \<open>mmu.h\<close> those of \<open>kconf\<close>.

  \<^bold>\<open>The test program.\<close> \<open>User_Prog\<close> makes user programs data (trees of system calls, each continued
  by its result) and runs one in a process of the kernel, with steps of \<open>kstep\<close> by everything else
  in between, as far as a condition \<open>rely\<close> allows: \<open>uexec\<close>, whose executions are runs of the
  kernel (\<open>uexec_steps\<close>), and \<open>always\<close>, what every execution guarantees. \<open>Test_Ps\<close> is \<open>testps.c\<close>,
  all 35 tests, \<open>main\<close> and the summary. \<open>Test_Runs\<close> has what a process can rely on between its
  calls; \<open>Test_Forks\<close> what \<open>fork\<close> and \<open>wait\<close> do to the table when no other process comes or goes;
  \<open>Test_Files\<close> the tests of \<open>open\<close>, \<open>close\<close> and \<open>sbrk\<close>; \<open>Test_Verdicts\<close> the tests that pass
  always, or in a quiet system; \<open>Test_Summary\<close> the counting of verdicts, and that in a full
  process table every program has an execution; \<open>Test_Demo\<close> a run with two CPUs. \<open>Test_Props\<close> says
  of each group of tests when it passes, shows a run in which a test fails although the kernel is
  right, and that the summary is true to the output. Of the 35 tests, 30 are in one of these
  groups; two more report success on both branches, two leave their verdict to a child, which
  \<open>Test_Children\<close> follows by the tree of pids, and one asks for a counter to grow in time.

  \<^bold>\<open>The job dispatcher.\<close> \<open>Job_Queue\<close> is \<open>queue.c\<close> on an explicit heap; its locale \<open>fifo\<close>,
  interpreted by the code as \<open>jobs\<close>, gives the refinement to a list. \<open>Job_Worker\<close> is what
  \<open>worker.c\<close> does with one job: splitting it, repeats, the counter files and the statistics;
  \<open>Job_Dispatcher\<close> reads the command file as \<open>process_commands\<close> does. \<open>Job_System\<close> makes one
  program of them: \<open>jstep\<close> interleaves the dispatcher (\<open>dstep\<close>) and the workers (\<open>wstep\<close>), one
  step for each section under a lock or command of a job (\<open>update_counter\<close> holds the counter's
  lock throughout), the waits on \<open>queue_cond\<close> and \<open>done_cond\<close> as blocked states that a signal, a
  broadcast or a spurious wakeup ends. Its invariant \<open>jinv\<close> follows the addresses in the queue.
  \<open>Job_Props\<close> shows that \<open>active_jobs\<close> is exact, that waiting waits for every job, that every run
  with a worker ends (\<open>cost\<close> bounds its steps) and that the counter files end with the sums of all
  jobs in any interleaving. \<open>Job_Logs\<close> adds the command line with its errors and the log files:
  beside the state, a step of \<open>lstep\<close> adds the line that the thread writes, and each log is at any
  moment a sequence of whole jobs and the beginning of the one that is running (interpretation
  \<open>logs\<close>).

  \<^bold>\<open>The chat.\<close> \<open>Chat_Server\<close> is \<open>hw3server.c\<close>, one definition per function and per part of the
  main loop, the loop over the clients with its removals included; \<open>Chat_Client\<close> is \<open>hw3client.c\<close>.
  What the sockets and the terminal deliver, and which are ready, are arguments of a round; the
  result is the sequence of socket operations and the new state. \<open>Chat_Inv\<close> has the server's
  invariant and compares its loop with serving each client on its own; \<open>Chat_Lines\<close> has the
  framing of a byte stream into lines. \<open>Chat_Props\<close> shows the bounds of all buffers, the routing
  of messages, when \<open>formatted_msg\<close> overflows, and from the user's typing to the recipients that
  lines arrive exactly, whatever way they are cut into pieces. \<open>Chat_Setup\<close> has the beginnings of
  both programs, from the command line to \<open>select\<close>, with the results of the socket calls as
  parameters, and \<open>Chat_Main\<close> the programs as a whole: the loops with the calls of \<open>select\<close> that
  are interrupted or fail, and the lines on the server's terminal, which tell exactly who is in
  the room.

  \<^bold>\<open>Termination.\<close> There is no fuel: loops of the code are structural recursion, \<open>function\<close> with a
  measure (\<open>drain\<close>, \<open>client_loop\<close>, \<open>fgets_lines\<close>), or, where the program does not end by itself
  (the scheduler, a worker, the server), a step of a transition relation.

  \<^bold>\<open>Not modelled\<close>: \<open>defs.h\<close>, which is prototypes of kernel functions; the library functions that
  \<open>user.h\<close> declares, and the trap code between \<open>int\<close> and \<open>syscall\<close>, which are not in the
  repository; \<open>hw1\<close>, which has no source of a program. The calls of \<open>testps.c\<close> on files and pipes
  are a parameter, since \<open>sysfile.c\<close> is not in the repository; a child of a test is another
  execution, of another process, and its output is its own. Writes to sockets are taken to be
  complete, and files that exist, or that are opened for writing, to open; turnaround times are
  arbitrary numbers.
\<close>

end
